(* ===== verification/Ftp_Prelude.thy ===== *)
theory Ftp_Prelude
  imports Main "HOL-Library.Word" "HOL-Library.Monad_Syntax" "HOL-Library.Signed_Division"
    "HOL-Library.List_Lexorder"
begin

text \<open>
  The vocabulary the component theories share.

  \<^item> Undefined behaviour. Every operation of the C code that can read or write outside an
    object, follow a null or indeterminate pointer, fail an \<open>assert\<close> or never return has an
    \<open>option\<close> result whose \<open>None\<close> is exactly that; ordinary errors of the program are values
    under \<open>Some\<close>.
  \<^item> Memory. A \<open>char *\<close> buffer is a list of bytes of the buffer's size, read and written
    through \<open>rd\<close>, \<open>wr\<close> and \<open>blit\<close>, which are \<open>None\<close> outside the buffer; \<open>cstr\<close> is the C
    string at its start.
  \<^item> The character classes, comparisons and number formats of the C library, in the C locale,
    and 32-bit and 64-bit integer ranges.
  \<^item> The collections \<open>buffer_simps\<close> and \<open>frame\<close> for the facts the component proofs share, and
    two general interfaces: a comparator with its key, and a step relation with its invariant.
\<close>

named_theorems buffer_simps
named_theorems frame

subsection \<open>Bytes, buffers and C strings\<close>

abbreviation NUL :: char where "NUL \<equiv> CHR 0x00"
abbreviation LF :: char where "LF \<equiv> CHR 0x0A"
abbreviation CR :: char where "CR \<equiv> CHR 0x0D"
abbreviation SPC :: char where "SPC \<equiv> CHR 0x20"
abbreviation TAB :: char where "TAB \<equiv> CHR 0x09"
abbreviation SLASH :: char where "SLASH \<equiv> CHR 0x2F"
abbreviation CRLF :: string where "CRLF \<equiv> [CR, LF]"

type_synonym buf = "char list"

definition rd :: "buf \<Rightarrow> nat \<Rightarrow> char option" where
  "rd b i = (if i < length b then Some (b ! i) else None)"

definition wr :: "buf \<Rightarrow> nat \<Rightarrow> char \<Rightarrow> buf option" where
  "wr b i c = (if i < length b then Some (b[i := c]) else None)"

text \<open>\<open>blit b i s\<close> is \<open>memcpy(b + i, s, length s)\<close>.\<close>

definition blit :: "buf \<Rightarrow> nat \<Rightarrow> char list \<Rightarrow> buf option" where
  "blit b i s = (if i + length s \<le> length b
     then Some (take i b @ s @ drop (i + length s) b) else None)"

definition cstr :: "buf \<Rightarrow> string" where
  "cstr b = takeWhile (\<lambda>c. c \<noteq> NUL) b"

definition nul_free :: "string \<Rightarrow> bool" where
  "nul_free s \<longleftrightarrow> NUL \<notin> set s"

text \<open>\<open>strlen(b + p)\<close>: reading past the buffer is undefined.\<close>

definition strlen_at :: "buf \<Rightarrow> nat \<Rightarrow> nat option" where
  "strlen_at b p = (if NUL \<in> set (drop p b) then Some (length (cstr (drop p b))) else None)"

lemma bind_SomeE:
  assumes "x \<bind> f = Some y" obtains z where "x = Some z" and "f z = Some y"
  using assms by (cases x) auto

lemma rd_Some_iff: "rd b i = Some c \<longleftrightarrow> i < length b \<and> b ! i = c"
  by (auto simp: rd_def)

lemma wr_Some_iff: "wr b i c = Some b' \<longleftrightarrow> i < length b \<and> b' = b[i := c]"
  by (auto simp: wr_def)

lemma blit_Some_iff:
  "blit b i s = Some b' \<longleftrightarrow> i + length s \<le> length b \<and> b' = take i b @ s @ drop (i + length s) b"
  by (auto simp: blit_def)

lemma length_wr [buffer_simps]: "wr b i c = Some b' \<Longrightarrow> length b' = length b"
  by (auto simp: wr_Some_iff)

lemma length_blit [buffer_simps]: "blit b i s = Some b' \<Longrightarrow> length b' = length b"
  by (auto simp: blit_Some_iff)

lemma wr_append [buffer_simps]: "wr (u @ x # r) (length u) c = Some (u @ c # r)"
  by (simp add: wr_def)

lemma take_blit: "blit b i s = Some b' \<Longrightarrow> take (i + length s) b' = take i b @ s"
  by (auto simp: blit_Some_iff)

lemma take_wr: "wr b i c = Some b' \<Longrightarrow> take (Suc i) b' = take i b @ [c]"
  by (auto simp: wr_Some_iff take_Suc_conv_app_nth)

lemma nul_free_simps [simp]:
  "nul_free []"
  "nul_free (c # s) \<longleftrightarrow> c \<noteq> NUL \<and> nul_free s"
  "nul_free (s @ t) \<longleftrightarrow> nul_free s \<and> nul_free t"
  by (auto simp: nul_free_def)

lemma nul_free_take [intro]: "nul_free s \<Longrightarrow> nul_free (take n s)"
  by (auto simp: nul_free_def dest: in_set_takeD)

lemma nul_free_drop [intro]: "nul_free s \<Longrightarrow> nul_free (drop n s)"
  by (auto simp: nul_free_def dest: in_set_dropD)

lemma nul_free_cstr [simp, intro]: "nul_free (cstr b)"
  by (auto simp: nul_free_def cstr_def dest: set_takeWhileD)

lemma cstr_nul_free [simp]: "nul_free s \<Longrightarrow> cstr (s @ NUL # r) = s"
  by (induction s) (auto simp: cstr_def)

lemma cstr_NUL [simp]: "cstr (NUL # r) = []"
  by (simp add: cstr_def)

lemma cstr_id: "nul_free s \<Longrightarrow> cstr s = s"
  by (auto simp: cstr_def nul_free_def takeWhile_eq_all_conv)

lemma length_cstr_le: "length (cstr b) \<le> length b"
  by (simp add: cstr_def length_takeWhile_le)

text \<open>The string a buffer holds, from the prefix up to a terminator written at \<open>n\<close>.\<close>

lemma cstr_prefix:
  assumes "n < length b" and "b ! n = NUL" and "nul_free (take n b)"
  shows "cstr b = take n b"
proof -
  have "b = take n b @ NUL # drop (Suc n) b"
    using assms by (metis id_take_nth_drop)
  then have "cstr b = cstr (take n b @ NUL # drop (Suc n) b)" by simp
  also have "\<dots> = take n b" using assms(3) by (rule cstr_nul_free)
  finally show ?thesis .
qed

lemma strlen_at_terminated:
  "nul_free s \<Longrightarrow> strlen_at (pre @ s @ NUL # r) (length pre) = Some (length s)"
  by (simp add: strlen_at_def)

subsection \<open>Character classes of the C locale\<close>

definition byte_of :: "char \<Rightarrow> nat" where
  "byte_of c = of_char c"

definition isblank :: "char \<Rightarrow> bool" where
  "isblank c \<longleftrightarrow> c = SPC \<or> c = TAB"

definition isspace :: "char \<Rightarrow> bool" where
  "isspace c \<longleftrightarrow> c \<in> {SPC, TAB, LF, CHR 0x0B, CHR 0x0C, CR}"

definition tolower :: "char \<Rightarrow> char" where
  "tolower c = (if 65 \<le> byte_of c \<and> byte_of c \<le> 90 then char_of (byte_of c + 32) else c)"

definition toupper :: "char \<Rightarrow> char" where
  "toupper c = (if 97 \<le> byte_of c \<and> byte_of c \<le> 122 then char_of (byte_of c - 32) else c)"

lemma isblank_isspace: "isblank c \<Longrightarrow> isspace c"
  by (auto simp: isblank_def isspace_def)

lemma not_isspace_NUL [simp]: "\<not> isspace NUL"
  by (simp add: isspace_def)

lemma not_isblank_NUL [simp]: "\<not> isblank NUL"
  by (simp add: isblank_def)

subsection \<open>\<open>strcasecmp\<close>\<close>

text \<open>
  Only the sign of the result is documented; where one string is a proper prefix of the other
  the result is -1 or 1, elsewhere the difference of the first differing bytes.
\<close>

fun strcasecmp :: "string \<Rightarrow> string \<Rightarrow> int" where
  "strcasecmp [] [] = 0"
| "strcasecmp [] (b # bs) = -1"
| "strcasecmp (a # as) [] = 1"
| "strcasecmp (a # as) (b # bs) =
     (if tolower a = tolower b then strcasecmp as bs
      else int (byte_of (tolower a)) - int (byte_of (tolower b)))"

definition casekey :: "string \<Rightarrow> nat list" where
  "casekey s = map (\<lambda>c. byte_of (tolower c)) s"

lemma byte_of_eq_iff: "byte_of a = byte_of b \<longleftrightarrow> a = b"
  by (simp add: byte_of_def)

lemma strcasecmp_zero_iff: "strcasecmp s t = 0 \<longleftrightarrow> casekey s = casekey t"
  by (induction s t rule: strcasecmp.induct) (auto simp: casekey_def byte_of_eq_iff)

lemma strcasecmp_neg_iff: "strcasecmp s t < 0 \<longleftrightarrow> casekey s < casekey t"
  by (induction s t rule: strcasecmp.induct) (auto simp: casekey_def byte_of_eq_iff)

lemma strcasecmp_refl [simp]: "strcasecmp s s = 0"
  by (simp add: strcasecmp_zero_iff)

text \<open>A three-way comparison that reflects a linearly ordered key.\<close>

locale comparator =
  fixes cmp :: "'q \<Rightarrow> 'e \<Rightarrow> int"
    and qkey :: "'q \<Rightarrow> 'k::linorder"
    and ekey :: "'e \<Rightarrow> 'k"
  assumes cmp_neg: "cmp q e < 0 \<longleftrightarrow> qkey q < ekey e"
    and cmp_zero: "cmp q e = 0 \<longleftrightarrow> qkey q = ekey e"
begin

lemma cmp_pos: "0 < cmp q e \<longleftrightarrow> ekey e < qkey q"
  using cmp_neg [of q e] cmp_zero [of q e] by (metis linorder_neqE not_less_iff_gr_or_eq)

lemma cmp_le: "cmp q e \<le> 0 \<longleftrightarrow> qkey q \<le> ekey e"
  using cmp_pos [of q e] by (meson linorder_not_less)

end

interpretation casecmp: comparator strcasecmp casekey casekey
  by unfold_locales (simp_all add: strcasecmp_neg_iff strcasecmp_zero_iff)

subsection \<open>Machine integers\<close>

text \<open>Conversion to a 32-bit and a 64-bit signed integer, as gcc performs it (wrap-around).\<close>

definition to_int32 :: "int \<Rightarrow> int" where
  "to_int32 i = signed_take_bit 31 i"

definition to_int64 :: "int \<Rightarrow> int" where
  "to_int64 i = signed_take_bit 63 i"

definition INT_MIN :: int where "INT_MIN = -2147483648"
definition INT_MAX :: int where "INT_MAX = 2147483647"
definition LLONG_MIN :: int where "LLONG_MIN = -9223372036854775808"
definition LLONG_MAX :: int where "LLONG_MAX = 9223372036854775807"

lemma to_int32_id: "INT_MIN \<le> i \<Longrightarrow> i \<le> INT_MAX \<Longrightarrow> to_int32 i = i"
  by (simp add: to_int32_def INT_MIN_def INT_MAX_def signed_take_bit_int_eq_self)

lemma to_int32_range: "INT_MIN \<le> to_int32 i \<and> to_int32 i \<le> INT_MAX"
  using signed_take_bit_int_greater_eq_minus_exp [of 31 i] signed_take_bit_int_less_exp [of 31 i]
  by (simp add: to_int32_def INT_MIN_def INT_MAX_def)

subsection \<open>Decimal output: the conversions \<open>%d\<close>, \<open>%02d\<close>, \<open>%llu\<close>\<close>

definition digit_char :: "nat \<Rightarrow> char" where
  "digit_char d = ''0123456789'' ! d"

fun dec :: "nat \<Rightarrow> string" where
  "dec n = (if n < 10 then [digit_char n] else dec (n div 10) @ [digit_char (n mod 10)])"

declare dec.simps [simp del]

definition pad0 :: "nat \<Rightarrow> string \<Rightarrow> string" where
  "pad0 w s = replicate (w - length s) CHR ''0'' @ s"

definition fmt_d :: "int \<Rightarrow> string" where
  "fmt_d i = (if i < 0 then CHR ''-'' # dec (nat (- i)) else dec (nat i))"

definition fmt_0d :: "nat \<Rightarrow> int \<Rightarrow> string" where
  "fmt_0d w i = (if i < 0 then CHR ''-'' # pad0 (w - 1) (dec (nat (- i))) else pad0 w (dec (nat i)))"

lemma digit_char_cases:
  "d < 10 \<Longrightarrow> digit_char d \<in> set ''0123456789''"
  unfolding digit_char_def by (rule nth_mem) simp

lemma set_dec: "set (dec n) \<subseteq> set ''0123456789''"
proof (induction n rule: dec.induct)
  case (1 n)
  have m: "digit_char (n mod 10) \<in> set ''0123456789''" by (rule digit_char_cases) simp
  show ?case
  proof (cases "n < 10")
    case True
    then show ?thesis
      using digit_char_cases [of n] by (simp only: dec.simps [of n] if_True list.set insert_subset) simp
  next
    case False
    then have "dec n = dec (n div 10) @ [digit_char (n mod 10)]" by (simp add: dec.simps [of n])
    with 1 False m show ?thesis
      by (simp only: set_append Un_subset_iff list.set insert_subset) simp
  qed
qed

lemma nul_free_dec [simp]: "nul_free (dec n)"
  using set_dec [of n] by (auto simp: nul_free_def)

lemma length_dec_le: "n < 10 ^ k \<Longrightarrow> 0 < k \<Longrightarrow> length (dec n) \<le> k"
proof (induction n arbitrary: k rule: dec.induct)
  case (1 n)
  show ?case
  proof (cases "n < 10")
    case True
    with 1(3) show ?thesis by (simp add: dec.simps [of n])
  next
    case False
    with 1(2,3) obtain k' where k: "k = Suc k'" "0 < k'"
      by (cases k; cases "k - 1") auto
    with 1(2) have "n div 10 < 10 ^ k'" by simp
    with 1(1) False k show ?thesis by (simp add: dec.simps [of n])
  qed
qed

lemma dec_nonempty [simp]: "dec n \<noteq> []"
  by (subst dec.simps) simp

subsection \<open>Little-endian integers in memory\<close>

fun put_le :: "nat \<Rightarrow> nat \<Rightarrow> char list" where
  "put_le 0 x = []"
| "put_le (Suc n) x = char_of (x mod 256) # put_le n (x div 256)"

fun get_le :: "char list \<Rightarrow> nat" where
  "get_le [] = 0"
| "get_le (c # cs) = byte_of c + 256 * get_le cs"

lemma length_put_le [simp]: "length (put_le n x) = n"
  by (induction n arbitrary: x) auto

lemma get_put_le [simp]: "x < 256 ^ n \<Longrightarrow> get_le (put_le n x) = x"
  by (induction n arbitrary: x) (auto simp: byte_of_def less_mult_imp_div_less algebra_simps)

subsection \<open>Searched tables\<close>

text \<open>
  A search over a fixed table: it finds a matching entry when there is one. Where at most one
  entry matches, the search is the matching relation itself.
\<close>

locale searched_table =
  fixes search :: "'q \<Rightarrow> 'e option"
    and entries :: "'e list"
    and matches :: "'q \<Rightarrow> 'e \<Rightarrow> bool"
  assumes search_Some: "search q = Some e \<Longrightarrow> e \<in> set entries \<and> matches q e"
    and search_None: "search q = None \<Longrightarrow> e \<in> set entries \<Longrightarrow> \<not> matches q e"
    and matches_unique:
      "e \<in> set entries \<Longrightarrow> e' \<in> set entries \<Longrightarrow> matches q e \<Longrightarrow> matches q e' \<Longrightarrow> e = e'"
begin

lemma search_iff: "search q = Some e \<longleftrightarrow> e \<in> set entries \<and> matches q e"
  using search_Some [of q e] search_None [of q e] matches_unique [of e _ q] search_Some [of q]
  by (cases "search q") auto

lemma search_None_iff: "search q = None \<longleftrightarrow> (\<forall>e \<in> set entries. \<not> matches q e)"
  using search_Some [of q] search_None [of q] by (cases "search q") auto

end

subsection \<open>Step relations with an invariant\<close>

locale step_invariant =
  fixes step :: "'s \<Rightarrow> 's \<Rightarrow> bool"
    and inv :: "'s \<Rightarrow> bool"
  assumes step_inv: "inv s \<Longrightarrow> step s t \<Longrightarrow> inv t"
begin

lemma reachable_inv: "step\<^sup>*\<^sup>* s t \<Longrightarrow> inv s \<Longrightarrow> inv t"
  by (induction rule: rtranclp_induct) (auto intro: step_inv)

end

subsection \<open>Frame relations\<close>

text \<open>
  \<open>within R s m\<close>: if the computation \<open>m\<close> returns, its final state is related to \<open>s\<close>. For a reflexive
  and transitive \<open>R\<close> the rules below are directed by the syntax of \<open>m\<close>, so that the frame of a
  whole handler is proved by applying them with the rules of the primitives.
\<close>

definition within :: "('s \<Rightarrow> 's \<Rightarrow> bool) \<Rightarrow> 's \<Rightarrow> ('a \<times> 's) option \<Rightarrow> bool" where
  "within R s m \<longleftrightarrow> (\<forall>x t. m = Some (x, t) \<longrightarrow> R s t)"

lemma withinI: "(\<And>x t. m = Some (x, t) \<Longrightarrow> R s t) \<Longrightarrow> within R s m"
  by (simp add: within_def)

lemma withinD: "within R s m \<Longrightarrow> m = Some (x, t) \<Longrightarrow> R s t"
  by (simp add: within_def)

locale frame_relation =
  fixes R :: "'s \<Rightarrow> 's \<Rightarrow> bool"
  assumes R_refl: "R s s"
    and R_trans: "R s t \<Longrightarrow> R t u \<Longrightarrow> R s u"
begin

lemma w_return: "R s t \<Longrightarrow> within R s (Some (x, t))"
  by (simp add: within_def)

lemma w_none: "within R s None"
  by (simp add: within_def)

lemma w_bind: "within R s m \<Longrightarrow> (\<And>x t. R s t \<Longrightarrow> within R s (f (x, t))) \<Longrightarrow> within R s (m \<bind> f)"
  by (auto simp: within_def bind_eq_Some_conv)

lemma w_pure: "(\<And>x. m = Some x \<Longrightarrow> within R s (f x)) \<Longrightarrow> within R s (m \<bind> f)"
  by (auto simp: within_def bind_eq_Some_conv)

lemma w_step: "within R t m \<Longrightarrow> R s t \<Longrightarrow> within R s m"
  unfolding within_def using R_trans by blast

lemma w_if: "(c \<Longrightarrow> within R s a) \<Longrightarrow> (\<not> c \<Longrightarrow> within R s b) \<Longrightarrow> within R s (if c then a else b)"
  by simp

lemma w_prod: "(\<And>x t. p = (x, t) \<Longrightarrow> within R s (f x t)) \<Longrightarrow> within R s (case p of (x, t) \<Rightarrow> f x t)"
  by (simp split: prod.splits)

lemma w_sum: "(\<And>x. a = Inl x \<Longrightarrow> within R s (f x)) \<Longrightarrow> (\<And>y. a = Inr y \<Longrightarrow> within R s (g y)) \<Longrightarrow>
    within R s (case a of Inl x \<Rightarrow> f x | Inr y \<Rightarrow> g y)"
  by (simp split: sum.splits)

lemma w_option: "(a = None \<Longrightarrow> within R s f) \<Longrightarrow> (\<And>y. a = Some y \<Longrightarrow> within R s (g y)) \<Longrightarrow>
    within R s (case a of None \<Rightarrow> f | Some y \<Rightarrow> g y)"
  by (simp split: option.splits)

lemmas within_rules = w_return w_none w_bind w_if w_sum w_option

end

end
