(* ===== verification/Ftp_Util.thy ===== *)
theory Ftp_Util
  imports Ftp_Prelude
begin

text \<open>
  The string helpers of \<open>util.c\<close>: \<open>strlcpy\<close>, \<open>trim_whitespace\<close> and \<open>find_basename\<close>. They work on
  buffers byte by byte, with reads and writes outside the buffer as undefined behaviour. The
  lemmas give their effect on C strings, which is what the component theories use.
\<close>

subsection \<open>Bounded copy\<close>

text \<open>
  \<open>strlcpy(dst, src, size)\<close> on the buffer \<open>dst\<close> and the C string \<open>src\<close>: the result is the length
  of \<open>src\<close> and the new buffer. Nothing is written, not even the terminator, when \<open>src\<close> is empty;
  \<open>size - 1\<close> is a \<open>size_t\<close> and wraps at 0.
\<close>

definition strlcpy :: "buf \<Rightarrow> string \<Rightarrow> nat \<Rightarrow> (nat \<times> buf) option" where
  "strlcpy dst src sz = (let len = length src in
     if len \<noteq> 0 then
       (let lim = (if sz = 0 then 2 ^ 64 - 1 else sz - 1);
            tlen = (if len > lim then lim else len)
        in do { d \<leftarrow> blit dst 0 (take tlen src);
                d \<leftarrow> wr d tlen NUL;
                Some (len, d) })
     else Some (len, dst))"

lemma blit_wr_NUL:
  "length t < length b \<Longrightarrow>
     do { d \<leftarrow> blit b 0 t; wr d (length t) NUL } = Some (t @ NUL # drop (Suc (length t)) b)"
  by (simp add: blit_def wr_def list_update_append Cons_nth_drop_Suc [symmetric])

lemma strlcpy_Nil [simp]: "strlcpy dst [] sz = Some (0, dst)"
  by (simp add: strlcpy_def)

lemma strlcpy_length_buf: "strlcpy dst src sz = Some (n, d) \<Longrightarrow> length d = length dst"
  by (auto simp: strlcpy_def Let_def bind_eq_Some_conv buffer_simps split: if_splits)

lemma strlcpy_result: "strlcpy dst src sz = Some (n, d) \<Longrightarrow> n = length src"
  by (auto simp: strlcpy_def Let_def bind_eq_Some_conv split: if_splits)

text \<open>A copy into a buffer of at least \<open>sz\<close> bytes is defined and leaves the truncated string.\<close>

lemma strlcpy_bounded:
  assumes "0 < sz" and "sz \<le> length dst" and "src \<noteq> []" and "nul_free src"
  shows "\<exists>d. strlcpy dst src sz = Some (length src, d) \<and> length d = length dst
      \<and> cstr d = take (sz - 1) src \<and> take (length (take (sz - 1) src)) d = take (sz - 1) src"
proof -
  define t where "t = take (sz - 1) src"
  have lt: "length t < length dst" using assms by (auto simp: t_def)
  have tlen: "take (if length src > sz - 1 then sz - 1 else length src) src = t"
    and n: "(if length src > sz - 1 then sz - 1 else length src) = length t"
    by (auto simp: t_def)
  let ?d = "t @ NUL # drop (Suc (length t)) dst"
  have "strlcpy dst src sz
      = do { d \<leftarrow> blit dst 0 t; d \<leftarrow> wr d (length t) NUL; Some (length src, d) }"
    using assms(1,3)
    by (cases "sz - 1 < length src") (simp_all add: strlcpy_def Let_def t_def min_def)
  also have "\<dots> = do { d \<leftarrow> do { d \<leftarrow> blit dst 0 t; wr d (length t) NUL }; Some (length src, d) }"
    by simp
  also have "\<dots> = Some (length src, ?d)"
    using lt by (simp only: blit_wr_NUL) simp
  finally have "strlcpy dst src sz = Some (length src, ?d)" .
  moreover have "cstr ?d = t" using assms(4) unfolding t_def by (intro cstr_nul_free) auto
  ultimately show ?thesis
    using lt unfolding t_def [symmetric] by (intro exI [of _ ?d]) auto
qed

lemma strlcpy_fits:
  assumes "src \<noteq> []" and "nul_free src" and "length src < sz" and "sz \<le> length dst"
  obtains d where "strlcpy dst src sz = Some (length src, d)" and "length d = length dst"
    and "cstr d = src" and "take (length src) d = src"
  using strlcpy_bounded [of sz dst src] assms by auto

subsection \<open>Trimming white space\<close>

text \<open>
  \<open>trim_whitespace(b + p)\<close>. Leading characters are skipped while \<open>isblank\<close>, trailing ones are
  cut while \<open>isspace\<close>; the backward loop has no lower bound, so it is undefined when it runs
  below the start of the buffer. The result is the position of the trimmed string and the buffer
  with the new terminator.
\<close>

function skip_blank :: "buf \<Rightarrow> nat \<Rightarrow> nat option" where
  "skip_blank b p =
     (if p < length b then (if isblank (b ! p) then skip_blank b (Suc p) else Some p) else None)"
  by pat_completeness auto
termination
  by (relation "measure (\<lambda>(b, p). length b - p)") auto

declare skip_blank.simps [simp del]

fun back_space :: "buf \<Rightarrow> nat \<Rightarrow> nat option" where
  "back_space b 0 = (if isspace (b ! 0) then None else Some 0)"
| "back_space b (Suc e) = (if isspace (b ! Suc e) then back_space b e else Some (Suc e))"

definition trim_whitespace :: "buf \<Rightarrow> nat \<Rightarrow> (nat \<times> buf) option" where
  "trim_whitespace b p = do {
     p \<leftarrow> skip_blank b p;
     len \<leftarrow> strlen_at b p;
     if len = 0 then Some (p, b)
     else do {
       e \<leftarrow> back_space b (p + len - 1);
       b \<leftarrow> wr b (Suc e) NUL;
       Some (p, b) } }"

text \<open>What trimming means on strings.\<close>

definition rstrip :: "string \<Rightarrow> string" where
  "rstrip s = rev (dropWhile isspace (rev s))"

definition strip :: "string \<Rightarrow> string" where
  "strip s = rstrip (dropWhile isblank s)"

lemma rstrip_snoc: "rstrip (s @ [c]) = (if isspace c then rstrip s else s @ [c])"
  by (simp add: rstrip_def)

lemma rstrip_all_space: "\<forall>c \<in> set s. isspace c \<Longrightarrow> rstrip s = []"
  by (simp add: rstrip_def dropWhile_eq_Nil_conv)

lemma rstrip_eq_Nil: "rstrip s = [] \<longleftrightarrow> (\<forall>c \<in> set s. isspace c)"
  by (simp add: rstrip_def dropWhile_eq_Nil_conv)

lemma rstrip_prefix: "\<exists>w. s = rstrip s @ w \<and> (\<forall>c \<in> set w. isspace c)"
proof (induction s rule: rev_induct)
  case (snoc c s)
  then obtain w where w: "s = rstrip s @ w" "\<forall>c \<in> set w. isspace c" by blast
  show ?case
  proof (cases "isspace c")
    case True
    then have "s @ [c] = rstrip (s @ [c]) @ w @ [c]" using w(1) by (simp add: rstrip_snoc)
    with True w(2) show ?thesis by fastforce
  qed (simp add: rstrip_snoc)
qed (simp add: rstrip_def)

lemma skip_blank_eq:
  assumes "p + length s < length b" and "take (length s) (drop p b) = s"
    and "b ! (p + length s) = NUL"
  shows "skip_blank b p = Some (p + length (takeWhile isblank s))"
  using assms
proof (induction s arbitrary: p)
  case Nil
  then show ?case by (subst skip_blank.simps) simp
next
  case (Cons c s)
  have bp: "b ! p = c" and rest: "take (length s) (drop (Suc p) b) = s"
    using Cons.prems by (auto simp: Cons_nth_drop_Suc [symmetric, of p b])
  have "skip_blank b (Suc p) = Some (Suc p + length (takeWhile isblank s))"
    using Cons.prems rest by (intro Cons.IH) auto
  then show ?case using bp Cons.prems by (subst skip_blank.simps) auto
qed

text \<open>The backward loop over a prefix with a character that is not white space.\<close>

lemma back_space_rstrip:
  assumes "s \<noteq> []" and "take (length s) b = s" and "rstrip s \<noteq> []"
  shows "back_space b (length s - 1) = Some (length (rstrip s) - 1)"
  using assms
proof (induction s rule: rev_induct)
  case (snoc c s)
  have bc: "b ! length s = c" and tk: "take (length s) b = s"
    using snoc.prems(2) by (metis length_append_singleton lessI nth_append_length nth_take,
        metis append_eq_conv_conj length_append_singleton less_or_eq_imp_le lessI min.absorb1 take_take)
  show ?case
  proof (cases "isspace c")
    case True
    with snoc.prems have ne: "rstrip s \<noteq> []" by (simp add: rstrip_snoc)
    then have "s \<noteq> []" by (auto simp: rstrip_def)
    then have "back_space b (length s) = back_space b (length s - 1)"
      using True bc by (cases "length s") auto
    with snoc.IH tk ne \<open>s \<noteq> []\<close> True show ?thesis by (simp add: rstrip_snoc)
  next
    case False
    then have "back_space b (length s) = Some (length s)" using bc by (cases "length s") auto
    then show ?thesis using False by (simp add: rstrip_snoc)
  qed
qed simp

text \<open>
  The string at \<open>p\<close> of a terminated buffer, trimmed. When the string has a character that is not
  white space the call is defined and returns the trimmed string in place.
\<close>

lemma trim_whitespace_blank:
  assumes "nul_free s" and "\<forall>c \<in> set s. isblank c" and "b = pre @ s @ NUL # r"
  shows "trim_whitespace b (length pre) = Some (length pre + length s, b)"
proof -
  have sk: "skip_blank b (length pre) = Some (length pre + length s)"
    using skip_blank_eq [of "length pre" s b] assms
    by (simp add: takeWhile_eq_all_conv [THEN iffD2] nth_append)
  have "strlen_at b (length (pre @ s)) = Some 0"
    using strlen_at_terminated [of "[]" "pre @ s" r] assms(3) by simp
  with sk show ?thesis by (simp add: trim_whitespace_def)
qed

lemma back_space_from:
  assumes "rstrip t \<noteq> []" and "b = pre @ t @ rest"
  shows "back_space b (length pre + length t - 1) = Some (length pre + length (rstrip t) - 1)"
proof -
  have ne: "t \<noteq> []" using assms(1) by (auto simp: rstrip_def)
  have r: "rstrip (pre @ t) = pre @ rstrip t"
    using assms(1) by (simp add: rstrip_def dropWhile_append) (auto simp: dropWhile_eq_Nil_conv)
  then show ?thesis
    using back_space_rstrip [of "pre @ t" b] assms ne by auto
qed

lemma trim_whitespace_strip:
  assumes nf: "nul_free s" and ns: "\<not> (\<forall>c \<in> set s. isspace c)" and b: "b = pre @ s @ NUL # r"
  shows "\<exists>b' r'. trim_whitespace b (length pre)
             = Some (length pre + length (takeWhile isblank s), b')
           \<and> b' = pre @ takeWhile isblank s @ strip s @ NUL # r' \<and> length b' = length b
           \<and> b' = b[length pre + length (takeWhile isblank s) + length (strip s) := NUL]"
proof -
  define w t where "w = takeWhile isblank s" and "t = dropWhile isblank s"
  have s: "s = w @ t" by (simp add: w_def t_def)
  have tne: "rstrip t \<noteq> []"
    using ns isblank_isspace unfolding s rstrip_eq_Nil by (auto simp: w_def dest: set_takeWhileD)
  obtain v where v: "t = rstrip t @ v" using rstrip_prefix by blast
  have sk: "skip_blank b (length pre) = Some (length (pre @ w))"
    using skip_blank_eq [of "length pre" s b] b by (simp add: nth_append w_def)
  have sl: "strlen_at b (length (pre @ w)) = Some (length t)"
    using strlen_at_terminated [of t "pre @ w" r] nf b s by simp
  have bs: "back_space b (length (pre @ w) + length t - 1)
      = Some (length (pre @ w) + length (rstrip t) - 1)"
    by (rule back_space_from [where rest = "NUL # r"]) (use tne b s in auto)
  have e: "Suc (length (pre @ w) + length (rstrip t) - 1) = length (pre @ w @ rstrip t)"
    using tne by (cases "rstrip t") auto
  obtain x r' where x: "v @ NUL # r = x # r'" by (cases v) auto
  have b2: "b = (pre @ w @ rstrip t) @ x # r'" using b s v x by (metis append.assoc)
  have wr: "wr b (Suc (length (pre @ w) + length (rstrip t) - 1)) NUL
      = Some ((pre @ w @ rstrip t) @ NUL # r')"
    unfolding e unfolding b2 by (rule wr_append)
  have "t \<noteq> []" using tne by (auto simp: rstrip_def)
  then have "trim_whitespace b (length pre)
      = Some (length (pre @ w), (pre @ w @ rstrip t) @ NUL # r')"
    unfolding trim_whitespace_def using sk sl bs wr by (simp del: length_append)
  then show ?thesis
    by (intro exI [of _ "(pre @ w @ rstrip t) @ NUL # r'"] exI [of _ r'])
      (auto simp: w_def t_def strip_def b2 list_update_append)
qed

text \<open>A string with nothing to trim.\<close>

definition trimmed :: "string \<Rightarrow> bool" where
  "trimmed s \<longleftrightarrow> s \<noteq> [] \<and> \<not> isblank (hd s) \<and> \<not> isspace (last s)"

lemma trimmed_take: "trimmed s \<Longrightarrow> takeWhile isblank (s @ r) = []"
  by (cases s) (auto simp: trimmed_def)

lemma trimmed_not_space: "trimmed s \<Longrightarrow> \<not> (\<forall>c \<in> set (s @ r). isspace c)"
  by (auto simp: trimmed_def)

lemma strip_trimmed:
  assumes "trimmed s" and "\<forall>c \<in> set w. isspace c"
  shows "strip (s @ w) = s"
proof -
  have "dropWhile isblank (s @ w) = s @ w" using assms(1) by (cases s) (auto simp: trimmed_def)
  moreover have "rstrip (s @ w) = s"
    using assms by (cases s rule: rev_cases) (auto simp: rstrip_def trimmed_def dropWhile_append)
  ultimately show ?thesis by (simp add: strip_def)
qed

lemma trim_whitespace_trimmed:
  assumes "trimmed s" and "\<forall>c \<in> set w. isspace c" and "nul_free (s @ w)"
    and "b = pre @ (s @ w) @ NUL # r"
  shows "trim_whitespace b (length pre) = Some (length pre, b[length pre + length s := NUL])"
  using trim_whitespace_strip [OF assms(3) _ assms(4)] trimmed_not_space [OF assms(1), of w]
    trimmed_take [OF assms(1), of w] strip_trimmed [OF assms(1,2)] by fastforce

text \<open>
  A string of white space that is not all blanks, at the start of the buffer: the backward loop
  leaves the buffer.
\<close>

lemma back_space_all_space:
  "\<forall>i \<le> e. isspace (b ! i) \<Longrightarrow> back_space b e = None"
  by (induction e) auto

lemma trim_whitespace_underflow:
  assumes nf: "nul_free s" and sp: "\<forall>c \<in> set s. isspace c" and nb: "\<not> (\<forall>c \<in> set s. isblank c)"
  shows "trim_whitespace (s @ NUL # r) 0 = None"
proof -
  define w t where "w = takeWhile isblank s" and "t = dropWhile isblank s"
  have s: "s = w @ t" by (simp add: w_def t_def)
  have tne: "t \<noteq> []" using nb by (simp add: t_def dropWhile_eq_Nil_conv)
  have sk: "skip_blank (s @ NUL # r) 0 = Some (length w)"
    using skip_blank_eq [of 0 s "s @ NUL # r"] by (simp add: nth_append w_def)
  have sl: "strlen_at (s @ NUL # r) (length w) = Some (length t)"
    using strlen_at_terminated [of t w r] nf s by simp
  have "\<forall>i \<le> length w + length t - 1. isspace ((s @ NUL # r) ! i)"
  proof (intro allI impI)
    fix i assume "i \<le> length w + length t - 1"
    then have "i < length s" using tne s by (cases t) auto
    then show "isspace ((s @ NUL # r) ! i)" using sp by (simp add: nth_append)
  qed
  then have "back_space (s @ NUL # r) (length w + length t - 1) = None"
    by (rule back_space_all_space)
  with sk sl tne show ?thesis by (simp add: trim_whitespace_def)
qed

subsection \<open>The last path component\<close>

fun strrchr_from :: "string \<Rightarrow> char \<Rightarrow> nat \<Rightarrow> nat option \<Rightarrow> nat option" where
  "strrchr_from [] c i found = found"
| "strrchr_from (x # xs) c i found = strrchr_from xs c (Suc i) (if x = c then Some i else found)"

definition strrchr :: "string \<Rightarrow> char \<Rightarrow> nat option" where
  "strrchr s c = strrchr_from s c 0 None"

definition find_basename :: "string \<Rightarrow> string" where
  "find_basename path =
     (case strrchr path SLASH of Some sep \<Rightarrow> drop (sep + 1) path | None \<Rightarrow> path)"

lemma strrchr_from_snoc:
  "strrchr_from (xs @ [x]) c i f = (if x = c then Some (i + length xs) else strrchr_from xs c i f)"
  by (induction xs arbitrary: i f) auto

lemma strrchr_Nil [simp]: "strrchr [] c = None"
  by (simp add: strrchr_def)

lemma strrchr_snoc:
  "strrchr (xs @ [x]) c = (if x = c then Some (length xs) else strrchr xs c)"
  by (simp add: strrchr_def strrchr_from_snoc)

lemma strrchr_less: "strrchr s c = Some i \<Longrightarrow> i < length s"
  by (induction s rule: rev_induct) (auto simp: strrchr_snoc split: if_splits)

lemma find_basename_eq: "find_basename path = rev (takeWhile (\<lambda>c. c \<noteq> SLASH) (rev path))"
proof (induction path rule: rev_induct)
  case (snoc x xs)
  then show ?case
    by (auto simp: find_basename_def strrchr_snoc dest: strrchr_less split: option.splits)
qed (simp add: find_basename_def strrchr_def)

lemma find_basename_no_slash: "SLASH \<notin> set (find_basename path)"
  by (auto simp: find_basename_eq dest: set_takeWhileD)

lemma nul_free_find_basename [simp, intro]: "nul_free p \<Longrightarrow> nul_free (find_basename p)"
  by (auto simp: find_basename_eq nul_free_def dest: set_takeWhileD)

subsection \<open>Properties\<close>

text \<open>C32. \<open>strlcpy\<close> into an array of at least \<open>sz\<close> bytes stays inside it and returns the length of the
  source; a non-empty source leaves its first \<open>sz - 1\<close> bytes, terminated. An empty source leaves the
  destination as it was, terminated or not.\<close>

theorem strlcpy_spec:
  assumes "0 < sz" and "sz \<le> length dst" and "nul_free src"
  shows "\<exists>d. strlcpy dst src sz = Some (length src, d) \<and> length d = length dst
    \<and> (if src = [] then d = dst else cstr d = take (sz - 1) src)"
  using assms strlcpy_bounded [of sz dst src] by (cases "src = []") auto

theorem strlcpy_spec_witness:
  "\<exists>d. strlcpy ''secret'' '''' 6 = Some (0, d) \<and> d = ''secret''"
  using strlcpy_spec [of 6 "''secret''" "[]"] by auto

text \<open>C33. \<open>trim_whitespace\<close> on a line: a line of blanks gives the empty string; a line with a visible
  character gives it without leading blanks and trailing white space, in place; a line of white space
  that has a character other than blank and tab runs off the front of the array.\<close>

theorem trim_whitespace_spec:
  assumes "nul_free s"
  shows "if \<forall>c \<in> set s. isblank c
      then trim_whitespace (s @ NUL # r) 0 = Some (length s, s @ NUL # r)
      else if \<forall>c \<in> set s. isspace c then trim_whitespace (s @ NUL # r) 0 = None
      else \<exists>p b. trim_whitespace (s @ NUL # r) 0 = Some (p, b) \<and> cstr (drop p b) = strip s
          \<and> length b = length (s @ NUL # r)"
proof -
  have ns: "nul_free (strip s)"
    using rstrip_prefix [of "dropWhile isblank s"] assms set_dropWhileD [of _ isblank s]
    by (metis nul_free_def nul_free_simps(3) strip_def)
  have v: "\<exists>p b. trim_whitespace (s @ NUL # r) 0 = Some (p, b) \<and> cstr (drop p b) = strip s
      \<and> length b = length (s @ NUL # r)" if c: "\<not> (\<forall>c \<in> set s. isspace c)"
  proof -
    obtain b r' where b: "trim_whitespace (s @ NUL # r) 0 = Some (length (takeWhile isblank s), b)"
      "b = takeWhile isblank s @ strip s @ NUL # r'" "length b = length (s @ NUL # r)"
      using trim_whitespace_strip [OF assms c, of "s @ NUL # r" "[]" r] by (metis append_Nil add_0 list.size(3))
    have "cstr (drop (length (takeWhile isblank s)) b) = strip s" using b(2) ns by simp
    with b show ?thesis by blast
  qed
  show ?thesis
    using assms trim_whitespace_blank [of s "s @ NUL # r" "[]" r]
      trim_whitespace_underflow [of s r] v by auto
qed

theorem trim_whitespace_spec_witness:
  "trim_whitespace [CR, NUL] 0 = None"
  using trim_whitespace_spec [of "[CR]" "[]"] by (simp add: isblank_def isspace_def nul_free_def)

text \<open>\<open>find_basename\<close> gives the part after the last separator: the path is a prefix that is empty
  or ends in a separator, followed by the base name, which has none.\<close>

lemma find_basename_spec:
  "\<exists>d. path = d @ find_basename path \<and> SLASH \<notin> set (find_basename path) \<and> (d = [] \<or> last d = SLASH)"
proof -
  let ?t = "takeWhile (\<lambda>c. c \<noteq> SLASH) (rev path)" and ?u = "dropWhile (\<lambda>c. c \<noteq> SLASH) (rev path)"
  have "path = rev ?u @ rev ?t"
    by (metis rev_append rev_rev_ident takeWhile_dropWhile_id)
  moreover have "rev ?u = [] \<or> last (rev ?u) = SLASH"
    by (cases ?u) (auto simp: last_rev dest: hd_dropWhile [of _ "rev path", simplified] dropWhile_eq_Cons_conv [THEN iffD1])
  ultimately show ?thesis
    using find_basename_no_slash [of path] unfolding find_basename_eq by blast
qed

end
