(* ===== verification/Ftp_Numbers.thy ===== *)
theory Ftp_Numbers
  imports Ftp_Prelude
begin

text \<open>
  \<open>strtol\<close> and \<open>strtoll\<close> of the C library, as the configuration parser (base 0) and the \<open>REST\<close>
  command (base 10) use them on the 64-bit target, where both return 64 bits: the value, the
  unparsed rest, and whether the value was out of range.
\<close>

definition digit_val :: "char \<Rightarrow> nat option" where
  "digit_val c = (let n = byte_of c in
     if 48 \<le> n \<and> n \<le> 57 then Some (n - 48)
     else if 97 \<le> n \<and> n \<le> 122 then Some (n - 87)
     else if 65 \<le> n \<and> n \<le> 90 then Some (n - 55)
     else None)"

definition is_digit :: "nat \<Rightarrow> char \<Rightarrow> bool" where
  "is_digit base c = (case digit_val c of Some d \<Rightarrow> d < base | None \<Rightarrow> False)"

fun digits :: "nat \<Rightarrow> int \<Rightarrow> string \<Rightarrow> int \<times> string" where
  "digits base acc [] = (acc, [])"
| "digits base acc (c # cs) = (case digit_val c of
     Some d \<Rightarrow> if d < base then digits base (acc * int base + int d) cs else (acc, c # cs)
   | None \<Rightarrow> (acc, c # cs))"

definition starts_digit :: "nat \<Rightarrow> string \<Rightarrow> bool" where
  "starts_digit base s = (case s of [] \<Rightarrow> False | c # _ \<Rightarrow> is_digit base c)"

definition strip_sign :: "string \<Rightarrow> bool \<times> string" where
  "strip_sign s = (case s of [] \<Rightarrow> (False, [])
     | c # r \<Rightarrow> if c = CHR ''-'' then (True, r) else if c = CHR ''+'' then (False, r)
               else (False, c # r))"

definition hex_prefix :: "string \<Rightarrow> bool" where
  "hex_prefix s = (length s > 2 \<and> s ! 0 = CHR ''0'' \<and> tolower (s ! 1) = CHR ''x''
     \<and> is_digit 16 (s ! 2))"

definition strip_base :: "nat \<Rightarrow> string \<Rightarrow> nat \<times> string" where
  "strip_base base s =
     (if (base = 0 \<or> base = 16) \<and> hex_prefix s then (16, drop 2 s)
      else if base = 0 then (if s \<noteq> [] \<and> s ! 0 = CHR ''0'' then 8 else 10, s)
      else (base, s))"

text \<open>The exact value and the unparsed rest; the whole argument when there is no number.\<close>

definition strtol_exact :: "nat \<Rightarrow> string \<Rightarrow> int \<times> string" where
  "strtol_exact base s =
     (let (neg, s2) = strip_sign (dropWhile isspace s);
          (b, s3) = strip_base base s2
      in if starts_digit b s3
         then (let (v, rest) = digits b 0 s3 in (if neg then - v else v, rest))
         else (0, s))"

definition strtoll :: "nat \<Rightarrow> string \<Rightarrow> int \<times> string \<times> bool" where
  "strtoll base s =
     (let (v, rest) = strtol_exact base s
      in if v < LLONG_MIN then (LLONG_MIN, rest, True)
         else if v > LLONG_MAX then (LLONG_MAX, rest, True)
         else (v, rest, False))"

lemma strtoll_range: "strtoll base s = (v, rest, e) \<Longrightarrow> LLONG_MIN \<le> v \<and> v \<le> LLONG_MAX"
  by (auto simp: strtoll_def LLONG_MIN_def LLONG_MAX_def split: prod.splits if_splits)

subsection \<open>Numbers the program prints are the numbers it reads\<close>

lemma digit_val_digit_char: "d < 10 \<Longrightarrow> digit_val (digit_char d) = Some d"
proof -
  assume "d < 10"
  then have "d \<in> {0,1,2,3,4,5,6,7,8,9}" by simp arith
  then show ?thesis by (auto simp: digit_char_def digit_val_def byte_of_def Let_def)
qed

lemma digits_dec:
  assumes "\<not> starts_digit 10 r"
  shows "digits 10 acc (dec n @ r) = (acc * 10 ^ length (dec n) + int n, r)"
proof -
  have base: "digits 10 a r = (a, r)" for a
    using assms by (cases r) (auto simp: starts_digit_def is_digit_def split: option.splits)
  have "digits 10 acc (dec n @ s) = digits 10 (acc * 10 ^ length (dec n) + int n) s" for s
  proof (induction n arbitrary: s rule: dec.induct)
    case (1 n)
    show ?case
    proof (cases "n < 10")
      case True
      then show ?thesis by (simp add: dec.simps [of n] digit_val_digit_char)
    next
      case False
      have m: "n mod 10 < 10" by simp
      have "int (10 * (n div 10) + n mod 10) = int n" by (simp only: mult_div_mod_eq)
      then have "int n = 10 * int (n div 10) + int (n mod 10)"
        by (metis of_nat_add of_nat_mult of_nat_numeral)
      with False "1.IH" show ?thesis
        by (simp add: dec.simps [of n] digit_val_digit_char [OF m] algebra_simps)
    qed
  qed
  with base show ?thesis by simp
qed

lemma dec_Cons: "\<exists>c r. dec n = c # r \<and> c \<in> set ''0123456789'' \<and> (c = CHR ''0'' \<longrightarrow> n = 0)"
proof (induction n rule: dec.induct)
  case (1 n)
  show ?case
  proof (cases "n < 10")
    case True
    then have "n \<in> {0,1,2,3,4,5,6,7,8,9}" by simp arith
    then show ?thesis by (auto simp: dec.simps [of n] digit_char_def)
  next
    case False
    then obtain c r where "dec (n div 10) = c # r" "c \<in> set ''0123456789''"
      "c = CHR ''0'' \<longrightarrow> n div 10 = 0" using 1 by blast
    moreover have "n div 10 \<noteq> 0" using False by simp
    ultimately show ?thesis using False by (auto simp: dec.simps [of n])
  qed
qed

lemma strtol_exact_dec:
  assumes "\<not> starts_digit 10 r" and "base = 10 \<or> (base = 0 \<and> n \<noteq> 0)"
  shows "strtol_exact base (dec n @ r) = (int n, r)"
proof -
  obtain c s where c: "dec n = c # s" "c \<in> set ''0123456789''" "c = CHR ''0'' \<longrightarrow> n = 0"
    using dec_Cons by blast
  have dw: "dropWhile isspace (dec n @ r) = dec n @ r"
    using c by (auto simp: isspace_def)
  have sg: "strip_sign (dec n @ r) = (False, dec n @ r)"
    using c by (auto simp: strip_sign_def)
  have sb: "strip_base base (dec n @ r) = (10, dec n @ r)"
    using c assms(2) by (auto simp: strip_base_def hex_prefix_def)
  have "starts_digit 10 (dec n @ r)"
    using c by (auto simp: starts_digit_def is_digit_def digit_val_def byte_of_def Let_def)
  with dw sg sb digits_dec [OF assms(1), of 0 n] show ?thesis
    by (simp add: strtol_exact_def)
qed

lemma strtol_exact_zero: "strtol_exact 0 ''0'' = (0, [])"
  by (simp add: strtol_exact_def strip_sign_def strip_base_def hex_prefix_def starts_digit_def
      is_digit_def digit_val_def byte_of_def isspace_def)

lemma strtol_exact_fmt_d: "strtol_exact 0 (fmt_d i) = (i, [])"
proof (cases "i = 0")
  case True
  then show ?thesis by (simp add: fmt_d_def dec.simps digit_char_def strtol_exact_zero)
next
  case nz: False
  have nd: "\<not> starts_digit 10 []" by (simp add: starts_digit_def)
  show ?thesis
  proof (cases "i < 0")
    case False
    then show ?thesis using strtol_exact_dec [OF nd, of 0 "nat i"] nz by (simp add: fmt_d_def)
  next
    case True
    obtain c s where c: "dec (nat (- i)) = c # s" "c \<in> set ''0123456789''" "c \<noteq> CHR ''0''"
      using dec_Cons [of "nat (- i)"] True by auto
    have sb: "strip_base 0 (dec (nat (- i))) = (10, dec (nat (- i)))"
      using c by (auto simp: strip_base_def hex_prefix_def)
    have sd: "starts_digit 10 (dec (nat (- i)))"
      using c by (auto simp: starts_digit_def is_digit_def digit_val_def byte_of_def Let_def)
    show ?thesis
      using digits_dec [OF nd, of 0 "nat (- i)"] sb sd True
      by (simp add: strtol_exact_def fmt_d_def isspace_def strip_sign_def)
  qed
qed

end
