(* ===== verification/Ftp_Config.thy ===== *)
theory Ftp_Config
  imports Ftp_Util Ftp_Numbers
begin

text \<open>
  \<open>config.c\<close> and \<open>config.h\<close>: the configuration record, its defaults, the option table, the parser
  of \<open>Option = Value\<close> lines, the loop over the mapped file, and the final checks.

  The mapped file is a byte list that may be longer than the file (the tail of its last page, which
  reads as zero bytes); reading past it is undefined. Whether an allocation of a given size succeeds
  is the parameter \<open>mem\<close>. Log output is left out.
\<close>

subsection \<open>Return codes and the configuration\<close>

abbreviation FTP_ERROR :: int where "FTP_ERROR \<equiv> -1"
abbreviation FTP_SUCCESS :: int where "FTP_SUCCESS \<equiv> 0"
abbreviation FTP_QUIT :: int where "FTP_QUIT \<equiv> 1"
abbreviation FTP_FAIL :: int where "FTP_FAIL \<equiv> 2"
abbreviation FTP_ABOR :: int where "FTP_ABOR \<equiv> 3"

datatype parse_error =
    FTP_PARSER_SUCCESS | FTP_PARSER_MISSING_ARGUMENT | FTP_PARSER_UNKNOWN_OPTION
  | FTP_PARSER_RANGE | FTP_PARSER_NAN | FTP_PARSER_NOMEM

record ftp_config =
  cfg_port :: int
  cfg_ctrl_port :: int
  cfg_max_clients :: int
  cfg_throttle_rate :: int
  cfg_pasv_port_start :: int
  cfg_pasv_port_end :: int
  cfg_idle_timeout :: int
  cfg_debug :: bool
  cfg_allow_anon :: bool
  cfg_allow_links :: bool
  cfg_log_to_file :: bool
  cfg_syslog :: bool
  cfg_anon_root_dir :: "string option"
  cfg_servername :: "string option"
  cfg_logfile :: "string option"

definition load_defaults :: "ftp_config \<Rightarrow> ftp_config" where
  "load_defaults c = c\<lparr>
     cfg_port := 8008, cfg_ctrl_port := 7676, cfg_max_clients := -1, cfg_throttle_rate := -1,
     cfg_pasv_port_start := 1025, cfg_pasv_port_end := 65535, cfg_idle_timeout := 4000,
     cfg_debug := False, cfg_allow_links := False, cfg_syslog := False, cfg_allow_anon := True,
     cfg_anon_root_dir := None, cfg_servername := None \<rparr>"

text \<open>The C global before \<open>main\<close> runs: all zero.\<close>

definition zero_config :: ftp_config where
  "zero_config = \<lparr> cfg_port = 0, cfg_ctrl_port = 0, cfg_max_clients = 0, cfg_throttle_rate = 0,
     cfg_pasv_port_start = 0, cfg_pasv_port_end = 0, cfg_idle_timeout = 0, cfg_debug = False,
     cfg_allow_anon = False, cfg_allow_links = False, cfg_log_to_file = False, cfg_syslog = False,
     cfg_anon_root_dir = None, cfg_servername = None, cfg_logfile = None \<rparr>"

subsection \<open>The option table\<close>

text \<open>
  A table entry pairs a name with a typed destination: the type tag and the \<open>void *\<close> of the
  source in one constructor, the destination as the update of its field.
\<close>

datatype cfg_variable =
    TYPE_STR "string option \<Rightarrow> ftp_config \<Rightarrow> ftp_config"
  | TYPE_INT "int \<Rightarrow> ftp_config \<Rightarrow> ftp_config"
  | TYPE_BOOL "bool \<Rightarrow> ftp_config \<Rightarrow> ftp_config"

definition core_config_table :: "(string \<times> cfg_variable) list" where
  "core_config_table = [
     (''AllowAnonymous'', TYPE_BOOL (\<lambda>v c. c\<lparr>cfg_allow_anon := v\<rparr>)),
     (''AllowSymlinks'', TYPE_BOOL (\<lambda>v c. c\<lparr>cfg_allow_links := v\<rparr>)),
     (''AnonRootDir'', TYPE_STR (\<lambda>v c. c\<lparr>cfg_anon_root_dir := v\<rparr>)),
     (''IdleTimeout'', TYPE_INT (\<lambda>v c. c\<lparr>cfg_idle_timeout := v\<rparr>)),
     (''LocalPort'', TYPE_INT (\<lambda>v c. c\<lparr>cfg_port := v\<rparr>)),
     (''LogFile'', TYPE_STR (\<lambda>v c. c\<lparr>cfg_logfile := v\<rparr>)),
     (''LogToFile'', TYPE_BOOL (\<lambda>v c. c\<lparr>cfg_log_to_file := v\<rparr>)),
     (''LogToSyslog'', TYPE_BOOL (\<lambda>v c. c\<lparr>cfg_syslog := v\<rparr>)),
     (''MaxClients'', TYPE_INT (\<lambda>v c. c\<lparr>cfg_max_clients := v\<rparr>)),
     (''PasvPortEnd'', TYPE_INT (\<lambda>v c. c\<lparr>cfg_pasv_port_end := v\<rparr>)),
     (''PasvPortStart'', TYPE_INT (\<lambda>v c. c\<lparr>cfg_pasv_port_start := v\<rparr>)),
     (''ServerName'', TYPE_STR (\<lambda>v c. c\<lparr>cfg_servername := v\<rparr>)),
     (''TransferRate'', TYPE_INT (\<lambda>v c. c\<lparr>cfg_throttle_rate := v\<rparr>)) ]"

text \<open>\<open>while( option->name && strcasecmp( option->name, line ) ) option++\<close>.\<close>

fun scan_options :: "string \<Rightarrow> (string \<times> cfg_variable) list \<Rightarrow> (string \<times> cfg_variable) option" where
  "scan_options line [] = None"
| "scan_options line (opt # opts) =
     (if strcasecmp (fst opt) line \<noteq> 0 then scan_options line opts else Some opt)"

definition find_option :: "string \<Rightarrow> (string \<times> cfg_variable) option" where
  "find_option line = scan_options line core_config_table"

lemma scan_options_Some:
  "scan_options line opts = Some e \<Longrightarrow> e \<in> set opts \<and> casekey (fst e) = casekey line"
  by (induction opts) (auto simp: strcasecmp_zero_iff split: if_splits)

lemma scan_options_None:
  "scan_options line opts = None \<Longrightarrow> e \<in> set opts \<Longrightarrow> casekey (fst e) \<noteq> casekey line"
  by (induction opts) (auto simp: strcasecmp_zero_iff split: if_splits)

lemma config_keys_distinct: "distinct (map (\<lambda>e. casekey (fst e)) core_config_table)"
  by (simp add: core_config_table_def casekey_def tolower_def byte_of_def)

interpretation options: searched_table find_option core_config_table
  "\<lambda>line e. casekey (fst e) = casekey line"
proof unfold_locales
  fix line e e'
  show "find_option line = Some e
      \<Longrightarrow> e \<in> set core_config_table \<and> casekey (fst e) = casekey line"
    by (simp add: find_option_def scan_options_Some)
  show "find_option line = None \<Longrightarrow> e \<in> set core_config_table
      \<Longrightarrow> casekey (fst e) \<noteq> casekey line"
    by (simp add: find_option_def scan_options_None)
  assume "e \<in> set core_config_table" "e' \<in> set core_config_table"
    "casekey (fst e) = casekey line" "casekey (fst e') = casekey line"
  then show "e = e'"
    using config_keys_distinct by (simp add: distinct_map inj_on_def)
qed

subsection \<open>Values\<close>

definition parse_attribute_int ::
  "string \<Rightarrow> (int \<Rightarrow> ftp_config \<Rightarrow> ftp_config) \<Rightarrow> ftp_config \<Rightarrow> parse_error \<times> ftp_config" where
  "parse_attribute_int argument dest c =
     (let (value, inval, erange) = strtoll 0 argument
      in if erange \<or> value < INT_MIN \<or> value > INT_MAX then (FTP_PARSER_RANGE, c)
         else if inval \<noteq> [] then (FTP_PARSER_NAN, c)
         else (FTP_PARSER_SUCCESS, dest value c))"

definition parse_attribute_bool ::
  "string \<Rightarrow> (bool \<Rightarrow> ftp_config \<Rightarrow> ftp_config) \<Rightarrow> ftp_config \<Rightarrow> parse_error \<times> ftp_config" where
  "parse_attribute_bool argument dest c =
     (let ch = (case argument of [] \<Rightarrow> NUL | a # _ \<Rightarrow> a);
          value = (ch = CHR ''1'' \<or> tolower ch = CHR ''y'' \<or> tolower ch = CHR ''t'')
      in (FTP_PARSER_SUCCESS, dest value c))"

text \<open>
  The old string is freed first; when \<open>strdup\<close> fails the destination keeps the freed pointer,
  modelled by leaving the field at \<open>None\<close> together with the error, on which the program ends.
\<close>

definition parse_attribute_string ::
  "(nat \<Rightarrow> bool) \<Rightarrow> buf \<Rightarrow> nat \<Rightarrow> (string option \<Rightarrow> ftp_config \<Rightarrow> ftp_config) \<Rightarrow> ftp_config
   \<Rightarrow> (parse_error \<times> ftp_config) option" where
  "parse_attribute_string mem b argument dest c = do {
     (argument, b) \<leftarrow> trim_whitespace b argument;
     let s = cstr (drop argument b);
     if \<not> mem (length s + 1) then Some (FTP_PARSER_NOMEM, dest None c)
     else Some (FTP_PARSER_SUCCESS, dest (Some s) c) }"

text \<open>\<open>strchr(b + p, ch)\<close> on a terminated string.\<close>

definition strchr_at :: "buf \<Rightarrow> nat \<Rightarrow> char \<Rightarrow> nat option" where
  "strchr_at b p ch = (let s = cstr (drop p b) in
     if ch \<in> set s then Some (p + length (takeWhile (\<lambda>c. c \<noteq> ch) s)) else None)"

definition parse_attribute ::
  "(nat \<Rightarrow> bool) \<Rightarrow> buf \<Rightarrow> ftp_config \<Rightarrow> (parse_error \<times> ftp_config) option" where
  "parse_attribute mem b c = do {
     (line, b) \<leftarrow> trim_whitespace b 0;
     ch \<leftarrow> rd b line;
     if ch = NUL then Some (FTP_PARSER_SUCCESS, c)
     else (case strchr_at b line (CHR ''='') of
         None \<Rightarrow> Some (FTP_PARSER_MISSING_ARGUMENT, c)
       | Some eq \<Rightarrow> do {
           b \<leftarrow> wr b eq NUL;
           argument \<leftarrow> skip_blank b (eq + 1);
           ch \<leftarrow> rd b argument;
           if ch = NUL then Some (FTP_PARSER_MISSING_ARGUMENT, c)
           else do {
             (line, b) \<leftarrow> trim_whitespace b line;
             (case find_option (cstr (drop line b)) of
                None \<Rightarrow> Some (FTP_PARSER_UNKNOWN_OPTION, c)
              | Some (_, TYPE_INT dest) \<Rightarrow>
                  Some (parse_attribute_int (cstr (drop argument b)) dest c)
              | Some (_, TYPE_BOOL dest) \<Rightarrow>
                  Some (parse_attribute_bool (cstr (drop argument b)) dest c)
              | Some (_, TYPE_STR dest) \<Rightarrow> parse_attribute_string mem b argument dest c) } }) }"

definition ftp_parse_strerror :: "parse_error \<Rightarrow> string" where
  "ftp_parse_strerror err = (case err of
       FTP_PARSER_SUCCESS \<Rightarrow> ''Success''
     | FTP_PARSER_MISSING_ARGUMENT \<Rightarrow> ''Missing argument''
     | FTP_PARSER_UNKNOWN_OPTION \<Rightarrow> ''Unknown option''
     | FTP_PARSER_RANGE \<Rightarrow> ''Out of range''
     | FTP_PARSER_NAN \<Rightarrow> ''Not a number''
     | FTP_PARSER_NOMEM \<Rightarrow> ''Out of memory'')"

subsection \<open>The loop over the file\<close>

text \<open>\<open>while( end < buf+length && *end != '\n' ) end++\<close>.\<close>

function find_eol :: "buf \<Rightarrow> nat \<Rightarrow> nat \<Rightarrow> nat" where
  "find_eol m len e = (if e < len \<and> m ! e \<noteq> LF then find_eol m len (Suc e) else e)"
  by pat_completeness auto
termination
  by (relation "measure (\<lambda>(m, len, e). len - e)") auto

declare find_eol.simps [simp del]

lemma find_eol_ge: "e \<le> find_eol m len e"
proof (induction m len e rule: find_eol.induct)
  case (1 m len e)
  then show ?case by (subst find_eol.simps) auto
qed

lemma find_eol_in: "find_eol m len e \<noteq> e \<Longrightarrow> e < len"
  by (subst (asm) find_eol.simps) (auto split: if_splits)

text \<open>
  The state of the loop: \<open>start\<close> of the previous line, the position \<open>next\<close> that \<open>++end\<close> will
  reach, the size \<open>tmplen\<close> of the line buffer, and the configuration. The result is the return
  code and the configuration, which keeps what earlier lines have set.
\<close>

function parse_config_loop ::
  "(nat \<Rightarrow> bool) \<Rightarrow> buf \<Rightarrow> nat \<Rightarrow> nat \<Rightarrow> nat \<Rightarrow> nat \<Rightarrow> ftp_config \<Rightarrow> (int \<times> ftp_config) option" where
  "parse_config_loop mem m len start nxt tmplen c =
     (if \<not> start < len then Some (FTP_SUCCESS, c)
      else if \<not> nxt < length m then None
      else (let start = nxt;
                comment = (m ! start = CHR ''#'');
                e = find_eol m len start
            in if e = start \<or> comment then parse_config_loop mem m len start (e + 1) tmplen c
               else (let linelen = e - start
                     in if tmplen \<le> linelen \<and> \<not> mem (linelen + 1) then Some (FTP_ERROR, c)
                        else (case parse_attribute mem (take linelen (drop start m) @ [NUL]) c of
                            None \<Rightarrow> None
                          | Some (ret, c) \<Rightarrow>
                              if ret \<noteq> FTP_PARSER_SUCCESS then Some (FTP_ERROR, c)
                              else parse_config_loop mem m len start (e + 1)
                                     (if tmplen \<le> linelen then linelen + 1 else tmplen) c))))"
  by pat_completeness auto
termination
proof (relation "measure (\<lambda>(mem, m, len, start, nxt, tmplen, c).
    (len - nxt) + (if start < len then 1 else 0))", goal_cases)
  case 1
  then show ?case by simp
next
  case (2 mem m len start nxt tmplen c s comment e)
  then show ?case using find_eol_ge [of nxt m len] by auto
next
  case (3 mem m len start nxt tmplen c s comment e linelen x ret c')
  then show ?case using find_eol_ge [of nxt m len] by auto
qed

declare parse_config_loop.simps [simp del]

definition parse_config ::
  "(nat \<Rightarrow> bool) \<Rightarrow> buf \<Rightarrow> nat \<Rightarrow> ftp_config \<Rightarrow> (int \<times> ftp_config) option" where
  "parse_config mem m len c =
     (if \<not> mem 81 then Some (FTP_ERROR, c) else parse_config_loop mem m len 0 0 81 c)"

subsection \<open>Checks, loading and unloading\<close>

definition check_config :: "ftp_config \<Rightarrow> int" where
  "check_config c =
     (if cfg_port c < 0 \<or> cfg_port c > 65535 then FTP_ERROR
      else if cfg_ctrl_port c < 0 \<or> cfg_ctrl_port c > 65535 then FTP_ERROR
      else if cfg_throttle_rate c < -1 then FTP_ERROR
      else if cfg_pasv_port_start c < 0 \<or> cfg_pasv_port_start c > 65535
            \<or> cfg_pasv_port_end c < 0 \<or> cfg_pasv_port_end c > 65535
            \<or> cfg_pasv_port_start c > cfg_pasv_port_end c then FTP_ERROR
      else if cfg_allow_anon c \<and> cfg_anon_root_dir c = None then FTP_ERROR
      else FTP_SUCCESS)"

text \<open>
  What the system calls on the configuration file return: whether it opens, the kind and size of
  the file, and the mapping (the file's bytes and the rest of the last page).
\<close>

record config_file =
  cf_open :: bool
  cf_stat :: "(bool \<times> nat) option"
  cf_mmap :: "buf option"

definition load_config ::
  "(nat \<Rightarrow> bool) \<Rightarrow> config_file \<Rightarrow> ftp_config \<Rightarrow> (int \<times> ftp_config) option" where
  "load_config mem file c =
     (if \<not> cf_open file then Some (FTP_ERROR, c)
      else (case cf_stat file of
          None \<Rightarrow> Some (FTP_ERROR, c)
        | Some (isreg, len) \<Rightarrow>
            if \<not> isreg then Some (FTP_ERROR, c)
            else if len = 0 then Some (FTP_SUCCESS, c)
            else (case cf_mmap file of
                None \<Rightarrow> Some (FTP_ERROR, c)
              | Some m \<Rightarrow> do {
                  (ret, c) \<leftarrow> parse_config mem m len c;
                  Some (if ret = FTP_SUCCESS then check_config c else ret, c) })))"

text \<open>\<open>unload_config\<close> walks the table and clears the string options.\<close>

fun unload_options :: "(string \<times> cfg_variable) list \<Rightarrow> ftp_config \<Rightarrow> ftp_config" where
  "unload_options [] c = c"
| "unload_options ((_, TYPE_STR dest) # opts) c = unload_options opts (dest None c)"
| "unload_options (_ # opts) c = unload_options opts c"

definition unload_config :: "ftp_config \<Rightarrow> int \<times> ftp_config" where
  "unload_config c = (FTP_SUCCESS, unload_options core_config_table c)"

subsection \<open>What an accepted configuration guarantees\<close>

definition config_ok :: "ftp_config \<Rightarrow> bool" where
  "config_ok c \<longleftrightarrow> 0 \<le> cfg_port c \<and> cfg_port c \<le> 65535
     \<and> 0 \<le> cfg_pasv_port_start c \<and> cfg_pasv_port_start c \<le> cfg_pasv_port_end c
     \<and> cfg_pasv_port_end c \<le> 65535 \<and> -1 \<le> cfg_throttle_rate c
     \<and> (cfg_allow_anon c \<longrightarrow> cfg_anon_root_dir c \<noteq> None)"

lemma check_config_ok: "check_config c = FTP_SUCCESS \<Longrightarrow> config_ok c"
  by (auto simp: check_config_def config_ok_def split: if_splits)

lemma check_config_iff:
  "check_config c = FTP_SUCCESS \<longleftrightarrow> config_ok c \<and> 0 \<le> cfg_ctrl_port c \<and> cfg_ctrl_port c \<le> 65535"
  by (auto simp: check_config_def config_ok_def)

lemma load_config_ok:
  assumes "load_config mem file c = Some (FTP_SUCCESS, c')" and "cf_stat file = Some (r, n)" "n \<noteq> 0"
  shows "config_ok c'"
  using assms by (auto simp: load_config_def bind_eq_Some_conv dest!: check_config_ok
      split: option.splits if_splits)

subsection \<open>The loop is the fold over the lines\<close>

text \<open>The reading of a file as lines: comments and empty lines are skipped, the others parsed.\<close>

fun parse_lines :: "(nat \<Rightarrow> bool) \<Rightarrow> string list \<Rightarrow> ftp_config \<Rightarrow> (int \<times> ftp_config) option" where
  "parse_lines mem [] c = Some (FTP_SUCCESS, c)"
| "parse_lines mem (l # ls) c =
     (if l = [] \<or> hd l = CHR ''#'' then parse_lines mem ls c
      else do {
        (ret, c) \<leftarrow> parse_attribute mem (l @ [NUL]) c;
        if ret \<noteq> FTP_PARSER_SUCCESS then Some (FTP_ERROR, c) else parse_lines mem ls c })"

definition unlines :: "string list \<Rightarrow> string" where
  "unlines ls = concat (map (\<lambda>l. l @ [LF]) ls)"

lemma unlines_simps [simp]: "unlines [] = []" "unlines (l # ls) = l @ LF # unlines ls"
  by (simp_all add: unlines_def)

lemma find_eol_line:
  assumes "LF \<notin> set l" and "m = pre @ l @ LF # post" and "length pre + length l < len"
  shows "find_eol m len (length pre) = length pre + length l"
  using assms
proof (induction l arbitrary: pre)
  case Nil
  then show ?case by (subst find_eol.simps) simp
next
  case (Cons x l)
  have "find_eol m len (length (pre @ [x])) = length (pre @ [x]) + length l"
    by (rule Cons.IH) (use Cons.prems in auto)
  moreover have "m ! length pre = x" "length pre < len" "x \<noteq> LF" using Cons.prems by auto
  ultimately show ?case by (subst find_eol.simps) simp
qed

lemma parse_config_loop_lines:
  assumes mem: "\<And>n. mem n" and nl: "\<forall>l \<in> set ls. LF \<notin> set l"
    and fl: "m = pre @ unlines ls @ x # post" "len = length (pre @ unlines ls)"
    and start: "start < len" and tl: "0 < tmplen"
  shows "parse_config_loop mem m len start (length pre) tmplen c = parse_lines mem ls c"
  using nl fl start tl
proof (induction ls arbitrary: pre start tmplen c)
  case Nil
  have e: "find_eol m len (length pre) = length pre"
    using Nil.prems by (subst find_eol.simps) simp
  have "parse_config_loop mem m len start (length pre) tmplen c
      = parse_config_loop mem m len (length pre) (length pre + 1) tmplen c"
    using Nil.prems e by (subst parse_config_loop.simps) (simp add: Let_def)
  also have "\<dots> = Some (FTP_SUCCESS, c)"
    using Nil.prems by (subst parse_config_loop.simps) simp
  finally show ?case by simp
next
  case (Cons l ls)
  let ?pre = "pre @ l @ [LF]"
  have e: "find_eol m len (length pre) = length pre + length l"
    by (rule find_eol_line) (use Cons.prems in auto)
  have inmap: "length pre < length m" "length pre < len" using Cons.prems by auto
  have next_eq: "parse_config_loop mem m len (length pre) (length pre + length l + 1) tl c'
      = parse_lines mem ls c'" if "0 < tl" for tl c'
    using Cons.IH [of ?pre "length pre" tl c'] Cons.prems that inmap by simp
  have line: "take (length l) (drop (length pre) m) = l" using Cons.prems by simp
  show ?case
  proof (cases "l = [] \<or> hd l = CHR ''#''")
    case True
    then have "length pre + length l = length pre \<or> m ! length pre = CHR ''#''"
      using Cons.prems by (cases l) (auto simp: nth_append)
    then have "parse_config_loop mem m len start (length pre) tmplen c
      = parse_config_loop mem m len (length pre) (length pre + length l + 1) tmplen c"
      using Cons.prems(4) inmap e by (subst parse_config_loop.simps) (auto simp: Let_def)
    then show ?thesis using True next_eq Cons.prems(5) by simp
  next
    case False
    then have nc: "length pre + length l \<noteq> length pre" "m ! length pre \<noteq> CHR ''#''"
      using Cons.prems by (cases l; auto simp: nth_append)+
    show ?thesis
      using Cons.prems(4,5) inmap e nc mem line next_eq False
      by (subst parse_config_loop.simps) (auto simp: Let_def split: option.splits)
  qed
qed

lemma parse_config_lines:
  assumes "\<And>n. mem n" and "\<forall>l \<in> set ls. LF \<notin> set l" and "ls \<noteq> []"
  shows "parse_config mem (unlines ls @ x # post) (length (unlines ls)) c = parse_lines mem ls c"
proof -
  have "0 < length (unlines ls)" using assms(3) by (cases ls) auto
  then show ?thesis
    using parse_config_loop_lines [of mem ls "unlines ls @ x # post" "[]" x post "length (unlines ls)" 0 81 c]
      assms by (simp add: parse_config_def)
qed

text \<open>
  A file without an error whose last line ends exactly at the end of its mapping makes the loop read
  past the mapping.
\<close>

lemma parse_config_loop_overrun:
  assumes mem: "\<And>n. mem n" and nl: "\<forall>l \<in> set ls. LF \<notin> set l"
    and fl: "m = pre @ unlines ls" "len = length m"
    and start: "start < len" and ok: "parse_lines mem ls c = Some (FTP_SUCCESS, c')"
  shows "parse_config_loop mem m len start (length pre) tmplen c = None"
  using nl fl start ok
proof (induction ls arbitrary: pre start tmplen c)
  case Nil
  then show ?case by (subst parse_config_loop.simps) simp
next
  case (Cons l ls)
  have e: "find_eol m len (length pre) = length pre + length l"
    by (rule find_eol_line) (use Cons.prems in auto)
  have inm: "length pre < length m" "length pre < len" using Cons.prems by auto
  have next_eq: "parse_config_loop mem m len (length pre) (length pre + length l + 1) tl c1 = None"
    if "parse_lines mem ls c1 = Some (FTP_SUCCESS, c')" for tl c1
    using Cons.IH [of "pre @ l @ [LF]" "length pre" c1 tl] Cons.prems that inm by simp
  have line: "take (length l) (drop (length pre) m) = l" using Cons.prems by simp
  show ?case
  proof (cases "l = [] \<or> hd l = CHR ''#''")
    case True
    then have "length pre + length l = length pre \<or> m ! length pre = CHR ''#''"
      using Cons.prems by (cases l) (auto simp: nth_append)
    then have "parse_config_loop mem m len start (length pre) tmplen c
      = parse_config_loop mem m len (length pre) (length pre + length l + 1) tmplen c"
      using Cons.prems(4) inm e by (subst parse_config_loop.simps) (auto simp: Let_def)
    then show ?thesis using True next_eq Cons.prems(5) by simp
  next
    case False
    then have nc: "length pre + length l \<noteq> length pre" "m ! length pre \<noteq> CHR ''#''"
      using Cons.prems by (cases l; auto simp: nth_append)+
    from False Cons.prems(5) obtain c1 where
      c1: "parse_attribute mem (l @ [NUL]) c = Some (FTP_PARSER_SUCCESS, c1)"
      "parse_lines mem ls c1 = Some (FTP_SUCCESS, c')"
      by (auto simp: bind_eq_Some_conv split: if_splits)
    then show ?thesis
      using Cons.prems(4) inm e nc mem line next_eq [OF c1(2)]
      by (subst parse_config_loop.simps) (auto simp: Let_def)
  qed
qed

lemma parse_config_overrun:
  assumes "\<And>n. mem n" and "\<forall>l \<in> set ls. LF \<notin> set l" and "ls \<noteq> []"
    and "parse_lines mem ls c = Some (FTP_SUCCESS, c')"
  shows "parse_config mem (unlines ls) (length (unlines ls)) c = None"
proof -
  have "0 < length (unlines ls)" using assms(3) by (cases ls) auto
  then show ?thesis
    using parse_config_loop_overrun [of mem ls "unlines ls" "[]" "length (unlines ls)" 0 c c' 81]
      assms by (simp add: parse_config_def)
qed

subsection \<open>One line\<close>

text \<open>
  A line \<open>name = value\<close>, with optional blanks around the sign: the effect is the parser of the
  option's type on the value.
\<close>

lemma trimmed_fmt_d: "trimmed (fmt_d i)"
proof -
  have d: "c \<in> set (dec n) \<Longrightarrow> \<not> isspace c" for c n
    using set_dec [of n] by (auto simp: isspace_def)
  have b: "\<not> isblank (hd (dec n))" "\<not> isspace (last (dec n))" for n
    using d [of "hd (dec n)" n] d [of "last (dec n)" n] isblank_isspace by auto
  have m: "\<not> isblank CHR ''-''" by (simp add: isblank_def)
  show ?thesis
    by (cases "i < 0") (simp_all add: trimmed_def fmt_d_def b m)
qed

lemma nul_free_fmt_d [simp]: "nul_free (fmt_d i)"
  by (simp add: fmt_d_def)

lemma parse_attribute_line:
  assumes k: "trimmed k" "CHR ''='' \<notin> set k" and v: "trimmed v"
    and w: "\<forall>c \<in> set w1. isblank c" "\<forall>c \<in> set w2. isblank c"
    and nf: "nul_free k" "nul_free v"
  shows "parse_attribute mem (k @ w1 @ [CHR ''=''] @ w2 @ v @ [NUL]) c = (case find_option k of
      None \<Rightarrow> Some (FTP_PARSER_UNKNOWN_OPTION, c)
    | Some (_, TYPE_INT dest) \<Rightarrow> Some (parse_attribute_int v dest c)
    | Some (_, TYPE_BOOL dest) \<Rightarrow> Some (parse_attribute_bool v dest c)
    | Some (_, TYPE_STR dest) \<Rightarrow>
        Some (if mem (length v + 1) then (FTP_PARSER_SUCCESS, dest (Some v) c)
              else (FTP_PARSER_NOMEM, dest None c)))"
proof -
  let ?l = "k @ w1 @ [CHR ''=''] @ w2 @ v" and ?b = "k @ w1 @ [CHR ''=''] @ w2 @ v @ [NUL]"
  have nfw: "nul_free w1" "nul_free w2"
    using w by (auto simp: nul_free_def)
  have tl: "trimmed ?l"
    using k v by (auto simp: trimmed_def hd_append)
  have s1: "trim_whitespace ?b 0 = Some (0, ?b)"
    using trim_whitespace_trimmed [OF tl, of "[]" ?b "[]" "[]"] nf nfw
    by (simp add: list_update_append)
  have kne: "k \<noteq> []" "k ! 0 \<noteq> NUL" using k(1) nf(1) by (cases k; auto simp: trimmed_def)+
  have r1: "rd ?b 0 = Some (k ! 0)" using kne by (simp add: rd_def nth_append)
  have "nul_free ?l" using nf nfw by simp
  then have ceq: "cstr ?b = ?l" using cstr_nul_free [of ?l "[]"] by (simp only: append_assoc)
  have "\<not> isblank (CHR ''='')" by (simp add: isblank_def)
  then have neq: "CHR ''='' \<notin> set w1" using w(1) by blast
  have tw: "takeWhile (\<lambda>c. c \<noteq> CHR ''='') ?l = k @ w1"
  proof -
    have "\<forall>c \<in> set (k @ w1). c \<noteq> CHR ''=''" using k(2) neq by auto
    then have "takeWhile (\<lambda>c. c \<noteq> CHR ''='') ((k @ w1) @ CHR ''='' # w2 @ v) = k @ w1"
      by (subst takeWhile_append2) auto
    then show ?thesis by simp
  qed
  have s2: "strchr_at ?b 0 (CHR ''='') = Some (length (k @ w1))"
    unfolding strchr_at_def drop_0 ceq tw Let_def by simp
  let ?b2 = "k @ w1 @ [NUL] @ w2 @ v @ [NUL]" and ?a = "length (k @ w1 @ [NUL] @ w2)"
  have s3: "wr ?b (length (k @ w1)) NUL = Some ?b2"
    using wr_append [of "k @ w1" "CHR ''=''" "w2 @ v @ [NUL]" NUL] by simp
  have vne: "v \<noteq> []" "\<not> isblank (hd v)" "hd v \<noteq> NUL" using v nf(2) by (cases v; auto simp: trimmed_def)+
  have s4: "skip_blank ?b2 (length (k @ w1) + 1) = Some ?a"
    using skip_blank_eq [of "length (k @ w1) + 1" "w2 @ v" ?b2] w(2) vne
    by (cases v) (auto simp: nth_append takeWhile_append)
  have r2: "rd ?b2 ?a = Some (hd v)" using vne by (cases v) (auto simp: rd_def nth_append)
  have s5: "trim_whitespace ?b2 0 = Some (0, ?b2[length k := NUL])"
    using trim_whitespace_trimmed [OF k(1), of w1 ?b2 "[]" "w2 @ v @ [NUL]"] w(1) nf nfw
      isblank_isspace by auto
  let ?b3 = "?b2[length k := NUL]"
  have c3: "cstr ?b3 = k"
    using nf(1) by (cases w1) (simp_all add: list_update_append)
  have d3: "drop ?a ?b3 = v @ [NUL]" by (simp add: drop_update_cancel)
  then have c4: "cstr (drop ?a ?b3) = v" using nf(2) by simp
  have b3: "?b3 = take ?a ?b3 @ (v @ []) @ NUL # []"
    using d3 by (metis append_Nil2 append_take_drop_id)
  have len: "length (take ?a ?b3) = ?a" by simp
  have s6: "trim_whitespace ?b3 ?a = Some (?a, ?b3[?a + length v := NUL])"
    using trim_whitespace_trimmed [OF v, of "[]" ?b3 "take ?a ?b3" "[]"] nf(2) b3 len
    by (metis (no_types, lifting) append_Nil2 emptyE empty_set)
  have c5: "cstr (drop ?a (?b3[?a + length v := NUL])) = v"
    using nf(2) by (simp add: drop_update_swap d3 list_update_append)
  show ?thesis
    unfolding parse_attribute_def s1 using r1 kne(2) s2 s3 s4 r2 vne(3) s5 c3 c4 s6 c5
    by (auto simp: parse_attribute_string_def Let_def split: option.splits cfg_variable.splits)
qed

subsection \<open>Properties\<close>

text \<open>C27. A line \<open>name = value\<close> of the configuration file that names an integer option sets exactly that
  option to the number printed, for every number that fits an \<open>int\<close>, whatever blanks surround the
  equals sign.\<close>

theorem config_int_roundtrip:
  assumes "find_option k = Some (n, TYPE_INT dest)" and "trimmed k" and "CHR ''='' \<notin> set k"
    and "nul_free k" and "\<forall>c \<in> set w1. isblank c" and "\<forall>c \<in> set w2. isblank c"
    and "INT_MIN \<le> i" and "i \<le> INT_MAX"
  shows "parse_attribute mem (k @ w1 @ ''='' @ w2 @ fmt_d i @ [NUL]) c
    = Some (FTP_PARSER_SUCCESS, dest i c)"
proof -
  have "parse_attribute_int (fmt_d i) dest c = (FTP_PARSER_SUCCESS, dest i c)"
    using assms(7,8) by (simp add: parse_attribute_int_def strtoll_def strtol_exact_fmt_d
        INT_MIN_def INT_MAX_def LLONG_MIN_def LLONG_MAX_def)
  then show ?thesis
    using parse_attribute_line [OF assms(2,3) trimmed_fmt_d assms(5,6,4) nul_free_fmt_d, of mem i c] assms(1)
    by simp
qed

theorem config_int_roundtrip_witness:
  "parse_attribute (\<lambda>_. True) (''maxclients'' @ '' '' @ ''='' @ '' '' @ fmt_d (-1) @ [NUL])
     zero_config = Some (FTP_PARSER_SUCCESS, zero_config\<lparr>cfg_max_clients := -1\<rparr>)"
  by (rule config_int_roundtrip [of _ "''MaxClients''"])
     (simp_all add: find_option_def core_config_table_def tolower_def byte_of_def trimmed_def
       isblank_def isspace_def nul_free_def INT_MIN_def INT_MAX_def)

text \<open>C25. \<open>parse_config\<close> over a file of complete lines reads each line once, in order, skipping empty
  lines and comments, and stops with an error at the first bad line.\<close>

theorem parse_config_is_fold:
  assumes "\<And>n. mem n" and "\<forall>l \<in> set ls. LF \<notin> set l" and "ls \<noteq> []"
  shows "parse_config mem (unlines ls @ x # post) (length (unlines ls)) c = parse_lines mem ls c"
  using parse_config_lines [OF assms] .

theorem parse_config_is_fold_witness:
  "parse_config (\<lambda>_. True) (unlines [''# note'', ''''] @ NUL # []) (length (unlines [''# note'', '''']))
     zero_config = Some (FTP_SUCCESS, zero_config)"
  by (subst parse_config_is_fold) simp_all

text \<open>C40. When the mapping ends with the file, a file whose lines are all good makes \<open>parse_config\<close> look
  at the byte after its end.\<close>

theorem parse_config_reads_past_end:
  assumes "\<And>n. mem n" and "\<forall>l \<in> set ls. LF \<notin> set l" and "ls \<noteq> []"
    and "parse_lines mem ls c = Some (FTP_SUCCESS, c')"
  shows "parse_config mem (unlines ls) (length (unlines ls)) c = None"
  using parse_config_overrun [OF assms] .

theorem parse_config_reads_past_end_witness:
  "parse_config (\<lambda>_. True) (unlines [''#'']) (length (unlines [''#''])) zero_config = None"
  by (rule parse_config_reads_past_end) simp_all



end
