(* ===== verification/Ftp_Clock.thy ===== *)
theory Ftp_Clock
  imports Ftp_Prelude
begin

text \<open>
  The clock and mode helpers of \<open>util.c\<close>: \<open>is_leap\<close>, \<open>convert_time\<close>, \<open>msecdiff\<close> and
  \<open>get_modechar\<close>. \<open>is_leap\<close> runs off its end without a value for years divisible by 400, which
  is undefined behaviour once the caller uses the value; \<open>convert_time\<close> keeps that path. The
  calendar the code computes is characterised exactly, and compared with the Gregorian one.
\<close>

subsection \<open>Time stamps\<close>

record timeval =
  tv_sec :: int
  tv_usec :: int

definition msecdiff :: "timeval \<Rightarrow> timeval \<Rightarrow> int" where
  "msecdiff t1 t2 =
     to_int32 ((tv_sec t1 - tv_sec t2) * 1000 + (tv_usec t1 - tv_usec t2) sdiv 1000)"

lemma msecdiff_same [simp]: "msecdiff t t = 0"
  by (simp add: msecdiff_def to_int32_def)

subsection \<open>The broken-down time\<close>

record tm =
  tm_hour :: int
  tm_min :: int
  tm_sec :: int
  tm_wday :: int
  tm_year :: int
  tm_yday :: int
  tm_mon :: int
  tm_mday :: int
  tm_isdst :: int

definition is_leap :: "int \<Rightarrow> bool option" where
  "is_leap year =
     (if year smod 400 \<noteq> 0 then Some True
      else if year smod 100 \<noteq> 0 then Some False
      else if year smod 4 \<noteq> 0 then Some True
      else None)"

definition days_in_month :: "int list" where
  "days_in_month = [31, 28, 31, 30, 31, 30, 31, 31, 30, 31, 30, 31]"

definition year_days :: "bool \<Rightarrow> int" where
  "year_days leap = (if leap then 366 else 365)"

function year_loop :: "int \<Rightarrow> int \<Rightarrow> (int \<times> int) option" where
  "year_loop days year = (case is_leap year of
       None \<Rightarrow> None
     | Some leap \<Rightarrow> if days \<ge> year_days leap then year_loop (days - year_days leap) (year + 1)
                    else Some (days, year))"
  by pat_completeness auto
termination
  by (relation "measure (\<lambda>(days, year). nat days)") (auto simp: year_days_def split: if_splits)

function month_loop :: "int \<Rightarrow> int \<Rightarrow> nat \<Rightarrow> (int \<times> nat) option" where
  "month_loop year days month =
     (if month \<ge> length days_in_month then None
      else do {
        i \<leftarrow> (if month = 1
             then do { leap \<leftarrow> is_leap year; Some (days_in_month ! month + (if leap then 1 else 0)) }
             else Some (days_in_month ! month));
        if days < i then Some (days, month) else month_loop year (days - i) (month + 1) })"
  by pat_completeness auto
termination
  by (relation "measure (\<lambda>(year, days, month). length days_in_month - month)") auto

declare year_loop.simps [simp del] month_loop.simps [simp del]

definition convert_time :: "int \<Rightarrow> tm option" where
  "convert_time time = do {
     let days = to_int32 (time sdiv 86400);
     (yday, year) \<leftarrow> year_loop days 1970;
     (mday, month) \<leftarrow> month_loop year yday 0;
     Some \<lparr> tm_hour = (time sdiv 3600) smod 24, tm_min = (time sdiv 60) smod 60,
            tm_sec = time smod 60, tm_wday = (days + 4) smod 7,
            tm_year = year - 1900, tm_yday = yday,
            tm_mon = int month, tm_mday = mday + 1, tm_isdst = 0 \<rparr> }"

subsection \<open>Which years count as leap years\<close>

lemma smod_nonneg: "0 \<le> (a::int) \<Longrightarrow> 0 < b \<Longrightarrow> a smod b = a mod b"
  by (cases "a = 0") (simp_all add: signed_modulo_int_def)

lemma sdiv_nonneg: "0 \<le> (a::int) \<Longrightarrow> 0 < b \<Longrightarrow> a sdiv b = a div b"
  by (cases "a = 0") (simp_all add: signed_divide_int_def)

lemma is_leap_not_400: "0 \<le> y \<Longrightarrow> \<not> 400 dvd y \<Longrightarrow> is_leap y = Some True"
  by (simp add: is_leap_def smod_nonneg dvd_eq_mod_eq_0)

lemma is_leap_400: "0 \<le> y \<Longrightarrow> 400 dvd y \<Longrightarrow> is_leap y = None"
proof -
  assume a: "0 \<le> y" "400 dvd y"
  then have "y mod 400 = 0" "y mod 100 = 0" "y mod 4 = 0" by (auto elim!: dvdE)
  with a(1) show ?thesis by (simp add: is_leap_def smod_nonneg)
qed

definition gregorian_leap :: "int \<Rightarrow> bool" where
  "gregorian_leap y \<longleftrightarrow> (4 dvd y \<and> \<not> 100 dvd y) \<or> 400 dvd y"

lemma is_leap_agrees_iff:
  assumes "0 \<le> y"
  shows "is_leap y = Some (gregorian_leap y) \<longleftrightarrow> 4 dvd y \<and> \<not> 100 dvd y"
proof (cases "400 dvd y")
  case True
  then have "100 dvd y" by (rule dvd_trans [rotated]) simp
  with True assms show ?thesis by (simp add: is_leap_400)
next
  case False
  with assms show ?thesis by (auto simp: is_leap_not_400 gregorian_leap_def)
qed

subsection \<open>The loops of \<open>convert_time\<close>\<close>

lemma not_400_dvd: "0 \<le> (q::int) \<Longrightarrow> q < 30 \<Longrightarrow> \<not> 400 dvd 1970 + q"
proof
  assume a: "0 \<le> q" "q < 30" "400 dvd 1970 + q"
  then obtain k where "1970 + q = 400 * k" by (auto elim: dvdE)
  with a have "4 < k" "k < 5" by linarith+
  then show False by simp
qed

text \<open>From 1970 to 1999 every year counts 366 days; the loop is undefined when it reaches 2000.\<close>

lemma year_loop_from:
  assumes "0 \<le> days" and "1970 \<le> year" and "year \<le> 2000"
  shows "year_loop days year
    = (if days < 366 * (2000 - year) then Some (days mod 366, year + days div 366) else None)"
  using assms
proof (induction days year rule: year_loop.induct)
  case (1 days year)
  show ?case
  proof (cases "year = 2000")
    case True
    then have "is_leap year = None" by (intro is_leap_400) auto
    with True 1(2) show ?thesis by (subst year_loop.simps) simp
  next
    case False
    then have "\<not> 400 dvd year" using not_400_dvd [of "year - 1970"] 1(3,4) by simp
    then have lp: "is_leap year = Some True" using 1(3) by (intro is_leap_not_400) auto
    show ?thesis
    proof (cases "days \<ge> 366")
      case True
      then have d: "(days - 366) mod 366 = days mod 366" "(days - 366) div 366 = days div 366 - 1"
        using div_add_self2 [of 366 "days - 366"] by (simp_all add: minus_mod_self2)
      have "year_loop days year = year_loop (days - 366) (year + 1)"
        using True lp by (subst year_loop.simps) (simp add: year_days_def)
      with 1(1) [OF lp] True False 1(3,4) d show ?thesis by (simp add: year_days_def)
    next
      case small: False
      then show ?thesis
        using lp 1(2,4) False by (subst year_loop.simps) (simp add: year_days_def)
    qed
  qed
qed

lemma nat_below_12: "(m::nat) < 12 \<Longrightarrow> m \<in> {0,1,2,3,4,5,6,7,8,9,10,11}"
proof -
  assume "m < 12"
  moreover have "[0..<12] = [0,1,2,3,4,5,6,7,8,9,10,11::nat]" by code_simp
  then have "set [0..<12] = {0,1,2,3,4,5,6,7,8,9,10,11::nat}" by (simp only: list.set)
  then have "{..<12} = {0,1,2,3,4,5,6,7,8,9,10,11::nat}" by (simp only: atLeastLessThan_upt [symmetric] lessThan_atLeast0)
  ultimately show ?thesis by (metis lessThan_iff)
qed

definition month_start :: "nat \<Rightarrow> int" where
  "month_start m = sum_list (take m [31, 29, 31, 30, 31, 30, 31, 31, 30, 31, 30, 31])"

lemma month_loop_leap:
  assumes "is_leap year = Some True" and "0 \<le> days" and "month \<le> 12"
    and "days + month_start month < 366"
  shows "\<exists>m d. month_loop year days month = Some (d, m) \<and> month \<le> m \<and> m < 12
    \<and> month_start m + d = month_start month + days \<and> 0 \<le> d \<and> month_start m + d < month_start (Suc m)"
  using assms
proof (induction year days month rule: month_loop.induct)
  case (1 year days month)
  define i where "i = days_in_month ! month + (if month = 1 then 1 else 0)"
  have lt: "month < 12"
    using 1(3-5) by (cases "month = 12") (auto simp: month_start_def)
  have st: "month_start (Suc month) = month_start month + i"
  proof -
    have "month \<in> {0,1,2,3,4,5,6,7,8,9,10,11}" using lt nat_below_12 by blast
    then show ?thesis by (auto simp: month_start_def i_def days_in_month_def)
  qed
  have eq: "month_loop year days month
      = (if days < i then Some (days, month) else month_loop year (days - i) (month + 1))"
    using lt 1(2) by (subst month_loop.simps) (simp add: i_def days_in_month_def)
  show ?case
  proof (cases "days < i")
    case True
    with eq st lt 1(3) show ?thesis by auto
  next
    case False
    have "\<exists>m d. month_loop year (days - i) (month + 1) = Some (d, m) \<and> month + 1 \<le> m \<and> m < 12
      \<and> month_start m + d = month_start (month + 1) + (days - i) \<and> 0 \<le> d
      \<and> month_start m + d < month_start (Suc m)"
      using lt 1(2-5) False st
      by (intro 1(1)) (auto simp: i_def days_in_month_def)
    with eq False st show ?thesis by auto
  qed
qed

subsection \<open>\<open>convert_time\<close> as a whole\<close>

lemma mixed_radix: "0 \<le> (t::int) \<Longrightarrow>
  t = t mod 60 + 60 * (t div 60 mod 60) + 3600 * (t div 3600 mod 24) + 86400 * (t div 86400)"
proof -
  have a: "t div 3600 = t div 60 div 60" "t div 86400 = t div 3600 div 24"
    by (simp_all add: zdiv_zmult2_eq [symmetric])
  have "t = 60 * (t div 60) + t mod 60" "t div 60 = 60 * (t div 60 div 60) + t div 60 mod 60"
    "t div 3600 = 24 * (t div 3600 div 24) + t div 3600 mod 24"
    by simp_all
  then show ?thesis unfolding a by linarith
qed

definition tm_wf :: "tm \<Rightarrow> bool" where
  "tm_wf tm \<longleftrightarrow> 0 \<le> tm_hour tm \<and> tm_hour tm < 24 \<and> 0 \<le> tm_min tm \<and> tm_min tm < 60
     \<and> 0 \<le> tm_sec tm \<and> tm_sec tm < 60 \<and> 0 \<le> tm_wday tm \<and> tm_wday tm < 7
     \<and> 0 \<le> tm_mon tm \<and> tm_mon tm < 12 \<and> 1 \<le> tm_mday tm \<and> tm_mday tm \<le> 31
     \<and> 0 \<le> tm_yday tm \<and> tm_yday tm < 366 \<and> 70 \<le> tm_year tm \<and> tm_year tm < 100"

text \<open>
  What the loops of the code compute with: a calendar in which every year has 366 days. This is a
  description of the code, and not of the time: for that see \<open>gregorian_day\<close> below.
\<close>

definition seconds_366 :: "tm \<Rightarrow> int" where
  "seconds_366 tm = tm_sec tm + 60 * tm_min tm + 3600 * tm_hour tm
     + 86400 * (366 * (tm_year tm - 70) + month_start (nat (tm_mon tm)) + tm_mday tm - 1)"

lemma month_start_Suc_le: "m < 12 \<Longrightarrow> month_start (Suc m) \<le> month_start m + 31"
proof -
  assume "m < 12"
  then have "m \<in> {0,1,2,3,4,5,6,7,8,9,10,11}" using nat_below_12 by blast
  then show ?thesis by (auto simp: month_start_def)
qed

lemma days_in_range: "0 \<le> t \<Longrightarrow> t < 86400 * 2147483648 \<Longrightarrow> to_int32 (t sdiv 86400) = t div 86400"
  using pos_imp_zdiv_nonneg_iff [of 86400 t]
  by (simp add: sdiv_nonneg to_int32_id INT_MIN_def INT_MAX_def)

lemma convert_time_Some:
  assumes t: "0 \<le> t" "t < 86400 * 10980"
  shows "\<exists>tm. convert_time t = Some tm \<and> tm_wf tm \<and> seconds_366 tm = t
    \<and> tm_yday tm = month_start (nat (tm_mon tm)) + tm_mday tm - 1"
proof -
  define days where "days = t div 86400"
  have d: "0 \<le> days" "days < 10980" using t by (auto simp: days_def)
  have d32: "to_int32 (t sdiv 86400) = days" using t by (simp add: days_def days_in_range)
  have yl: "year_loop days 1970 = Some (days mod 366, 1970 + days div 366)"
    using year_loop_from [of days 1970] d by simp
  have y30: "0 \<le> days div 366" "days div 366 < 30" using d by auto
  have lp: "is_leap (1970 + days div 366) = Some True"
    using y30 by (intro is_leap_not_400 not_400_dvd) auto
  obtain m md where ml: "month_loop (1970 + days div 366) (days mod 366) 0 = Some (md, m)"
    and m: "m < 12" "month_start m + md = days mod 366" "0 \<le> md"
      "month_start m + md < month_start (Suc m)"
    using month_loop_leap [OF lp, of "days mod 366" 0] by (auto simp: month_start_def)
  have md: "md < 31" using m month_start_Suc_le [of m] by linarith
  let ?tm = "\<lparr> tm_hour = (t sdiv 3600) smod 24, tm_min = (t sdiv 60) smod 60,
            tm_sec = t smod 60, tm_wday = (days + 4) smod 7,
            tm_year = 1970 + days div 366 - 1900, tm_yday = days mod 366,
            tm_mon = int m, tm_mday = md + 1, tm_isdst = 0 \<rparr>"
  have c: "convert_time t = Some ?tm"
    by (simp add: convert_time_def Let_def d32 yl ml)
  have rng: "0 \<le> x smod k \<and> x smod k < k" if "0 \<le> x" "0 < k" for x k :: int
    using that by (simp add: smod_nonneg)
  have "0 \<le> t sdiv 3600" "0 \<le> t sdiv 60" using t by (simp_all add: sdiv_nonneg div_int_pos_iff)
  then have f: "0 \<le> (t sdiv 3600) smod 24 \<and> (t sdiv 3600) smod 24 < 24"
    "0 \<le> (t sdiv 60) smod 60 \<and> (t sdiv 60) smod 60 < 60" "0 \<le> t smod 60 \<and> t smod 60 < 60"
    "0 \<le> (days + 4) smod 7 \<and> (days + 4) smod 7 < 7"
    using t(1) d(1) by (auto intro!: rng)
  have g: "0 \<le> days mod 366 \<and> days mod 366 < 366" by simp
  have h: "70 \<le> 1970 + days div 366 - 1900 \<and> 1970 + days div 366 - 1900 < 100"
    using y30 by linarith
  have k: "0 \<le> int m \<and> int m < 12" "1 \<le> md + 1 \<and> md + 1 \<le> 31" using m md by auto
  have wf: "tm_wf ?tm"
    unfolding tm_wf_def tm.simps using f g h k by blast
  have nn: "0 \<le> t div 3600" "0 \<le> t div 60" using t by (simp_all add: div_int_pos_iff)
  have "seconds_366 ?tm = t mod 60 + 60 * (t div 60 mod 60) + 3600 * (t div 3600 mod 24)
      + 86400 * (366 * (days div 366) + (month_start m + md))"
    using nn t by (simp add: seconds_366_def smod_nonneg sdiv_nonneg)
  also have "366 * (days div 366) + (month_start m + md) = t div 86400"
    using m(2) by (simp add: days_def)
  also have "t mod 60 + 60 * (t div 60 mod 60) + 3600 * (t div 3600 mod 24)
      + 86400 * (t div 86400) = t"
    by (rule mixed_radix [OF t(1), symmetric])
  finally have "seconds_366 ?tm = t" .
  with c wf m(2) show ?thesis by auto
qed

lemma convert_time_None:
  assumes t: "86400 * 10980 \<le> t" "t < 86400 * 2147483648"
  shows "convert_time t = None"
proof -
  have "10980 \<le> t div 86400" using t by auto
  then have "year_loop (t div 86400) 1970 = None"
    using year_loop_from [of "t div 86400" 1970] by simp
  then show ?thesis using t by (simp add: convert_time_def Let_def days_in_range)
qed

subsection \<open>The Gregorian calendar\<close>

text \<open>The days from 1 January 1970 to 1 January of the year \<open>1970 + q\<close>, and to a date with the month \<open>m\<close>
  counted from 0 and the day \<open>d\<close> from 1.\<close>

primrec gregorian_years :: "nat \<Rightarrow> int" where
  "gregorian_years 0 = 0"
| "gregorian_years (Suc q) = gregorian_years q + (if gregorian_leap (1970 + int q) then 366 else 365)"

definition gregorian_months :: "int \<Rightarrow> int list" where
  "gregorian_months y = [31, if gregorian_leap y then 29 else 28, 31, 30, 31, 30, 31, 31, 30, 31, 30, 31]"

definition gregorian_day :: "int \<Rightarrow> nat \<Rightarrow> int \<Rightarrow> int" where
  "gregorian_day y m d = gregorian_years (nat (y - 1970)) + sum_list (take m (gregorian_months y)) + d - 1"

text \<open>The fields name an existing date, which is \<open>day\<close> days after 1 January 1970; the fields show the time
  of day and the day of the week of \<open>t\<close> (1 January 1970 was a Thursday, day 4 of its week).\<close>

definition names_day :: "tm \<Rightarrow> int \<Rightarrow> bool" where
  "names_day tm day \<longleftrightarrow> (let y = tm_year tm + 1900; m = nat (tm_mon tm) in
     0 \<le> tm_mon tm \<and> tm_mon tm < 12 \<and> 1 \<le> tm_mday tm \<and> tm_mday tm \<le> gregorian_months y ! m
     \<and> gregorian_day y m (tm_mday tm) = day)"

definition shows_clock :: "tm \<Rightarrow> int \<Rightarrow> bool" where
  "shows_clock tm t \<longleftrightarrow> tm_hour tm = t div 3600 mod 24 \<and> tm_min tm = t div 60 mod 60 \<and> tm_sec tm = t mod 60
     \<and> tm_wday tm = (t div 86400 + 4) mod 7"

lemma leap_1970: "\<not> gregorian_leap 1970"
  by (simp add: gregorian_leap_def)

lemma gregorian_years_less: "0 < q \<Longrightarrow> gregorian_years q < 366 * int q"
proof (induction q)
  case (Suc q)
  then show ?case using leap_1970 by (cases q) auto
qed simp

lemma gregorian_months_start:
  assumes "m < 12"
  shows "sum_list (take m (gregorian_months y)) = month_start m - (if gregorian_leap y \<or> m < 2 then 0 else 1)"
proof -
  have "m \<in> {0,1,2,3,4,5,6,7,8,9,10,11}" using assms nat_below_12 by blast
  then show ?thesis by (auto simp: month_start_def gregorian_months_def)
qed

text \<open>The date of \<open>day\<close> in a calendar of 366 days a year, read as a Gregorian one.\<close>

lemma wrong_after_february:
  assumes wf: "tm_wf tm" and day: "day = 366 * (tm_year tm - 70) + month_start (nat (tm_mon tm)) + tm_mday tm - 1"
  shows "names_day tm day \<longleftrightarrow> day < 59"
proof -
  define q where "q = nat (tm_year tm - 70)"
  define m where "m = nat (tm_mon tm)"
  have f: "tm_year tm = 70 + int q" "tm_mon tm = int m" "m < 12" "1 \<le> tm_mday tm"
    using wf by (auto simp: q_def m_def tm_wf_def)
  let ?y = "1970 + int q" and ?d = "tm_mday tm"
  have g: "gregorian_day ?y m ?d = gregorian_years q + month_start m - (if gregorian_leap ?y \<or> m < 2 then 0 else 1) + ?d - 1"
    using gregorian_months_start [OF f(3), of ?y] by (simp add: gregorian_day_def)
  have n: "names_day tm day \<longleftrightarrow> ?d \<le> gregorian_months ?y ! m \<and> gregorian_day ?y m ?d = day"
  proof -
    have y: "tm_year tm + 1900 = ?y" "nat (tm_mon tm) = m" "0 \<le> tm_mon tm" "tm_mon tm < 12" using f(1-3) by simp_all
    show ?thesis unfolding names_day_def Let_def y(1,2) using y(3,4) f(4) by blast
  qed
  have d: "day = 366 * int q + month_start m + ?d - 1" using day f(1) by (simp flip: m_def)
  have ms: "0 \<le> month_start m" "2 \<le> m \<Longrightarrow> 60 \<le> month_start m" "month_start 0 = 0" "month_start 1 = 31"
  proof -
    have "m \<in> {0,1,2,3,4,5,6,7,8,9,10,11}" using f(3) nat_below_12 by blast
    then show "0 \<le> month_start m" "2 \<le> m \<Longrightarrow> 60 \<le> month_start m" by (auto simp: month_start_def)
  qed (simp_all add: month_start_def)
  show ?thesis
  proof (cases "q = 0")
    case False
    then have "gregorian_years q < 366 * int q" "366 \<le> 366 * int q" using gregorian_years_less by auto
    moreover have "gregorian_day ?y m ?d \<le> gregorian_years q + month_start m + ?d - 1" unfolding g by simp
    ultimately have "gregorian_day ?y m ?d \<noteq> day" "\<not> day < 59" unfolding d using ms(1) f(4) by linarith+
    then show ?thesis unfolding n by blast
  next
    case True
    consider "m = 0" | "m = 1" | "2 \<le> m" by linarith
    then show ?thesis
    proof cases
      case 1
      have "?d \<le> 31" using wf by (simp add: tm_wf_def)
      moreover have "day = ?d - 1" using d True 1 ms(3) by simp
      moreover have "gregorian_day ?y m ?d = ?d - 1" using g True 1 ms(3) by simp
      ultimately show ?thesis using n 1 by (simp add: gregorian_months_def)
    next
      case 2
      have "day = 31 + ?d - 1" using d True 2 ms(4) by simp
      moreover have "gregorian_day ?y m ?d = 31 + ?d - 1" using g True 2 ms(4) by simp
      moreover have "gregorian_months ?y ! m = 28" using True 2 leap_1970 by (simp add: gregorian_months_def)
      ultimately show ?thesis unfolding n by linarith
    next
      case 3
      have "day = month_start m + ?d - 1" using d True by simp
      moreover have "gregorian_day ?y m ?d = month_start m - 1 + ?d - 1" using g True 3 leap_1970 by simp
      ultimately show ?thesis unfolding n using ms(2) [OF 3] f(4) by linarith
    qed
  qed
qed

lemma convert_time_date:
  assumes t: "0 \<le> t" "t < 86400 * 10980"
  shows "\<exists>tm. convert_time t = Some tm \<and> shows_clock tm t \<and> (names_day tm (t div 86400) \<longleftrightarrow> t < 86400 * 59)"
proof -
  obtain tm where tm: "convert_time t = Some tm" "tm_wf tm" "seconds_366 tm = t" using convert_time_Some [OF t] by blast
  have sc: "shows_clock tm t"
    using tm(1) t days_in_range [OF t(1)]
    by (auto simp: convert_time_def shows_clock_def Let_def smod_nonneg sdiv_nonneg div_int_pos_iff elim!: bind_SomeE)
  define day where "day = 366 * (tm_year tm - 70) + month_start (nat (tm_mon tm)) + tm_mday tm - 1"
  have "86400 * day = t - t mod 60 - 60 * (t div 60 mod 60) - 3600 * (t div 3600 mod 24)"
    using tm(3) sc by (simp add: seconds_366_def shows_clock_def day_def)
  then have "day = t div 86400" using mixed_radix [OF t(1)] by simp
  moreover have "t div 86400 < 59 \<longleftrightarrow> t < 86400 * 59" by linarith
  ultimately show ?thesis using tm(1) sc wrong_after_february [OF tm(2) day_def] by auto
qed

subsection \<open>File kinds\<close>

type_synonym mode_t = "32 word"

definition S_IFMT :: mode_t where "S_IFMT = 0xF000"

definition S_ISDIR :: "mode_t \<Rightarrow> bool" where "S_ISDIR m \<longleftrightarrow> and m S_IFMT = 0x4000"
definition S_ISREG :: "mode_t \<Rightarrow> bool" where "S_ISREG m \<longleftrightarrow> and m S_IFMT = 0x8000"
definition S_ISCHR :: "mode_t \<Rightarrow> bool" where "S_ISCHR m \<longleftrightarrow> and m S_IFMT = 0x2000"
definition S_ISBLK :: "mode_t \<Rightarrow> bool" where "S_ISBLK m \<longleftrightarrow> and m S_IFMT = 0x6000"
definition S_ISFIFO :: "mode_t \<Rightarrow> bool" where "S_ISFIFO m \<longleftrightarrow> and m S_IFMT = 0x1000"
definition S_ISLNK :: "mode_t \<Rightarrow> bool" where "S_ISLNK m \<longleftrightarrow> and m S_IFMT = 0xA000"
definition S_ISSOCK :: "mode_t \<Rightarrow> bool" where "S_ISSOCK m \<longleftrightarrow> and m S_IFMT = 0xC000"

definition get_modechar :: "mode_t \<Rightarrow> char" where
  "get_modechar mode =
     (if S_ISDIR mode then CHR ''d''
      else if S_ISREG mode then CHR ''-''
      else if S_ISCHR mode then CHR ''c''
      else if S_ISBLK mode then CHR ''b''
      else if S_ISFIFO mode then CHR ''p''
      else if S_ISLNK mode then CHR ''l''
      else if S_ISSOCK mode then CHR ''s''
      else CHR ''-'')"

subsection \<open>Properties\<close>

text \<open>C34. \<open>convert_time\<close> against the Gregorian calendar. The time of day and the day of the week are right. The
  date it names is the one of the time stamp exactly up to 28 February 1970: day 59 is shown as the 29
  February 1970, and every later day as a date that is another one or does not exist, since the inverted
  test of \<open>is_leap\<close> gives every year 366 days. From day 10980, 24 January 2000, on it is undefined.
  The time stamps are those from 1970 on whose days fit an \<open>int\<close>.\<close>

theorem convert_time_calendar:
  assumes "0 \<le> t" and "t < 86400 * 2147483648"
  shows "if t < 86400 * 10980
    then \<exists>tm. convert_time t = Some tm \<and> shows_clock tm t \<and> (names_day tm (t div 86400) \<longleftrightarrow> t < 86400 * 59)
    else convert_time t = None"
  using convert_time_date [OF assms(1)] convert_time_None [of t] assms(2) by auto

theorem convert_time_calendar_witness:
  "(\<exists>tm. convert_time (86400 * 58 + 3661) = Some tm \<and> shows_clock tm (86400 * 58 + 3661) \<and> names_day tm 58)
    \<and> (\<exists>tm. convert_time (86400 * 59) = Some tm \<and> \<not> names_day tm 59) \<and> convert_time (86400 * 10980) = None"
  using convert_time_calendar [of "86400 * 58 + 3661"] convert_time_calendar [of "86400 * 59"]
    convert_time_calendar [of "86400 * 10980"] by auto

text \<open>\<open>is_leap\<close> is defined exactly on the years that 400 does not divide, and it gives the Gregorian
  answer exactly on the years divisible by 4 and not by 100.\<close>

lemma is_leap_verdicts:
  assumes "0 \<le> y"
  shows "(is_leap y = None \<longleftrightarrow> 400 dvd y)
    \<and> (is_leap y = Some (gregorian_leap y) \<longleftrightarrow> 4 dvd y \<and> \<not> 100 dvd y)"
  using assms is_leap_400 [of y] is_leap_not_400 [of y] is_leap_agrees_iff [of y]
  by (cases "400 dvd y") simp_all

theorem is_leap_verdicts_witness: "is_leap 2000 = None \<and> is_leap 1970 \<noteq> Some (gregorian_leap 1970)"
  using is_leap_verdicts [of 2000] is_leap_verdicts [of 1970] by simp

end
