(* ===== verification/Ftp_Realpath.thy ===== *)
theory Ftp_Realpath
  imports Ftp_Util
begin

text \<open>
  \<open>vfs_realpath\<close> of \<open>vfs.c\<close>, the function every file operation goes through. The first part is
  the code: the array \<open>virt_path\<close> and the pointer \<open>dst\<close> into it, byte by byte. The second part is
  its specification: paths as lists of component names, resolved one name at a time. The last part
  proves that the array code computes exactly the specification, never leaves its array, and
  reports \<open>ENAMETOOLONG\<close> in exactly the cases the specification does.
\<close>

datatype errno =
    E_OK | EPERM | ENOENT | EACCES | ENOTDIR | ENAMETOOLONG | ENOTEMPTY | ELOOP | EUSERS | EDQUOT
  | EINTR | EPIPE | ECONNRESET | ECONNABORTED | EADDRINUSE | ENOMEM | ERANGE | E_other nat

definition FTP_MAX_PATH :: nat where "FTP_MAX_PATH = 1024"
definition FTP_MAX_NAME :: nat where "FTP_MAX_NAME = 256"

subsection \<open>The code\<close>

text \<open>\<open>while( (--dst)[-1] != '/' )\<close>.\<close>

fun go_up :: "buf \<Rightarrow> nat \<Rightarrow> nat option" where
  "go_up buf 0 = None"
| "go_up buf (Suc 0) = None"
| "go_up buf (Suc (Suc i)) =
     do { c \<leftarrow> rd buf i; if c = SLASH then Some (Suc i) else go_up buf (Suc i) }"

text \<open>\<open>if( dst[-1] != '/' ) *dst++ = '/'\<close>.\<close>

definition add_slash :: "buf \<Rightarrow> nat \<Rightarrow> (buf \<times> nat) option" where
  "add_slash buf dst = do {
     c \<leftarrow> (if dst = 0 then None else rd buf (dst - 1));
     if c \<noteq> SLASH then do { buf \<leftarrow> wr buf dst SLASH; Some (buf, dst + 1) } else Some (buf, dst) }"

definition first_comp :: "string \<Rightarrow> string" where
  "first_comp path = takeWhile (\<lambda>c. c \<noteq> SLASH) (dropWhile (\<lambda>c. c = SLASH) path)"

definition rest_comp :: "string \<Rightarrow> string" where
  "rest_comp path = dropWhile (\<lambda>c. c \<noteq> SLASH) (dropWhile (\<lambda>c. c = SLASH) path)"

lemma first_rest: "dropWhile (\<lambda>c. c = SLASH) path = first_comp path @ rest_comp path"
  by (simp add: first_comp_def rest_comp_def)

lemma length_rest_comp: "first_comp path \<noteq> [] \<Longrightarrow> length (rest_comp path) < length path"
  using first_rest [of path] length_dropWhile_le [of "\<lambda>c. c = SLASH" path]
  by (cases "first_comp path") auto

function realpath_loop :: "buf \<Rightarrow> nat \<Rightarrow> string \<Rightarrow> (buf \<times> (errno + nat)) option" where
  "realpath_loop buf dst path = (let comp = first_comp path; rest = rest_comp path in
     if path = [] \<or> length comp = 0 then Some (buf, Inr dst)
     else if comp = ''.'' then realpath_loop buf dst rest
     else if comp = ''..'' then
       (if dst > 1 then do { dst \<leftarrow> go_up buf dst; realpath_loop buf dst rest }
        else realpath_loop buf dst rest)
     else do {
       (buf, dst) \<leftarrow> add_slash buf dst;
       if dst + length comp \<ge> FTP_MAX_PATH then Some (buf, Inl ENAMETOOLONG)
       else do {
         buf \<leftarrow> blit buf dst comp;
         buf \<leftarrow> wr buf (dst + length comp) NUL;
         realpath_loop buf (dst + length comp) rest } })"
  by pat_completeness auto
termination
  by (relation "measure (\<lambda>(buf, dst, path). length path)") (auto simp: length_rest_comp)

declare realpath_loop.simps [simp del]

definition vfs_realpath :: "buf \<Rightarrow> string \<Rightarrow> string \<Rightarrow> (buf \<times> (errno + unit)) option" where
  "vfs_realpath virt_path cwd path = do {
     (virt_path, start) \<leftarrow>
       (if path \<noteq> [] \<and> path ! 0 = SLASH
        then do { virt_path \<leftarrow> wr virt_path 0 SLASH; Some (virt_path, Inr 1) }
        else do {
          (len, virt_path) \<leftarrow> strlcpy virt_path cwd FTP_MAX_PATH;
          if len \<ge> FTP_MAX_PATH
          then do { virt_path \<leftarrow> wr virt_path 0 NUL; Some (virt_path, Inl ENAMETOOLONG) }
          else Some (virt_path, Inr len) });
     case start of
       Inl e \<Rightarrow> Some (virt_path, Inl e)
     | Inr dst \<Rightarrow> do {
         (virt_path, r) \<leftarrow> realpath_loop virt_path dst path;
         case r of
           Inl e \<Rightarrow> Some (virt_path, Inl e)
         | Inr dst \<Rightarrow> do {
             c \<leftarrow> (if dst > 1 then rd virt_path (dst - 1) else Some NUL);
             let dst = (if dst > 1 \<and> c = SLASH then dst - 1 else dst);
             virt_path \<leftarrow> wr virt_path dst NUL;
             Some (virt_path, Inr ()) } } }"

subsection \<open>The specification: lists of names\<close>

function split_path :: "string \<Rightarrow> string list" where
  "split_path path =
     (if first_comp path = [] then [] else first_comp path # split_path (rest_comp path))"
  by pat_completeness auto
termination
  by (relation "measure length") (auto simp: length_rest_comp)

declare split_path.simps [simp del]

definition dirprefix :: "string list \<Rightarrow> string" where
  "dirprefix cs = concat (map (\<lambda>c. SLASH # c) cs) @ [SLASH]"

definition render :: "string list \<Rightarrow> string" where
  "render cs = (if cs = [] then [SLASH] else concat (map (\<lambda>c. SLASH # c) cs))"

definition is_name :: "string \<Rightarrow> bool" where
  "is_name c \<longleftrightarrow> c \<noteq> [] \<and> SLASH \<notin> set c \<and> nul_free c \<and> c \<noteq> ''.'' \<and> c \<noteq> ''..''"

definition canonical :: "string \<Rightarrow> bool" where
  "canonical p \<longleftrightarrow> (\<exists>cs. list_all is_name cs \<and> p = render cs) \<and> length p < FTP_MAX_PATH"

text \<open>Resolving a list of names from the directory \<open>cs\<close>; \<open>..\<close> at the root stays there.\<close>

fun resolve :: "string list \<Rightarrow> string list \<Rightarrow> errno + string list" where
  "resolve cs [] = Inr cs"
| "resolve cs (c # r) =
     (if c = ''.'' then resolve cs r
      else if c = ''..'' then resolve (butlast cs) r
      else if length (render (cs @ [c])) \<ge> FTP_MAX_PATH then Inl ENAMETOOLONG
      else resolve (cs @ [c]) r)"

lemma render_snoc [simp]: "render (cs @ [c]) = dirprefix cs @ c"
  by (simp add: render_def dirprefix_def)

lemma dirprefix_Nil [simp]: "dirprefix [] = [SLASH]"
  by (simp add: dirprefix_def)

lemma dirprefix_nonempty: "cs \<noteq> [] \<Longrightarrow> dirprefix cs = render cs @ [SLASH]"
  by (simp add: render_def dirprefix_def)

lemma render_Nil [simp]: "render [] = [SLASH]"
  by (simp add: render_def)

lemma render_not_Nil [simp]: "render cs \<noteq> []"
  by (cases cs) (auto simp: render_def)

lemma length_render_pos [simp]: "0 < length (render cs)"
  by simp

lemma hd_render [simp]: "hd (render cs) = SLASH"
  by (cases cs) (auto simp: render_def)

lemma nul_free_render: "list_all is_name cs \<Longrightarrow> nul_free (render cs)"
  by (auto simp: render_def nul_free_def is_name_def list_all_iff)

lemma last_render: "list_all is_name cs \<Longrightarrow> cs \<noteq> [] \<Longrightarrow> last (render cs) \<noteq> SLASH"
  by (cases cs rule: rev_cases) (auto simp: is_name_def dest: last_in_set)

lemma first_comp_no_slash: "SLASH \<notin> set (first_comp path)"
  by (auto simp: first_comp_def dest: set_takeWhileD)

lemma nul_free_comps:
  assumes "nul_free path" shows "nul_free (first_comp path)" and "nul_free (rest_comp path)"
  using assms by (auto simp: nul_free_def first_comp_def rest_comp_def
      dest!: set_takeWhileD set_dropWhileD)

lemma is_name_first_comp:
  "nul_free path \<Longrightarrow> first_comp path \<noteq> [] \<Longrightarrow> first_comp path \<noteq> ''.'' \<Longrightarrow> first_comp path \<noteq> ''..''
   \<Longrightarrow> is_name (first_comp path)"
  by (simp add: is_name_def first_comp_no_slash nul_free_comps)

lemma list_all_butlast: "list_all P cs \<Longrightarrow> list_all P (butlast cs)"
  by (auto simp: list_all_iff dest: in_set_butlastD)

text \<open>What resolution preserves: the names and the length bound.\<close>

lemma length_render_butlast: "length (render (butlast cs)) \<le> length (render cs)"
  by (cases cs rule: rev_cases) (auto simp: dirprefix_def render_def)

lemma resolve_error: "resolve ds cs = Inl e \<Longrightarrow> e = ENAMETOOLONG"
  by (induction ds cs rule: resolve.induct) (auto split: if_splits)

lemma resolve_sound:
  assumes "list_all is_name cs" and "length (render cs) < FTP_MAX_PATH"
    and "list_all (\<lambda>c. c \<noteq> [] \<and> SLASH \<notin> set c \<and> nul_free c) names"
    and "resolve cs names = Inr cs'"
  shows "list_all is_name cs' \<and> length (render cs') < FTP_MAX_PATH"
  using assms
proof (induction cs names rule: resolve.induct)
  case (2 cs c r)
  have b: "list_all is_name (butlast cs)" "length (render (butlast cs)) < FTP_MAX_PATH"
    using 2(4,5) length_render_butlast [of cs] by (simp_all add: list_all_butlast)
  have nm: "c \<noteq> ''.'' \<Longrightarrow> c \<noteq> ''..'' \<Longrightarrow> is_name c"
    using 2(6) by (simp add: is_name_def)
  show ?case
    using 2 b nm by (auto split: if_splits)
qed simp

lemma split_path_names:
  "nul_free path \<Longrightarrow> list_all (\<lambda>c. c \<noteq> [] \<and> SLASH \<notin> set c \<and> nul_free c) (split_path path)"
proof (induction path rule: split_path.induct)
  case (1 path)
  then show ?case
    by (subst split_path.simps) (simp add: first_comp_no_slash nul_free_comps)
qed

subsection \<open>The array code refines the specification\<close>

text \<open>
  The array \<open>buf\<close> with pointer \<open>dst\<close> represents the directory \<open>cs\<close>: the bytes before \<open>dst\<close> are the
  rendered path, with a trailing separator after a step up.
\<close>

definition represents :: "buf \<Rightarrow> nat \<Rightarrow> string list \<Rightarrow> bool" where
  "represents buf dst cs \<longleftrightarrow> length buf = FTP_MAX_PATH \<and> dst < FTP_MAX_PATH \<and> list_all is_name cs
     \<and> (take dst buf = render cs \<or> take dst buf = dirprefix cs)"

lemma represents_length:
  "represents buf dst cs \<Longrightarrow> dst = length (render cs) \<or> dst = length (dirprefix cs)"
  by (auto simp: represents_def min_def dest: arg_cong [of _ _ length])

lemma nth_take_last: "take n b = u @ [c] \<Longrightarrow> n \<le> length b \<Longrightarrow> b ! (n - 1) = c \<and> n = Suc (length u)"
  by (metis append_Nil2 diff_Suc_1 length_append_singleton lessI length_take min.absorb2
      nth_append_length nth_take)

lemma go_up_name:
  assumes "take n b = u @ SLASH # w" and "n \<le> length b" and "w \<noteq> []" and "SLASH \<notin> set w"
  shows "go_up b n = Some (Suc (length u))"
  using assms
proof (induction w arbitrary: n rule: rev_induct)
  case (snoc c w)
  have n: "n = Suc (Suc (length u + length w))"
    using snoc.prems(1,2) by (auto dest!: arg_cong [of _ _ length])
  have tk: "take (Suc (length u + length w)) b = u @ SLASH # w"
    using snoc.prems(1) n by (metis append_Cons append_assoc butlast_snoc butlast_take diff_Suc_1 snoc.prems(2))
  show ?case
  proof (cases "w = []")
    case True
    have "b ! length u = SLASH"
      using nth_take_last [of "Suc (length u)" b u SLASH] tk True n snoc.prems(2) by simp
    then show ?thesis using n True snoc.prems(2) by (simp add: rd_def)
  next
    case False
    have ne: "b ! (length u + length w) \<noteq> SLASH"
      using nth_take_last [of "Suc (length u + length w)" b "u @ SLASH # butlast w" "last w"]
        tk False n snoc.prems(2,4) by (metis (no_types, lifting) append_Cons append_assoc
          append_butlast_last_id diff_Suc_1 in_set_conv_decomp le_SucI le_eq_less_or_eq less_eq_Suc_le)
    have "go_up b n = go_up b (Suc (length u + length w))"
      using n ne snoc.prems(2) by (simp add: rd_def)
    also have "\<dots> = Some (Suc (length u))"
      using snoc.IH [OF tk] False snoc.prems(2,4) n by simp
    finally show ?thesis .
  qed
qed simp

lemma go_up_represents:
  assumes r: "represents buf dst cs" and gt: "dst > 1"
  shows "\<exists>d. go_up buf dst = Some d \<and> represents buf d (butlast cs)"
proof -
  have ne: "cs \<noteq> []" using represents_length [OF r] gt by auto
  then obtain ds c where cs: "cs = ds @ [c]" by (cases cs rule: rev_cases) auto
  have c: "is_name c" "list_all is_name ds" using r cs by (auto simp: represents_def)
  then have sl: "c \<noteq> []" "SLASH \<notin> set c" by (auto simp: is_name_def)
  define u where "u = concat (map (\<lambda>c. SLASH # c) ds)"
  have dp: "dirprefix ds = u @ [SLASH]" by (simp add: dirprefix_def u_def)
  have len: "length buf = FTP_MAX_PATH" "dst < FTP_MAX_PATH" using r by (auto simp: represents_def)
  have up: "go_up buf dst = Some (Suc (length u)) \<and> take (Suc (length u)) buf = u @ [SLASH]
      \<and> Suc (length u) < FTP_MAX_PATH"
  proof (cases "take dst buf = render cs")
    case True
    then have t: "take dst buf = u @ SLASH # c" using cs dp by simp
    then have "take (Suc (length u)) (take dst buf) = u @ [SLASH]" by simp
    moreover have "dst = length u + Suc (length c)"
      using t len by (auto dest!: arg_cong [of _ _ length])
    ultimately show ?thesis
      using go_up_name [OF t _ sl] len by (simp add: min_def)
  next
    case False
    then have t: "take dst buf = (u @ SLASH # c) @ [SLASH]"
      using r cs dp ne by (auto simp: represents_def dirprefix_nonempty)
    then have d: "dst = Suc (length u + Suc (length c))"
      using len by (auto dest!: arg_cong [of _ _ length])
    have t': "take (dst - 1) buf = u @ SLASH # c"
      using t len by (metis butlast_snoc butlast_take less_imp_le)
    have lst: "buf ! (length u + length c) = last c"
      using nth_take_last [of "dst - 1" buf "u @ SLASH # butlast c" "last c"] t' d sl len by simp
    have "last c \<noteq> SLASH" using sl last_in_set by metis
    then have "go_up buf dst = go_up buf (dst - 1)"
      using d lst sl len by (cases "length u + length c") (auto simp: rd_def)
    moreover have "go_up buf (dst - 1) = Some (Suc (length u))"
      using go_up_name [OF t' _ sl] len by simp
    moreover have "take (Suc (length u)) (take (dst - 1) buf) = u @ [SLASH]" using t' by simp
    ultimately show ?thesis using d len by (simp add: min_def)
  qed
  then show ?thesis
    using len c cs dp by (intro exI [of _ "Suc (length u)"]) (auto simp: represents_def)
qed

lemma take_full: "take n b = s \<Longrightarrow> n < length b \<Longrightarrow> n = length s"
  by (auto simp: min_def)

lemma represents_last:
  assumes r: "represents buf dst cs"
  shows "0 < dst" and "buf ! (dst - 1) = SLASH \<longleftrightarrow> take dst buf = dirprefix cs"
proof -
  have len: "length buf = FTP_MAX_PATH" "dst < FTP_MAX_PATH" and nm: "list_all is_name cs"
    using r by (auto simp: represents_def)
  have d: "dst = length (take dst buf)" using len by simp
  have ne: "take dst buf \<noteq> []"
    using r unfolding represents_def dirprefix_def
    by (metis render_not_Nil append_is_Nil_conv list.distinct(1))
  then show pos: "0 < dst" by (cases dst) auto
  have lst: "buf ! (dst - 1) = last (take dst buf)"
    using ne d by (subst last_conv_nth) auto
  show "buf ! (dst - 1) = SLASH \<longleftrightarrow> take dst buf = dirprefix cs"
  proof (cases "take dst buf = dirprefix cs")
    case True
    then show ?thesis using lst by (simp add: dirprefix_def)
  next
    case False
    then have t: "take dst buf = render cs" and "cs \<noteq> []"
      using r by (auto simp: represents_def)
    then show ?thesis using lst last_render [OF nm] False by simp
  qed
qed

lemma add_slash_represents:
  assumes r: "represents buf dst cs"
  shows "\<exists>b. add_slash buf dst = Some (b, length (dirprefix cs)) \<and> length b = FTP_MAX_PATH
    \<and> take (length (dirprefix cs)) b = dirprefix cs"
proof -
  have len: "length buf = FTP_MAX_PATH" "dst < FTP_MAX_PATH"
    using r by (auto simp: represents_def)
  have pos: "0 < dst" by (rule represents_last(1) [OF r])
  have c: "rd buf (dst - 1) = Some (buf ! (dst - 1))" using len by (simp add: rd_def)
  show ?thesis
  proof (cases "take dst buf = dirprefix cs")
    case True
    with represents_last(2) [OF r] have sl: "buf ! (dst - 1) = SLASH" by simp
    have "dst = length (dirprefix cs)" using take_full [OF True] len by simp
    with True sl c pos len show ?thesis by (auto simp: add_slash_def)
  next
    case False
    with represents_last(2) [OF r] have sl: "buf ! (dst - 1) \<noteq> SLASH" by simp
    have t: "take dst buf = render cs" and ne: "cs \<noteq> []"
      using r False by (auto simp: represents_def)
    have w: "wr buf dst SLASH = Some (buf[dst := SLASH])" using len by (simp add: wr_def)
    have "take (Suc dst) (buf[dst := SLASH]) = dirprefix cs"
      using take_wr [OF w] t ne by (simp add: dirprefix_nonempty)
    moreover have "Suc dst = length (dirprefix cs)"
      using take_full [OF t] len ne by (simp add: dirprefix_nonempty)
    ultimately show ?thesis
      using c w sl pos len by (intro exI [of _ "buf[dst := SLASH]"]) (auto simp: add_slash_def)
  qed
qed

text \<open>One whole run of the loop, by its own recursion.\<close>

lemma realpath_loop_resolve:
  assumes "represents buf dst cs" and "nul_free path"
  shows "\<exists>b. length b = FTP_MAX_PATH \<and> (case resolve cs (split_path path) of
      Inl e \<Rightarrow> realpath_loop buf dst path = Some (b, Inl e)
    | Inr cs' \<Rightarrow> \<exists>d. realpath_loop buf dst path = Some (b, Inr d) \<and> represents b d cs')"
  using assms
proof (induction buf dst path arbitrary: cs rule: realpath_loop.induct)
  case (1 buf dst path)
  note r = 1(5) and nf = 1(6)
  define comp rest where "comp = first_comp path" and "rest = rest_comp path"
  have nfr: "nul_free rest" using nf by (simp add: rest_def nul_free_comps)
  have len: "length buf = FTP_MAX_PATH" "dst < FTP_MAX_PATH" "list_all is_name cs"
    using r by (auto simp: represents_def)
  consider "comp = []" | "comp = ''.''" | "comp = ''..''"
    | "comp \<noteq> []" "comp \<noteq> ''.''" "comp \<noteq> ''..''" by blast
  then show ?case
  proof cases
    case 1
    then have "realpath_loop buf dst path = Some (buf, Inr dst)" "split_path path = []"
      by (simp_all add: comp_def realpath_loop.simps split_path.simps)
    with r len show ?thesis by auto
  next
    case 2
    then have "path \<noteq> []" by (auto simp: comp_def first_comp_def)
    then have "realpath_loop buf dst path = realpath_loop buf dst rest"
      "resolve cs (split_path path) = resolve cs (split_path rest)"
      using 2 by (simp_all add: comp_def rest_def realpath_loop.simps [of buf dst path]
          split_path.simps [of path] Let_def)
    with "1.IH"(1) [OF comp_def rest_def _ _ r nfr] 2 \<open>path \<noteq> []\<close> show ?thesis
      by (auto split: sum.splits)
  next
    case 3
    then have pn: "path \<noteq> []" by (auto simp: comp_def first_comp_def)
    have rs: "resolve cs (split_path path) = resolve (butlast cs) (split_path rest)"
      using 3 by (simp add: comp_def rest_def split_path.simps [of path])
    show ?thesis
    proof (cases "dst > 1")
      case True
      obtain d where d: "go_up buf dst = Some d" "represents buf d (butlast cs)"
        using go_up_represents [OF r True] by blast
      have "realpath_loop buf dst path = realpath_loop buf d rest"
        using 3 pn True d by (simp add: comp_def rest_def realpath_loop.simps [of buf dst path] Let_def)
      with "1.IH"(2) [OF comp_def rest_def _ _ _ True d(1) d(2) nfr] 3 pn rs show ?thesis
        by (auto split: sum.splits)
    next
      case False
      then have dst: "dst = 1" using represents_last(1) [OF r] by simp
      have "cs = []"
      proof (rule ccontr)
        assume "cs \<noteq> []"
        then obtain ds c where "cs = ds @ [c]" by (cases cs rule: rev_cases) auto
        then show False
          using represents_length [OF r] dst len(3)
          by (auto simp: is_name_def dirprefix_def)
      qed
      moreover have "realpath_loop buf dst path = realpath_loop buf dst rest"
        using 3 pn False by (simp add: comp_def rest_def realpath_loop.simps [of buf dst path] Let_def)
      ultimately show ?thesis
        using "1.IH"(3) [OF comp_def rest_def _ _ _ False r nfr] 3 pn rs
        by (auto split: sum.splits)
    qed
  next
    case 4
    then have pn: "path \<noteq> []" by (auto simp: comp_def first_comp_def)
    have nm: "is_name comp" using 4 nf by (simp add: comp_def is_name_first_comp)
    obtain b where b: "add_slash buf dst = Some (b, length (dirprefix cs))"
      "length b = FTP_MAX_PATH" "take (length (dirprefix cs)) b = dirprefix cs"
      using add_slash_represents [OF r] by blast
    let ?d = "length (dirprefix cs)"
    show ?thesis
    proof (cases "?d + length comp \<ge> FTP_MAX_PATH")
      case True
      then have "realpath_loop buf dst path = Some (b, Inl ENAMETOOLONG)"
        "resolve cs (split_path path) = Inl ENAMETOOLONG"
        using 4 pn b by (simp_all add: comp_def realpath_loop.simps [of buf dst path]
            split_path.simps [of path] Let_def)
      with b(2) show ?thesis by auto
    next
      case False
      let ?b1 = "take ?d b @ comp @ drop (?d + length comp) b"
      have w1: "blit b ?d comp = Some ?b1" using False b(2) by (simp add: blit_def)
      then have w1': "take (?d + length comp) ?b1 = render (cs @ [comp])"
        using b(3) by (simp add: take_blit)
      have w2: "wr ?b1 (?d + length comp) NUL = Some (?b1[?d + length comp := NUL])"
        using False b(2) by (simp add: wr_def)
      let ?b2 = "?b1[?d + length comp := NUL]"
      have r2: "represents ?b2 (?d + length comp) (cs @ [comp])"
        using w1' False b(2) nm len(3) by (simp add: represents_def)
      have "realpath_loop buf dst path = realpath_loop ?b2 (?d + length comp) rest"
        using 4 pn b(1) False w1 w2
        by (simp add: comp_def rest_def realpath_loop.simps [of buf dst path] Let_def)
      moreover have "resolve cs (split_path path) = resolve (cs @ [comp]) (split_path rest)"
        using 4 False by (simp add: comp_def rest_def split_path.simps [of path])
      ultimately show ?thesis
        using "1.IH"(4) [OF comp_def rest_def _ _ _ b(1) refl _ w1 w2 r2 nfr] 4 pn False
        by (auto split: sum.splits)
    qed
  qed
qed

text \<open>The whole function, from any contents of the array.\<close>

lemma represents_finish:
  assumes r: "represents b dst cs"
  shows "\<exists>c b'. (if dst > 1 then rd b (dst - 1) else Some NUL) = Some c
    \<and> wr b (if dst > 1 \<and> c = SLASH then dst - 1 else dst) NUL = Some b'
    \<and> length b' = FTP_MAX_PATH \<and> cstr b' = render cs"
proof -
  have len: "length b = FTP_MAX_PATH" "dst < FTP_MAX_PATH" and nm: "list_all is_name cs"
    using r by (auto simp: represents_def)
  define c where "c = (if dst > 1 then b ! (dst - 1) else NUL)"
  define n where "n = (if dst > 1 \<and> c = SLASH then dst - 1 else dst)"
  have n: "n < FTP_MAX_PATH" using len by (auto simp: n_def)
  have tk: "take n b = render cs"
  proof (cases "dst > 1 \<and> c = SLASH")
    case True
    then have dp: "take dst b = dirprefix cs" using represents_last(2) [OF r] by (auto simp: c_def)
    have "cs \<noteq> []" using take_full [OF dp] len True by auto
    then have "take (dst - 1) (take dst b) = render cs"
      using dp take_full [OF dp] len by (simp add: dirprefix_nonempty)
    with True show ?thesis by (simp add: n_def min_def)
  next
    case False
    have "take dst b = render cs"
    proof (cases "cs = []")
      case True
      with r show ?thesis by (auto simp: represents_def)
    next
      case ne: False
      have "dst \<noteq> 1"
      proof
        assume "dst = 1"
        then show False
          using represents_length [OF r] ne nm
          by (cases cs) (auto simp: render_def dirprefix_def is_name_def)
      qed
      then have "dst > 1" using represents_last(1) [OF r] by simp
      with False have "b ! (dst - 1) \<noteq> SLASH" by (simp add: c_def)
      with represents_last(2) [OF r] r show ?thesis by (auto simp: represents_def)
    qed
    with False show ?thesis by (auto simp: n_def)
  qed
  have "cstr (b[n := NUL]) = take n (b[n := NUL])"
    using n len nul_free_render [OF nm] tk by (intro cstr_prefix) simp_all
  then have "cstr (b[n := NUL]) = render cs" using tk by simp
  moreover have "wr b n NUL = Some (b[n := NUL])" using n len by (simp add: wr_def)
  moreover have "(if dst > 1 then rd b (dst - 1) else Some NUL) = Some c"
    using len by (auto simp: c_def rd_def)
  ultimately show ?thesis using len by (auto simp: n_def)
qed

definition is_absolute :: "string \<Rightarrow> bool" where
  "is_absolute path \<longleftrightarrow> path \<noteq> [] \<and> path ! 0 = SLASH"

lemma vfs_realpath_resolve:
  assumes len: "length buf = FTP_MAX_PATH" and nm: "list_all is_name cs"
    and fits: "length (render cs) < FTP_MAX_PATH" and nf: "nul_free path"
  shows "\<exists>b. length b = FTP_MAX_PATH \<and>
    (case resolve (if is_absolute path then [] else cs) (split_path path) of
       Inl e \<Rightarrow> vfs_realpath buf (render cs) path = Some (b, Inl e)
     | Inr cs' \<Rightarrow> vfs_realpath buf (render cs) path = Some (b, Inr ()) \<and> cstr b = render cs')"
proof -
  define ds where "ds = (if is_absolute path then [] else cs)"
  obtain b0 d0 where start: "(if path \<noteq> [] \<and> path ! 0 = SLASH
        then do { v \<leftarrow> wr buf 0 SLASH; Some (v, Inr 1) }
        else do { (len, v) \<leftarrow> strlcpy buf (render cs) FTP_MAX_PATH;
          if len \<ge> FTP_MAX_PATH then do { v \<leftarrow> wr v 0 NUL; Some (v, Inl ENAMETOOLONG) }
          else Some (v, Inr len) }) = Some (b0, Inr d0)"
    and r0: "represents b0 d0 ds"
  proof (cases "is_absolute path")
    case True
    have w: "wr buf 0 SLASH = Some (buf[0 := SLASH])" using len by (simp add: wr_def FTP_MAX_PATH_def)
    have "represents (buf[0 := SLASH]) 1 ds"
      using True len take_wr [OF w] by (simp add: represents_def ds_def FTP_MAX_PATH_def)
    with True w that show ?thesis by (simp add: is_absolute_def)
  next
    case False
    obtain d where d: "strlcpy buf (render cs) FTP_MAX_PATH = Some (length (render cs), d)"
      "length d = length buf" "take (length (render cs)) d = render cs"
      using strlcpy_fits [of "render cs" FTP_MAX_PATH buf] nul_free_render [OF nm] fits len by auto
    have "represents d (length (render cs)) ds"
      using False d len nm fits by (simp add: represents_def ds_def)
    with False d that fits show ?thesis by (auto simp: is_absolute_def)
  qed
  obtain b where b: "length b = FTP_MAX_PATH" and lp: "case resolve ds (split_path path) of
      Inl e \<Rightarrow> realpath_loop b0 d0 path = Some (b, Inl e)
    | Inr cs' \<Rightarrow> \<exists>d. realpath_loop b0 d0 path = Some (b, Inr d) \<and> represents b d cs'"
    using realpath_loop_resolve [OF r0 nf] by blast
  show ?thesis
  proof (cases "resolve ds (split_path path)")
    case (Inl e)
    with lp b start show ?thesis
      by (intro exI [of _ b]) (simp add: vfs_realpath_def ds_def)
  next
    case (Inr cs')
    with lp obtain d where d: "realpath_loop b0 d0 path = Some (b, Inr d)" "represents b d cs'"
      by auto
    obtain c b' where f: "(if d > 1 then rd b (d - 1) else Some NUL) = Some c"
      "wr b (if d > 1 \<and> c = SLASH then d - 1 else d) NUL = Some b'"
      "length b' = FTP_MAX_PATH" "cstr b' = render cs'"
      using represents_finish [OF d(2)] by blast
    have "vfs_realpath buf (render cs) path = Some (b', Inr ())"
      unfolding vfs_realpath_def start using d(1) f(1,2) by (simp add: Let_def)
    with Inr f(3,4) show ?thesis by (auto simp: ds_def)
  qed
qed

subsection \<open>Canonical paths\<close>

lemma first_comp_append: "SLASH \<notin> set c \<Longrightarrow> c \<noteq> [] \<Longrightarrow> r = [] \<or> hd r = SLASH \<Longrightarrow>
  first_comp (SLASH # c @ r) = c \<and> rest_comp (SLASH # c @ r) = r"
  by (cases c; cases r) (auto simp: first_comp_def rest_comp_def takeWhile_append
      dropWhile_append takeWhile_eq_all_conv)

lemma split_concat: "list_all is_name cs \<Longrightarrow> split_path (concat (map (\<lambda>c. SLASH # c) cs)) = cs"
proof (induction cs)
  case Nil
  then show ?case by (subst split_path.simps) (simp add: first_comp_def)
next
  case (Cons c cs)
  let ?r = "concat (map (\<lambda>c. SLASH # c) cs)"
  have r: "?r = [] \<or> hd ?r = SLASH" by (cases cs) auto
  have c: "SLASH \<notin> set c" "c \<noteq> []" using Cons.prems by (auto simp: is_name_def)
  have "first_comp (SLASH # c @ ?r) = c" "rest_comp (SLASH # c @ ?r) = ?r"
    using first_comp_append [OF c r] by auto
  then show ?case using Cons c by (subst split_path.simps) simp
qed

lemma split_path_render [simp]: "list_all is_name cs \<Longrightarrow> split_path (render cs) = cs"
proof (cases "cs = []")
  case True
  then show ?thesis by (subst split_path.simps) (simp add: first_comp_def)
qed (simp add: render_def split_concat)

lemma resolve_names:
  assumes "list_all is_name cs" and "length (render cs) < FTP_MAX_PATH"
    and "length (render (ds @ cs)) < FTP_MAX_PATH"
  shows "resolve ds cs = Inr (ds @ cs)"
  using assms
proof (induction cs arbitrary: ds)
  case (Cons c cs)
  have le: "length (render (ds @ [c])) \<le> length (render (ds @ c # cs))"
    by (simp add: render_def dirprefix_def)
  have "length (render cs) < FTP_MAX_PATH"
  proof (cases "cs = []")
    case False
    then show ?thesis using Cons.prems(2) by (simp add: render_def)
  qed (simp add: FTP_MAX_PATH_def)
  with Cons le show ?case by (auto simp: is_name_def simp del: render_snoc)
qed simp

lemma canonical_render:
  "list_all is_name cs \<Longrightarrow> length (render cs) < FTP_MAX_PATH \<Longrightarrow> canonical (render cs)"
  by (auto simp: canonical_def)

lemma canonical_split:
  assumes "canonical p"
  shows "list_all is_name (split_path p) \<and> render (split_path p) = p \<and> length p < FTP_MAX_PATH"
  using assms by (auto simp: canonical_def)

lemma canonical_nul_free: "canonical p \<Longrightarrow> nul_free p"
  by (auto simp: canonical_def nul_free_render)

lemma canonical_root [simp]: "canonical [SLASH]"
  using canonical_render [of "[]"] by (simp add: FTP_MAX_PATH_def)

lemma canonical_absolute: "canonical p \<Longrightarrow> is_absolute p"
  by (auto simp: canonical_def is_absolute_def simp flip: hd_conv_nth)

text \<open>
  The interface the file operations rely on: a resolver that is defined on canonical working
  directories, keeps its array well-formed and returns canonical paths. Chains of directory
  changes stay canonical whatever the client sends.
\<close>

locale path_resolver =
  fixes resolver :: "buf \<Rightarrow> string \<Rightarrow> string \<Rightarrow> (buf \<times> (errno + unit)) option"
    and wf_buf :: "buf \<Rightarrow> bool"
    and canon :: "string \<Rightarrow> bool"
  assumes resolver_defined:
      "wf_buf b \<Longrightarrow> canon cwd \<Longrightarrow> nul_free p \<Longrightarrow> \<exists>b' r. resolver b cwd p = Some (b', r)"
    and resolver_wf:
      "wf_buf b \<Longrightarrow> canon cwd \<Longrightarrow> nul_free p \<Longrightarrow> resolver b cwd p = Some (b', r) \<Longrightarrow> wf_buf b'"
    and resolver_canon:
      "wf_buf b \<Longrightarrow> canon cwd \<Longrightarrow> nul_free p \<Longrightarrow> resolver b cwd p = Some (b', Inr ()) \<Longrightarrow> canon (cstr b')"
begin

lemma resolver_cases:
  assumes "wf_buf b" and "canon cwd" and "nul_free p"
  obtains (err) b' e where "resolver b cwd p = Some (b', Inl e)" and "wf_buf b'"
    | (ok) b' where "resolver b cwd p = Some (b', Inr ())" and "wf_buf b'" and "canon (cstr b')"
proof -
  obtain b' r where r: "resolver b cwd p = Some (b', r)" using resolver_defined [OF assms] by blast
  have wf: "wf_buf b'" using resolver_wf [OF assms r] .
  show ?thesis
  proof (cases r)
    case (Inl e)
    with r wf err show ?thesis by simp
  next
    case (Inr u)
    with r have "resolver b cwd p = Some (b', Inr ())" by simp
    with resolver_canon [OF assms this] wf ok show ?thesis by simp
  qed
qed

end

lemma vfs_realpath_canonical_cases:
  assumes "length b = FTP_MAX_PATH" and "canonical cwd" and "nul_free p"
  shows "\<exists>b' r. vfs_realpath b cwd p = Some (b', r) \<and> length b' = FTP_MAX_PATH
    \<and> (r = Inr () \<longrightarrow> canonical (cstr b'))"
proof -
  let ?cs = "split_path cwd"
  have cs: "list_all is_name ?cs" "render ?cs = cwd" "length (render ?cs) < FTP_MAX_PATH"
    using canonical_split [OF assms(2)] by auto
  let ?ds = "if is_absolute p then [] else ?cs"
  have ds: "list_all is_name ?ds" "length (render ?ds) < FTP_MAX_PATH"
    using cs by (auto simp: FTP_MAX_PATH_def)
  obtain b' where b': "length b' = FTP_MAX_PATH" and r: "case resolve ?ds (split_path p) of
       Inl e \<Rightarrow> vfs_realpath b cwd p = Some (b', Inl e)
     | Inr cs' \<Rightarrow> vfs_realpath b cwd p = Some (b', Inr ()) \<and> cstr b' = render cs'"
    using vfs_realpath_resolve [OF assms(1) cs(1,3) assms(3), unfolded cs(2)] by blast
  show ?thesis
  proof (cases "resolve ?ds (split_path p)")
    case (Inl e)
    with r b' show ?thesis by auto
  next
    case (Inr cs')
    have "list_all is_name cs' \<and> length (render cs') < FTP_MAX_PATH"
      by (rule resolve_sound [OF ds split_path_names [OF assms(3)] Inr])
    with r b' Inr show ?thesis by (auto simp: canonical_render)
  qed
qed

interpretation realpath: path_resolver vfs_realpath "\<lambda>b. length b = FTP_MAX_PATH" canonical
proof unfold_locales
  fix b :: buf and cwd p b' r
  assume a: "length b = FTP_MAX_PATH" "canonical cwd" "nul_free p"
  show "\<exists>b' r. vfs_realpath b cwd p = Some (b', r)"
    using vfs_realpath_canonical_cases [OF a] by blast
  show "vfs_realpath b cwd p = Some (b', r) \<Longrightarrow> length b' = FTP_MAX_PATH"
    using vfs_realpath_canonical_cases [OF a] by auto
  show "vfs_realpath b cwd p = Some (b', Inr ()) \<Longrightarrow> canonical (cstr b')"
    using vfs_realpath_canonical_cases [OF a] by auto
qed

subsection \<open>Properties\<close>

lemma realpath_from_canonical:
  assumes "length buf = FTP_MAX_PATH" and "canonical cwd" and "nul_free path"
  shows "\<exists>b. length b = FTP_MAX_PATH \<and>
    (case resolve (if is_absolute path then [] else split_path cwd) (split_path path) of
       Inl e \<Rightarrow> vfs_realpath buf cwd path = Some (b, Inl e)
     | Inr cs' \<Rightarrow> vfs_realpath buf cwd path = Some (b, Inr ()) \<and> cstr b = render cs')"
proof -
  have c: "list_all is_name (split_path cwd)" "render (split_path cwd) = cwd"
    "length (render (split_path cwd)) < FTP_MAX_PATH"
    using canonical_split [OF assms(2)] by auto
  show ?thesis
    by (rule vfs_realpath_resolve [OF assms(1) c(1,3) assms(3), unfolded c(2)])
qed

lemma canonical_lit_pub: "canonical ''/pub''"
  using canonical_render [of "[''pub'']"]
  by (simp add: is_name_def render_def nul_free_def FTP_MAX_PATH_def)

text \<open>C1. \<open>vfs_realpath\<close> implements path resolution on component lists: whatever the contents of the
  array, from a canonical working directory and any client path it returns, it reports
  \<open>ENAMETOOLONG\<close> exactly when the specification does, and otherwise leaves in the array the rendering
  of the resolved list of names.\<close>

theorem realpath_refines_resolve:
  assumes "length buf = FTP_MAX_PATH" and "canonical cwd" and "nul_free path"
  shows "\<exists>b. length b = FTP_MAX_PATH \<and>
    (case resolve (if is_absolute path then [] else split_path cwd) (split_path path) of
       Inl e \<Rightarrow> e = ENAMETOOLONG \<and> vfs_realpath buf cwd path = Some (b, Inl ENAMETOOLONG)
     | Inr cs \<Rightarrow> vfs_realpath buf cwd path = Some (b, Inr ()) \<and> cstr b = render cs
         \<and> list_all is_name cs \<and> length (render cs) < FTP_MAX_PATH)"
proof -
  let ?ds = "if is_absolute path then [] else split_path cwd"
  have ds: "list_all is_name ?ds" "length (render ?ds) < FTP_MAX_PATH"
    using canonical_split [OF assms(2)] by (auto simp: FTP_MAX_PATH_def)
  show ?thesis
    using realpath_from_canonical [OF assms] resolve_sound [OF ds split_path_names [OF assms(3)]]
    by (cases "resolve ?ds (split_path path)") (auto dest: resolve_error)
qed

theorem realpath_refines_resolve_witness:
  "\<exists>b. vfs_realpath (replicate FTP_MAX_PATH NUL) ''/pub'' ''../etc/./passwd'' = Some (b, Inr ())
     \<and> cstr b = ''/etc/passwd''"
proof -
  have "split_path ''../etc/./passwd'' = [''..'', ''etc'', ''.'', ''passwd'']"
    "split_path ''/pub'' = [''pub'']"
    by (simp_all add: split_path.simps first_comp_def rest_comp_def)
  then show ?thesis
    using realpath_refines_resolve [of "replicate FTP_MAX_PATH NUL" "''/pub''" "''../etc/./passwd''"]
      canonical_lit_pub
    by (auto simp: is_absolute_def nul_free_def render_def FTP_MAX_PATH_def dirprefix_def)
qed

text \<open>A canonical path is a fixed point: resolving it from anywhere gives it back unchanged, so the
  working directory reported to the client always leads back to the same place.\<close>

lemma realpath_canonical_fixed:
  assumes "length buf = FTP_MAX_PATH" and "canonical cwd" and "canonical path"
  shows "\<exists>b. vfs_realpath buf cwd path = Some (b, Inr ()) \<and> cstr b = path"
proof -
  have c: "list_all is_name (split_path path)" "render (split_path path) = path"
    "length (render (split_path path)) < FTP_MAX_PATH"
    using canonical_split [OF assms(3)] by auto
  have "resolve [] (split_path path) = Inr (split_path path)"
    using resolve_names [of "split_path path" "[]"] c by simp
  with realpath_from_canonical [OF assms(1,2) canonical_nul_free [OF assms(3)]]
    canonical_absolute [OF assms(3)] c
  show ?thesis by auto
qed

lemma realpath_canonical_fixed_example:
  "\<exists>b. vfs_realpath (replicate FTP_MAX_PATH NUL) ''/'' ''/pub'' = Some (b, Inr ()) \<and> cstr b = ''/pub''"
  by (rule realpath_canonical_fixed) (simp_all add: canonical_lit_pub)

text \<open>\<open>..\<close> goes to the parent directory, and stays at the root: no number of \<open>..\<close> components
  leads out of it.\<close>

lemma realpath_parent:
  assumes "length buf = FTP_MAX_PATH" and "canonical cwd"
  shows "\<exists>b. vfs_realpath buf cwd ''..'' = Some (b, Inr ())
    \<and> cstr b = render (butlast (split_path cwd))"
proof -
  have s: "split_path ''..'' = [''..'']"
    by (simp add: split_path.simps first_comp_def rest_comp_def)
  show ?thesis
    using realpath_from_canonical [OF assms, of "''..''"]
    by (auto simp: s is_absolute_def nul_free_def)
qed

theorem realpath_parent_witness:
  "\<exists>b. vfs_realpath (replicate FTP_MAX_PATH NUL) ''/'' ''..'' = Some (b, Inr ()) \<and> cstr b = ''/''"
  using realpath_parent [of "replicate FTP_MAX_PATH NUL" "''/''"]
  by (simp add: split_path.simps [of "''/''"] first_comp_def)

end
