(* ===== verification/Ftp_World.thy ===== *)
theory Ftp_World
  imports Ftp_Config Ftp_Clock Ftp_Realpath
begin

text \<open>
  The state of a server process and the operating system it talks to.

  \<^item> The records of \<open>server.h\<close>: connection, command, login, transfer information, session.
  \<^item> \<open>'o os\<close>: the system calls and library functions outside the repository, as functions on an
    arbitrary operating system state \<open>'o\<close>. Nothing is assumed about them here; where a property
    needs a documented behaviour, it states it as a named hypothesis (\<open>sends_ok\<close>, \<open>mem_ok\<close>).
  \<^item> \<open>'o world\<close>: the process: operating system, \<open>errno\<close>, the static variables of the source files
    (signal flags, configuration, the three buffers called pools) and the session. Two fields
    record effects for the specifications only: the bytes handed to each descriptor and the open
    descriptors.
  \<^item> The signal handler of \<open>signals.c\<close> and \<open>server_handle_signal\<close> of \<open>server.c\<close>.
\<close>

subsection \<open>Records of \<open>server.h\<close>\<close>

type_synonym in_addr = "char list"

record ftp_command =
  c_line :: buf
  c_line_len :: nat
  c_dirty_len :: nat
  c_arg :: string
  c_len :: nat

record ftp_conn =
  master_pipe :: int
  sock :: int
  pasv_sock :: int
  data_sock :: int
  host_addr :: in_addr
  client_addr :: in_addr

text \<open>A \<open>char *\<close> that may be indeterminate (never written), null, or a string.\<close>

datatype cptr = Indeterminate | Null | Ptr string

record ftp_login =
  logged_in :: bool
  anonymous :: bool
  user :: cptr

record ftp_xfer_info =
  total_down :: "64 word"
  total_up :: "64 word"
  xfer_len :: "64 word"
  probe_len :: "64 word"
  xfer_status :: int
  xfer_start :: timeval
  xfer_probe :: timeval

record ftp_session =
  conn :: ftp_conn
  command :: ftp_command
  login :: ftp_login
  info :: ftp_xfer_info
  virt_path :: buf
  filename :: buf
  restart_pos :: int

definition COMMAND_BUFFER_SIZE :: nat where "COMMAND_BUFFER_SIZE = 1024"
definition RESPONSE_BUFFER_SIZE :: nat where "RESPONSE_BUFFER_SIZE = 1024"

subsection \<open>The operating system\<close>

record stat =
  st_mode :: mode_t
  st_size :: int
  st_mtime :: int
  st_nlink :: nat
  st_uid :: nat
  st_gid :: nat

datatype signal = SIGINT | SIGTERM | SIGHUP | SIGPIPE | SIGCHLD | SIGOTHER nat

record 'o os_net =
  net_send :: "int \<Rightarrow> char list \<Rightarrow> 'o \<Rightarrow> (errno + nat) \<times> 'o"
  net_recv :: "int \<Rightarrow> nat \<Rightarrow> 'o \<Rightarrow> (errno + char list) \<times> 'o"
  net_poll :: "int \<Rightarrow> int \<Rightarrow> 'o \<Rightarrow> (errno + nat) \<times> 'o"
  net_accept :: "int \<Rightarrow> 'o \<Rightarrow> (errno + int \<times> in_addr) \<times> 'o"
  net_socket :: "'o \<Rightarrow> (errno + int) \<times> 'o"
  net_bind :: "int \<Rightarrow> int \<Rightarrow> 'o \<Rightarrow> (errno + unit) \<times> 'o"
  net_listen :: "int \<Rightarrow> 'o \<Rightarrow> (errno + unit) \<times> 'o"
  net_getsockname :: "int \<Rightarrow> 'o \<Rightarrow> (errno + in_addr \<times> nat) \<times> 'o"
  net_getpeername :: "int \<Rightarrow> 'o \<Rightarrow> (errno + in_addr) \<times> 'o"
  net_close :: "int \<Rightarrow> 'o \<Rightarrow> (errno + unit) \<times> 'o"
  net_poll2 :: "int \<Rightarrow> int \<Rightarrow> 'o \<Rightarrow> (errno + nat \<times> bool \<times> bool) \<times> 'o"
  net_setsockopt :: "int \<Rightarrow> 'o \<Rightarrow> (errno + unit) \<times> 'o"
  net_pipe :: "'o \<Rightarrow> (errno + int \<times> int) \<times> 'o"

record 'o os_fs =
  fs_lstat :: "string \<Rightarrow> 'o \<Rightarrow> (errno + stat) \<times> 'o"
  fs_stat :: "string \<Rightarrow> 'o \<Rightarrow> (errno + stat) \<times> 'o"
  fs_open :: "string \<Rightarrow> 'o \<Rightarrow> (errno + int) \<times> 'o"
  fs_creat :: "string \<Rightarrow> nat \<Rightarrow> 'o \<Rightarrow> (errno + int) \<times> 'o"
  fs_mkdir :: "string \<Rightarrow> nat \<Rightarrow> 'o \<Rightarrow> (errno + unit) \<times> 'o"
  fs_rmdir :: "string \<Rightarrow> 'o \<Rightarrow> (errno + unit) \<times> 'o"
  fs_unlink :: "string \<Rightarrow> 'o \<Rightarrow> (errno + unit) \<times> 'o"
  fs_opendir :: "string \<Rightarrow> 'o \<Rightarrow> (errno + int) \<times> 'o"
  fs_readdir :: "int \<Rightarrow> 'o \<Rightarrow> string option \<times> 'o"
  fs_closedir :: "int \<Rightarrow> 'o \<Rightarrow> (errno + unit) \<times> 'o"

record 'o os_io =
  io_lseek :: "int \<Rightarrow> int \<Rightarrow> 'o \<Rightarrow> (errno + int) \<times> 'o"
  io_sendfile :: "int \<Rightarrow> int \<Rightarrow> int option \<Rightarrow> nat \<Rightarrow> 'o \<Rightarrow> (errno + nat) \<times> 'o"
  io_read :: "int \<Rightarrow> nat \<Rightarrow> 'o \<Rightarrow> (errno + char list) \<times> 'o"
  io_write :: "int \<Rightarrow> char list \<Rightarrow> 'o \<Rightarrow> (errno + nat) \<times> 'o"
  io_writev :: "int \<Rightarrow> char list list \<Rightarrow> 'o \<Rightarrow> (errno + nat) \<times> 'o"
  io_gettimeofday :: "'o \<Rightarrow> timeval \<times> 'o"
  io_nanosleep :: "int \<times> int \<Rightarrow> 'o \<Rightarrow> (int \<times> int) option \<times> 'o"

record 'o os_proc =
  proc_malloc :: "nat \<Rightarrow> 'o \<Rightarrow> bool \<times> 'o"
  proc_getpid :: "'o \<Rightarrow> int"
  proc_setuid :: "nat \<Rightarrow> 'o \<Rightarrow> (errno + unit) \<times> 'o"
  proc_getpwnam :: "string \<Rightarrow> 'o \<Rightarrow> (nat \<times> string) option \<times> 'o"
  proc_getspnam :: "string \<Rightarrow> 'o \<Rightarrow> string option \<times> 'o"
  proc_crypt :: "string \<Rightarrow> string \<Rightarrow> 'o \<Rightarrow> string option \<times> 'o"
  proc_signals :: "'o \<Rightarrow> signal list \<times> 'o"
  proc_strerror :: "errno \<Rightarrow> string"
  proc_time :: "'o \<Rightarrow> int \<times> 'o"
  proc_fork :: "'o \<Rightarrow> (errno + int) \<times> 'o"
  proc_waitpid :: "'o \<Rightarrow> int \<times> 'o"
  proc_kill :: "int \<Rightarrow> 'o \<Rightarrow> (errno + unit) \<times> 'o"

record 'o os =
  os_net :: "'o os_net"
  os_fs :: "'o os_fs"
  os_io :: "'o os_io"
  os_proc :: "'o os_proc"

abbreviation sys_send where "sys_send os \<equiv> net_send (os_net os)"
abbreviation sys_recv where "sys_recv os \<equiv> net_recv (os_net os)"
abbreviation sys_poll where "sys_poll os \<equiv> net_poll (os_net os)"
abbreviation sys_accept where "sys_accept os \<equiv> net_accept (os_net os)"
abbreviation sys_socket where "sys_socket os \<equiv> net_socket (os_net os)"
abbreviation sys_bind where "sys_bind os \<equiv> net_bind (os_net os)"
abbreviation sys_listen where "sys_listen os \<equiv> net_listen (os_net os)"
abbreviation sys_getsockname where "sys_getsockname os \<equiv> net_getsockname (os_net os)"
abbreviation sys_getpeername where "sys_getpeername os \<equiv> net_getpeername (os_net os)"
abbreviation sys_close where "sys_close os \<equiv> net_close (os_net os)"
abbreviation sys_lstat where "sys_lstat os \<equiv> fs_lstat (os_fs os)"
abbreviation sys_stat where "sys_stat os \<equiv> fs_stat (os_fs os)"
abbreviation sys_open where "sys_open os \<equiv> fs_open (os_fs os)"
abbreviation sys_creat where "sys_creat os \<equiv> fs_creat (os_fs os)"
abbreviation sys_mkdir where "sys_mkdir os \<equiv> fs_mkdir (os_fs os)"
abbreviation sys_rmdir where "sys_rmdir os \<equiv> fs_rmdir (os_fs os)"
abbreviation sys_unlink where "sys_unlink os \<equiv> fs_unlink (os_fs os)"
abbreviation sys_opendir where "sys_opendir os \<equiv> fs_opendir (os_fs os)"
abbreviation sys_readdir where "sys_readdir os \<equiv> fs_readdir (os_fs os)"
abbreviation sys_closedir where "sys_closedir os \<equiv> fs_closedir (os_fs os)"
abbreviation sys_lseek where "sys_lseek os \<equiv> io_lseek (os_io os)"
abbreviation sys_sendfile where "sys_sendfile os \<equiv> io_sendfile (os_io os)"
abbreviation sys_read where "sys_read os \<equiv> io_read (os_io os)"
abbreviation sys_write where "sys_write os \<equiv> io_write (os_io os)"
abbreviation sys_writev where "sys_writev os \<equiv> io_writev (os_io os)"
abbreviation sys_gettimeofday where "sys_gettimeofday os \<equiv> io_gettimeofday (os_io os)"
abbreviation sys_nanosleep where "sys_nanosleep os \<equiv> io_nanosleep (os_io os)"
abbreviation sys_malloc where "sys_malloc os \<equiv> proc_malloc (os_proc os)"
abbreviation sys_getpid where "sys_getpid os \<equiv> proc_getpid (os_proc os)"
abbreviation sys_setuid where "sys_setuid os \<equiv> proc_setuid (os_proc os)"
abbreviation sys_getpwnam where "sys_getpwnam os \<equiv> proc_getpwnam (os_proc os)"
abbreviation sys_getspnam where "sys_getspnam os \<equiv> proc_getspnam (os_proc os)"
abbreviation sys_crypt where "sys_crypt os \<equiv> proc_crypt (os_proc os)"
abbreviation sys_signals where "sys_signals os \<equiv> proc_signals (os_proc os)"
abbreviation sys_poll2 where "sys_poll2 os \<equiv> net_poll2 (os_net os)"
abbreviation sys_setsockopt where "sys_setsockopt os \<equiv> net_setsockopt (os_net os)"
abbreviation sys_pipe where "sys_pipe os \<equiv> net_pipe (os_net os)"
abbreviation sys_time where "sys_time os \<equiv> proc_time (os_proc os)"
abbreviation sys_fork where "sys_fork os \<equiv> proc_fork (os_proc os)"
abbreviation sys_waitpid where "sys_waitpid os \<equiv> proc_waitpid (os_proc os)"
abbreviation sys_kill where "sys_kill os \<equiv> proc_kill (os_proc os)"
abbreviation sys_strerror where "sys_strerror os \<equiv> proc_strerror (os_proc os)"

record 'o world =
  w_os :: 'o
  w_errno :: errno
  w_signal_flag :: "32 word"
  w_config :: ftp_config
  w_reply_pool :: "buf option"
  w_vfs :: "(string \<times> buf) option"
  w_state_pool :: "buf option"
  w_session :: ftp_session
  w_out :: "int \<Rightarrow> char list"
  w_fds :: "int set"

type_synonym 'o handler = "'o os \<Rightarrow> 'o world \<Rightarrow> (int \<times> 'o world) option"

text \<open>A system call: its result, with \<open>errno\<close> set on failure.\<close>

definition os_call :: "('o \<Rightarrow> (errno + 'a) \<times> 'o) \<Rightarrow> 'o world \<Rightarrow> (errno + 'a) \<times> 'o world" where
  "os_call f w = (let (r, o') = f (w_os w) in
     (r, case r of Inl e \<Rightarrow> w\<lparr>w_os := o', w_errno := e\<rparr> | Inr _ \<Rightarrow> w\<lparr>w_os := o'\<rparr>))"

definition os_query :: "('o \<Rightarrow> 'a \<times> 'o) \<Rightarrow> 'o world \<Rightarrow> 'a \<times> 'o world" where
  "os_query f w = (let (r, o') = f (w_os w) in (r, w\<lparr>w_os := o'\<rparr>))"

text \<open>Calls that create a descriptor, and \<open>close\<close>.\<close>

definition os_newfd :: "('o \<Rightarrow> (errno + int) \<times> 'o) \<Rightarrow> 'o world \<Rightarrow> (errno + int) \<times> 'o world" where
  "os_newfd f w = (case os_call f w of
       (Inl e, w) \<Rightarrow> (Inl e, w)
     | (Inr fd, w) \<Rightarrow> (Inr fd, w\<lparr>w_fds := insert fd (w_fds w)\<rparr>))"

definition c_close :: "'o os \<Rightarrow> int \<Rightarrow> 'o world \<Rightarrow> 'o world" where
  "c_close os fd w = (let w = snd (os_call (sys_close os fd) w) in w\<lparr>w_fds := w_fds w - {fd}\<rparr>)"

definition c_malloc :: "'o os \<Rightarrow> nat \<Rightarrow> 'o world \<Rightarrow> bool \<times> 'o world" where
  "c_malloc os n w = os_query (sys_malloc os n) w"

text \<open>Updates of the parts of the session.\<close>

definition upd_session :: "(ftp_session \<Rightarrow> ftp_session) \<Rightarrow> 'o world \<Rightarrow> 'o world" where
  "upd_session f w = w\<lparr>w_session := f (w_session w)\<rparr>"

definition upd_conn :: "(ftp_conn \<Rightarrow> ftp_conn) \<Rightarrow> 'o world \<Rightarrow> 'o world" where
  "upd_conn f = upd_session (\<lambda>s. s\<lparr>conn := f (conn s)\<rparr>)"

definition upd_command :: "(ftp_command \<Rightarrow> ftp_command) \<Rightarrow> 'o world \<Rightarrow> 'o world" where
  "upd_command f = upd_session (\<lambda>s. s\<lparr>command := f (command s)\<rparr>)"

definition upd_login :: "(ftp_login \<Rightarrow> ftp_login) \<Rightarrow> 'o world \<Rightarrow> 'o world" where
  "upd_login f = upd_session (\<lambda>s. s\<lparr>login := f (login s)\<rparr>)"

definition upd_info :: "(ftp_xfer_info \<Rightarrow> ftp_xfer_info) \<Rightarrow> 'o world \<Rightarrow> 'o world" where
  "upd_info f = upd_session (\<lambda>s. s\<lparr>info := f (info s)\<rparr>)"

abbreviation w_conn :: "'o world \<Rightarrow> ftp_conn" where "w_conn w \<equiv> conn (w_session w)"
abbreviation w_command :: "'o world \<Rightarrow> ftp_command" where "w_command w \<equiv> command (w_session w)"
abbreviation w_login :: "'o world \<Rightarrow> ftp_login" where "w_login w \<equiv> login (w_session w)"
abbreviation w_info :: "'o world \<Rightarrow> ftp_xfer_info" where "w_info w \<equiv> info (w_session w)"
abbreviation w_arg :: "'o world \<Rightarrow> string" where "w_arg w \<equiv> c_arg (w_command w)"
abbreviation w_cwd :: "'o world \<Rightarrow> string" where "w_cwd w \<equiv> cstr (virt_path (w_session w))"

subsection \<open>Signals\<close>

definition RECV_SIGINT :: "32 word" where "RECV_SIGINT = 1"
definition RECV_SIGTERM :: "32 word" where "RECV_SIGTERM = 2"
definition RECV_SIGHUP :: "32 word" where "RECV_SIGHUP = 4"
definition RECV_SIGPIPE :: "32 word" where "RECV_SIGPIPE = 8"
definition RECV_SIGCHLD :: "32 word" where "RECV_SIGCHLD = 16"
definition RECV_SIGOTHER :: "32 word" where "RECV_SIGOTHER = 32"

definition signal_handler :: "32 word \<Rightarrow> signal \<Rightarrow> 32 word" where
  "signal_handler signal_flag sig = (case sig of
       SIGINT \<Rightarrow> or signal_flag RECV_SIGINT
     | SIGTERM \<Rightarrow> or signal_flag RECV_SIGTERM
     | SIGHUP \<Rightarrow> or signal_flag RECV_SIGHUP
     | SIGPIPE \<Rightarrow> or signal_flag RECV_SIGPIPE
     | SIGCHLD \<Rightarrow> or signal_flag RECV_SIGCHLD
     | SIGOTHER _ \<Rightarrow> or signal_flag RECV_SIGOTHER)"

text \<open>The signals that arrived since the flag was last looked at.\<close>

definition deliver :: "'o os \<Rightarrow> 'o world \<Rightarrow> 'o world" where
  "deliver os w = (let (sigs, w) = os_query (sys_signals os) w in
     w\<lparr>w_signal_flag := foldl signal_handler (w_signal_flag w) sigs\<rparr>)"

definition clear_flag :: "32 word \<Rightarrow> 32 word \<Rightarrow> 32 word" where
  "clear_flag flag b = (if and flag b \<noteq> 0 then and flag (not b) else flag)"

text \<open>
  \<open>server_handle_signal\<close>; signals are blocked between the delivery and the end, so nothing changes
  the flag in between.
\<close>

definition server_handle_signal :: "'o os \<Rightarrow> 'o world \<Rightarrow> int \<times> 'o world" where
  "server_handle_signal os w = (let
     w = deliver os w;
     flag = clear_flag (w_signal_flag w) RECV_SIGCHLD;
     flag = clear_flag flag RECV_SIGPIPE
   in if flag \<noteq> 0 then (FTP_QUIT, w\<lparr>w_signal_flag := 0\<rparr>)
      else (FTP_SUCCESS, w\<lparr>w_signal_flag := flag\<rparr>))"

subsection \<open>Sending bytes: \<open>sendall\<close>, \<open>reply\<close>, \<open>reply_format\<close>\<close>

text \<open>
  \<open>sendall\<close> retries on \<open>EINTR\<close> and continues after a partial send, so it may run for as long as the
  system interrupts it; not returning is \<open>None\<close>.
\<close>

partial_function (option) sendall_loop ::
  "'o os \<Rightarrow> int \<Rightarrow> char list \<Rightarrow> nat \<Rightarrow> 'o world \<Rightarrow> (int \<times> 'o world) option" where
  "sendall_loop os fd buf tot w =
     (if \<not> tot < length buf then Some (int tot, w)
      else (case os_call (sys_send os fd (drop tot buf)) w of
          (Inl e, w) \<Rightarrow> if e = EINTR then sendall_loop os fd buf tot w else Some (-1, w)
        | (Inr n, w) \<Rightarrow> sendall_loop os fd buf (tot + n)
            (w\<lparr>w_out := (w_out w)(fd := w_out w fd @ take n (drop tot buf))\<rparr>)))"

declare sendall_loop.simps [code]

definition sendall :: "'o os \<Rightarrow> int \<Rightarrow> char list \<Rightarrow> 'o world \<Rightarrow> (int \<times> 'o world) option" where
  "sendall os fd buf w = sendall_loop os fd buf 0 w"

definition reply :: "'o os \<Rightarrow> ftp_conn \<Rightarrow> string \<Rightarrow> 'o world \<Rightarrow> (int \<times> 'o world) option" where
  "reply os con msg w = sendall os (sock con) msg w"

text \<open>\<open>vsnprintf(b, size, ...)\<close> of the text \<open>s\<close>.\<close>

definition snprintf_buf :: "buf \<Rightarrow> nat \<Rightarrow> string \<Rightarrow> buf option" where
  "snprintf_buf b sz s = do {
     b \<leftarrow> blit b 0 (take (sz - 1) s);
     wr b (min (sz - 1) (length s)) NUL }"

definition reply_format :: "'o os \<Rightarrow> ftp_conn \<Rightarrow> string \<Rightarrow> 'o world \<Rightarrow> (int \<times> 'o world) option" where
  "reply_format os con text w = (case w_reply_pool w of
       None \<Rightarrow> None
     | Some pool \<Rightarrow> do {
         pool \<leftarrow> snprintf_buf pool RESPONSE_BUFFER_SIZE text;
         reply os con (cstr pool) (w\<lparr>w_reply_pool := Some pool\<rparr>) })"

definition init_reply_pool :: "'o os \<Rightarrow> 'o world \<Rightarrow> int \<times> 'o world" where
  "init_reply_pool os w = (case c_malloc os RESPONSE_BUFFER_SIZE w of
       (False, w) \<Rightarrow> (FTP_ERROR, w\<lparr>w_reply_pool := None\<rparr>)
     | (True, w) \<Rightarrow> (FTP_SUCCESS, w\<lparr>w_reply_pool := Some (replicate RESPONSE_BUFFER_SIZE NUL)\<rparr>))"

definition destroy_reply_pool :: "'o world \<Rightarrow> 'o world" where
  "destroy_reply_pool w = w\<lparr>w_reply_pool := None\<rparr>"

end
