(* ===== verification/Ftp_Frame.thy ===== *)
theory Ftp_Frame
  imports Ftp_World
begin

text \<open>
  What the primitives of the process state leave alone, and the conditions on the operating system
  that the properties name.

  \<open>quiet w w'\<close> says that a step changed at most the operating system, \<open>errno\<close>, the signal flags, the
  bytes sent, the open descriptors and the contents of the reply buffer. Invariants of the session
  are proved by composing \<open>quiet\<close> steps (the collection \<open>frame\<close>) with the explicit updates.
\<close>

definition reply_pool_ok :: "'o world \<Rightarrow> bool" where
  "reply_pool_ok w \<longleftrightarrow> (\<exists>b. w_reply_pool w = Some b \<and> length b = RESPONSE_BUFFER_SIZE)"

definition quiet :: "'o world \<Rightarrow> 'o world \<Rightarrow> bool" where
  "quiet w w' \<longleftrightarrow> w_session w' = w_session w \<and> w_config w' = w_config w \<and> w_vfs w' = w_vfs w
     \<and> w_state_pool w' = w_state_pool w \<and> (reply_pool_ok w \<longrightarrow> reply_pool_ok w')"

lemma quiet_refl [simp, intro]: "quiet w w"
  by (simp add: quiet_def)

lemma quiet_trans [trans]: "quiet u v \<Longrightarrow> quiet v w \<Longrightarrow> quiet u w"
  by (simp add: quiet_def)

lemma quietD:
  assumes "quiet w w'"
  shows "w_session w' = w_session w" and "w_config w' = w_config w" and "w_vfs w' = w_vfs w"
    and "w_state_pool w' = w_state_pool w"
  using assms by (simp_all add: quiet_def)

lemma quiet_pool: "quiet w w' \<Longrightarrow> reply_pool_ok w \<Longrightarrow> reply_pool_ok w'"
  by (simp add: quiet_def)

lemma quiet_upd [simp]:
  "quiet w (w\<lparr>w_os := a\<rparr>)" "quiet w (w\<lparr>w_errno := e\<rparr>)" "quiet w (w\<lparr>w_signal_flag := f\<rparr>)"
  "quiet w (w\<lparr>w_out := s\<rparr>)" "quiet w (w\<lparr>w_fds := fd\<rparr>)"
  by (simp_all add: quiet_def reply_pool_ok_def)

lemma quiet_errno: "quiet u w \<Longrightarrow> quiet u (w\<lparr>w_errno := e\<rparr>)"
  by (simp add: quiet_def reply_pool_ok_def)

lemma os_call_quiet [frame]: "os_call f w = (r, w') \<Longrightarrow> quiet w w'"
  by (auto simp: os_call_def quiet_def reply_pool_ok_def split: prod.splits sum.splits)

lemma os_query_quiet [frame]: "os_query f w = (r, w') \<Longrightarrow> quiet w w'"
  by (auto simp: os_query_def split: prod.splits)

lemma os_newfd_quiet [frame]: "os_newfd f w = (r, w') \<Longrightarrow> quiet w w'"
  by (auto simp: os_newfd_def os_call_def quiet_def reply_pool_ok_def
      split: prod.splits sum.splits)

lemma c_malloc_quiet [frame]: "c_malloc os n w = (r, w') \<Longrightarrow> quiet w w'"
  by (simp add: c_malloc_def os_query_quiet)

lemma c_close_quiet [frame, simp]: "quiet w (c_close os fd w)"
  by (auto simp: c_close_def Let_def os_call_def quiet_def reply_pool_ok_def
      split: prod.splits sum.splits)

lemma deliver_quiet [frame, simp]: "quiet w (deliver os w)"
  by (auto simp: deliver_def os_query_def split: prod.splits) (simp add: quiet_def reply_pool_ok_def)

lemma server_handle_signal_quiet [frame]: "server_handle_signal os w = (r, w') \<Longrightarrow> quiet w w'"
  using deliver_quiet [of w os]
  by (auto simp: server_handle_signal_def Let_def quiet_def reply_pool_ok_def split: if_splits)

lemma sendall_loop_quiet:
  assumes "sendall_loop os fd buf n w = Some (r, w')"
  shows "quiet w w' \<and> w_fds w' = w_fds w"
proof -
  have "quiet w (snd (r, w')) \<and> w_fds (snd (r, w')) = w_fds w"
  proof (rule sendall_loop.raw_induct
      [where P = "\<lambda>os fd buf n w x. quiet w (snd x) \<and> w_fds (snd x) = w_fds w", OF _ assms])
    fix f and os :: "'a os" and fd buf n and w :: "'a world" and x
    assume IH: "\<And>os fd buf n w x. f os fd buf n w = Some x
        \<Longrightarrow> quiet w (snd x) \<and> w_fds (snd x) = w_fds w"
      and eq: "(if \<not> n < length buf then Some (int n, w)
         else case os_call (sys_send os fd (drop n buf)) w of
            (Inl e, w) \<Rightarrow> if e = EINTR then f os fd buf n w else Some (-1, w)
          | (Inr k, w) \<Rightarrow> f os fd buf (n + k)
              (w\<lparr>w_out := (w_out w)(fd := w_out w fd @ take k (drop n buf))\<rparr>)) = Some x"
    obtain r1 w1 where c: "os_call (sys_send os fd (drop n buf)) w = (r1, w1)" by force
    have q: "quiet w w1" by (rule os_call_quiet [OF c])
    have fds: "w_fds w1 = w_fds w"
      using c by (auto simp: os_call_def split: prod.splits sum.splits)
    show "quiet w (snd x) \<and> w_fds (snd x) = w_fds w"
    proof (cases "n < length buf")
      case True
      show ?thesis
      proof (cases r1)
        case (Inl e)
        show ?thesis
        proof (cases "e = EINTR")
          case eintr: True
          then have "f os fd buf n w1 = Some x" using True eq c Inl by simp
          with IH quiet_trans [OF q] fds show ?thesis by metis
        next
          case False
          then have "snd x = w1" using True eq c Inl by auto
          with q fds show ?thesis by simp
        qed
      next
        case (Inr k)
        let ?w2 = "w1\<lparr>w_out := (w_out w1)(fd := w_out w1 fd @ take k (drop n buf))\<rparr>"
        have "quiet w ?w2" using q quiet_upd(4) quiet_trans by blast
        moreover have "f os fd buf (n + k) ?w2 = Some x" using True eq c Inr by simp
        ultimately have "quiet w (snd x)" "w_fds (snd x) = w_fds ?w2"
          using IH quiet_trans by blast+
        with fds show ?thesis by simp
      qed
    qed (use eq in auto)
  qed
  then show ?thesis by simp
qed

lemma sendall_quiet [frame]: "sendall os fd buf w = Some (r, w') \<Longrightarrow> quiet w w'"
  by (drule sendall_loop_quiet [of os fd buf 0, folded sendall_def]) simp

lemma sendall_fds: "sendall os fd buf w = Some (r, w') \<Longrightarrow> w_fds w' = w_fds w"
  by (drule sendall_loop_quiet [of os fd buf 0, folded sendall_def]) simp

lemma reply_quiet [frame]: "reply os con msg w = Some (r, w') \<Longrightarrow> quiet w w'"
  by (simp add: reply_def sendall_quiet)

lemma snprintf_buf_length: "snprintf_buf b n s = Some b' \<Longrightarrow> length b' = length b"
  by (auto simp: snprintf_buf_def bind_eq_Some_conv buffer_simps)

lemma reply_format_quiet [frame]:
  assumes "reply_format os con text w = Some (r, w')"
  shows "quiet w w'"
proof -
  obtain b b' where b: "w_reply_pool w = Some b"
    "snprintf_buf b RESPONSE_BUFFER_SIZE text = Some b'"
    "reply os con (cstr b') (w\<lparr>w_reply_pool := Some b'\<rparr>) = Some (r, w')"
    using assms by (auto simp: reply_format_def bind_eq_Some_conv split: option.splits)
  have "quiet w (w\<lparr>w_reply_pool := Some b'\<rparr>)"
    using b snprintf_buf_length [OF b(2)] by (auto simp: quiet_def reply_pool_ok_def)
  also have "quiet \<dots> w'" using b(3) by (rule reply_quiet)
  finally show ?thesis .
qed

lemma reply_fds: "reply os con msg w = Some (r, w') \<Longrightarrow> w_fds w' = w_fds w"
  by (simp add: reply_def sendall_fds)

lemma reply_format_fds: "reply_format os con text w = Some (r, w') \<Longrightarrow> w_fds w' = w_fds w"
  by (simp add: reply_format_def bind_eq_Some_conv split: option.splits) (metis reply_fds world.select_convs(10) world.update_convs(5) world.surjective)

subsection \<open>Conditions on the operating system\<close>

text \<open>The control connection takes every byte of a send; memory is available.\<close>

definition sends_ok :: "'o os \<Rightarrow> bool" where
  "sends_ok os \<longleftrightarrow> (\<forall>fd d s. sys_send os fd d s = (Inr (length d), s))"

definition mem_ok :: "'o os \<Rightarrow> bool" where
  "mem_ok os \<longleftrightarrow> (\<forall>n s. sys_malloc os n s = (True, s))"

lemma mem_okD [simp]: "mem_ok os \<Longrightarrow> c_malloc os n w = (True, w)"
  by (simp add: mem_ok_def c_malloc_def os_query_def)

text \<open>The bytes the process has handed to a descriptor.\<close>

definition emit :: "int \<Rightarrow> char list \<Rightarrow> 'o world \<Rightarrow> 'o world" where
  "emit fd s w = w\<lparr>w_out := (w_out w)(fd := w_out w fd @ s)\<rparr>"

lemma emit_sel [simp]:
  "w_os (emit fd s w) = w_os w" "w_errno (emit fd s w) = w_errno w"
  "w_signal_flag (emit fd s w) = w_signal_flag w" "w_config (emit fd s w) = w_config w"
  "w_reply_pool (emit fd s w) = w_reply_pool w" "w_vfs (emit fd s w) = w_vfs w"
  "w_state_pool (emit fd s w) = w_state_pool w" "w_session (emit fd s w) = w_session w"
  "w_fds (emit fd s w) = w_fds w" "w_out (emit fd s w) fd = w_out w fd @ s"
  by (simp_all add: emit_def)

lemma emit_other: "fd' \<noteq> fd \<Longrightarrow> w_out (emit fd s w) fd' = w_out w fd'"
  by (simp add: emit_def)

lemma emit_quiet [simp]: "quiet w (emit fd s w)"
  by (simp add: emit_def)

lemma sendall_ok: "sends_ok os \<Longrightarrow> sendall os fd s w = Some (int (length s), emit fd s w)"
  by (auto simp: sendall_def sendall_loop.simps os_call_def sends_ok_def emit_def)

lemma reply_ok: "sends_ok os \<Longrightarrow> reply os con s w = Some (int (length s), emit (sock con) s w)"
  by (simp add: reply_def sendall_ok)

lemma snprintf_buf_ok:
  assumes "length b = RESPONSE_BUFFER_SIZE" and "nul_free s"
  shows "\<exists>b'. snprintf_buf b RESPONSE_BUFFER_SIZE s = Some b' \<and> length b' = RESPONSE_BUFFER_SIZE
    \<and> cstr b' = take (RESPONSE_BUFFER_SIZE - 1) s"
proof -
  let ?t = "take (RESPONSE_BUFFER_SIZE - 1) s"
  have len: "length ?t < length b" using assms(1) by (auto simp: RESPONSE_BUFFER_SIZE_def)
  have "snprintf_buf b RESPONSE_BUFFER_SIZE s = do { d \<leftarrow> blit b 0 ?t; wr d (length ?t) NUL }"
    by (simp add: snprintf_buf_def min.commute)
  also have "\<dots> = Some (?t @ NUL # drop (Suc (length ?t)) b)"
    using len by (rule blit_wr_NUL)
  finally have e: "snprintf_buf b RESPONSE_BUFFER_SIZE s
      = Some (?t @ NUL # drop (Suc (length ?t)) b)" .
  have "cstr (?t @ NUL # drop (Suc (length ?t)) b) = ?t"
    using assms(2) by (intro cstr_nul_free) auto
  with e snprintf_buf_length [OF e] assms(1) show ?thesis by auto
qed

text \<open>A formatted reply reaches the client cut to 1023 bytes.\<close>

lemma reply_format_ok:
  assumes "sends_ok os" and "reply_pool_ok w" and "nul_free text"
  shows "\<exists>b. length b = RESPONSE_BUFFER_SIZE \<and> reply_format os con text w
    = Some (int (length (take (RESPONSE_BUFFER_SIZE - 1) text)),
        emit (sock con) (take (RESPONSE_BUFFER_SIZE - 1) text) (w\<lparr>w_reply_pool := Some b\<rparr>))"
  using assms snprintf_buf_ok [OF _ assms(3)]
  by (fastforce simp: reply_format_def reply_pool_ok_def reply_ok)

lemma reply_format_short:
  assumes "sends_ok os" and "reply_pool_ok w" and "nul_free text"
    and "length text < RESPONSE_BUFFER_SIZE"
  shows "\<exists>b. length b = RESPONSE_BUFFER_SIZE \<and> reply_format os con text w
    = Some (int (length text), emit (sock con) text (w\<lparr>w_reply_pool := Some b\<rparr>))"
  using reply_format_ok [OF assms(1-3), of con] assms(4) by simp

subsection \<open>A concrete system\<close>

text \<open>
  A system without files that accepts every byte sent, used to instantiate the properties: a
  descriptor table would be the only state, and it hands out the same descriptor each time.
\<close>

definition idle_net :: "'o os_net" where
  "idle_net = \<lparr>net_send = \<lambda>fd d s. (Inr (length d), s), net_recv = \<lambda>fd n s. (Inr [], s),
     net_poll = \<lambda>fd t s. (Inr 0, s), net_accept = \<lambda>fd s. (Inr (9, ''''), s),
     net_socket = \<lambda>s. (Inr 8, s), net_bind = \<lambda>fd p s. (Inr (), s),
     net_listen = \<lambda>fd s. (Inr (), s), net_getsockname = \<lambda>fd s. (Inr ('''', 1025), s),
     net_getpeername = \<lambda>fd s. (Inr '''', s), net_close = \<lambda>fd s. (Inr (), s),
     net_poll2 = \<lambda>a b s. (Inr (0, False, False), s), net_setsockopt = \<lambda>fd s. (Inr (), s),
     net_pipe = \<lambda>s. (Inr (6, 7), s)\<rparr>"

definition idle_fs :: "'o os_fs" where
  "idle_fs = \<lparr>fs_lstat = \<lambda>p s. (Inl ENOENT, s), fs_stat = \<lambda>p s. (Inl ENOENT, s),
     fs_open = \<lambda>p s. (Inl ENOENT, s), fs_creat = \<lambda>p m s. (Inl EACCES, s),
     fs_mkdir = \<lambda>p m s. (Inl EACCES, s), fs_rmdir = \<lambda>p s. (Inl ENOENT, s),
     fs_unlink = \<lambda>p s. (Inl ENOENT, s), fs_opendir = \<lambda>p s. (Inl ENOENT, s),
     fs_readdir = \<lambda>d s. (None, s), fs_closedir = \<lambda>d s. (Inr (), s)\<rparr>"

definition idle_io :: "'o os_io" where
  "idle_io = \<lparr>io_lseek = \<lambda>fd n s. (Inr n, s), io_sendfile = \<lambda>a b k n s. (Inr n, s),
     io_read = \<lambda>fd n s. (Inr [], s), io_write = \<lambda>fd d s. (Inr (length d), s),
     io_writev = \<lambda>fd d s. (Inr (length (concat d)), s),
     io_gettimeofday = \<lambda>s. (\<lparr>tv_sec = 0, tv_usec = 0\<rparr>, s), io_nanosleep = \<lambda>t s. (None, s)\<rparr>"

definition idle_proc :: "'o os_proc" where
  "idle_proc = \<lparr>proc_malloc = \<lambda>n s. (True, s), proc_getpid = \<lambda>s. 1,
     proc_setuid = \<lambda>u s. (Inr (), s), proc_getpwnam = \<lambda>n s. (None, s),
     proc_getspnam = \<lambda>n s. (None, s), proc_crypt = \<lambda>p k s. (None, s),
     proc_signals = \<lambda>s. ([], s), proc_strerror = \<lambda>e. ''Error'',
     proc_time = \<lambda>s. (0, s), proc_fork = \<lambda>s. (Inr 2, s), proc_waitpid = \<lambda>s. (0, s),
     proc_kill = \<lambda>p s. (Inr (), s)\<rparr>"

definition idle_os :: "'o os" where
  "idle_os = \<lparr>os_net = idle_net, os_fs = idle_fs, os_io = idle_io, os_proc = idle_proc\<rparr>"

lemma idle_os_sends [simp]: "sends_ok idle_os"
  by (simp add: sends_ok_def idle_os_def idle_net_def)

lemma idle_os_mem [simp]: "mem_ok idle_os"
  by (simp add: mem_ok_def idle_os_def idle_proc_def)

definition idle_session :: ftp_session where
  "idle_session = \<lparr>
     conn = \<lparr>master_pipe = 5, sock = 4, pasv_sock = -1, data_sock = -1,
       host_addr = '''', client_addr = ''''\<rparr>,
     command = \<lparr>c_line = replicate COMMAND_BUFFER_SIZE NUL, c_line_len = COMMAND_BUFFER_SIZE,
       c_dirty_len = 0, c_arg = '''', c_len = 0\<rparr>,
     login = \<lparr>logged_in = False, anonymous = False, user = Null\<rparr>,
     info = \<lparr>total_down = 0, total_up = 0, xfer_len = 0, probe_len = 0, xfer_status = 0,
       xfer_start = \<lparr>tv_sec = 0, tv_usec = 0\<rparr>, xfer_probe = \<lparr>tv_sec = 0, tv_usec = 0\<rparr>\<rparr>,
     virt_path = (replicate FTP_MAX_PATH NUL)[0 := SLASH],
     filename = replicate FTP_MAX_NAME NUL, restart_pos = 0\<rparr>"

definition idle_world_at :: "'o \<Rightarrow> 'o world" where
  "idle_world_at st = \<lparr>w_os = st, w_errno = E_OK, w_signal_flag = 0, w_config = zero_config,
     w_reply_pool = Some (replicate RESPONSE_BUFFER_SIZE NUL),
     w_vfs = Some (''/srv'', (replicate FTP_MAX_PATH NUL)[0 := SLASH]), w_state_pool = None,
     w_session = idle_session, w_out = (\<lambda>_. []), w_fds = {}\<rparr>"

abbreviation idle_world :: "unit world" where "idle_world \<equiv> idle_world_at ()"

lemma idle_world_sel [simp]:
  "sock (conn idle_session) = 4" "master_pipe (conn idle_session) = 5"
  "w_out (idle_world_at s) fd = []" "w_os (idle_world_at s) = s" "w_session (idle_world_at s) = idle_session"
  by (simp_all add: idle_world_at_def idle_session_def)

lemma idle_world_pool [simp]: "reply_pool_ok (idle_world_at s)"
  by (simp add: reply_pool_ok_def idle_world_at_def)

subsection \<open>Properties\<close>

text \<open>A formatted reply reaches the client as its first 1023 bytes: one that fits arrives whole, a
  longer one (a path close to the length limit) loses its end, line terminator included.\<close>

lemma reply_format_cut:
  assumes "sends_ok os" and "reply_pool_ok w" and "nul_free text"
  shows "\<exists>w'. reply_format os con text w = Some (int (length (take 1023 text)), w')
    \<and> w_out w' (sock con) = w_out w (sock con) @ take 1023 text \<and> w_session w' = w_session w"
  using reply_format_ok [OF assms, of con] by (auto simp: RESPONSE_BUFFER_SIZE_def)

lemma reply_format_cut_example:
  "\<exists>r w'. reply_format idle_os (w_conn idle_world)
      (''257 \"'' @ replicate 1023 (CHR ''a'') @ ''\" created'' @ CRLF) idle_world = Some (r, w')
    \<and> w_out w' 4 = ''257 \"'' @ replicate 1018 (CHR ''a'')"
proof -
  let ?t = "''257 \"'' @ replicate 1023 (CHR ''a'') @ ''\" created'' @ CRLF"
  have "take 1023 ?t = ''257 \"'' @ replicate 1018 (CHR ''a'')" by (simp add: take_replicate)
  then show ?thesis
    using reply_format_cut [of idle_os idle_world ?t "w_conn idle_world"]
    by (simp add: nul_free_def) blast
qed

definition ending_signal :: "signal \<Rightarrow> bool" where
  "ending_signal s \<longleftrightarrow> s \<noteq> SIGCHLD \<and> s \<noteq> SIGPIPE"

text \<open>The bits of the flag that end a session: all but those of \<open>SIGPIPE\<close> and \<open>SIGCHLD\<close>.\<close>

definition ending_mask :: "32 word" where
  "ending_mask = not (or RECV_SIGPIPE RECV_SIGCHLD)"

lemma flag_bits:
  "and RECV_SIGINT ending_mask = 1" "and RECV_SIGTERM ending_mask = 2"
  "and RECV_SIGHUP ending_mask = 4" "and RECV_SIGPIPE ending_mask = 0"
  "and RECV_SIGCHLD ending_mask = 0" "and RECV_SIGOTHER ending_mask = 32"
  by (simp_all add: ending_mask_def RECV_SIGINT_def RECV_SIGTERM_def RECV_SIGHUP_def
      RECV_SIGPIPE_def RECV_SIGCHLD_def RECV_SIGOTHER_def)

lemma signal_handler_bits:
  "and (signal_handler f s) ending_mask = 0 \<longleftrightarrow> and f ending_mask = 0 \<and> \<not> ending_signal s"
proof -
  have d: "and (or f b) ending_mask = or (and f ending_mask) (and b ending_mask)" for b :: "32 word"
    by (simp add: bit.conj_disj_distrib2)
  show ?thesis
    by (cases s) (simp_all add: signal_handler_def ending_signal_def d flag_bits or_eq_0_iff)
qed

lemma clear_flag_eq: "clear_flag f b = and f (not b)"
proof (cases "and f b = 0")
  case True
  have "f = and f (or b (not b))" by simp
  also have "\<dots> = or (and f b) (and f (not b))" by (rule bit.conj_disj_distrib)
  finally show ?thesis using True by (simp add: clear_flag_def)
qed (simp add: clear_flag_def)

lemma signal_handlers_bits:
  "and (foldl signal_handler f ss) ending_mask = 0
   \<longleftrightarrow> and f ending_mask = 0 \<and> (\<forall>s \<in> set ss. \<not> ending_signal s)"
  by (induction ss arbitrary: f) (auto simp: signal_handler_bits)

text \<open>A signal reaches the session as a decision: \<open>server_handle_signal\<close> ends the session exactly
  when some delivered or pending signal is neither \<open>SIGCHLD\<close> nor \<open>SIGPIPE\<close>, and it leaves no signal
  pending.\<close>

lemma server_handle_signal_decision:
  assumes "server_handle_signal os w = (r, w')"
  shows "(r = FTP_QUIT \<longleftrightarrow> and (w_signal_flag w) ending_mask \<noteq> 0
        \<or> (\<exists>s \<in> set (fst (sys_signals os (w_os w))). ending_signal s))
    \<and> (r \<noteq> FTP_QUIT \<longrightarrow> r = FTP_SUCCESS) \<and> w_signal_flag w' = 0"
proof -
  let ?f = "w_signal_flag (deliver os w)"
  have f: "?f = foldl signal_handler (w_signal_flag w) (fst (sys_signals os (w_os w)))"
    by (simp add: deliver_def os_query_def case_prod_beta)
  have "clear_flag (clear_flag ?f RECV_SIGCHLD) RECV_SIGPIPE = and ?f ending_mask"
    by (simp add: clear_flag_eq ending_mask_def and.assoc and.commute [of "not RECV_SIGCHLD"])
  with assms f signal_handlers_bits [of "w_signal_flag w" "fst (sys_signals os (w_os w))"]
  show ?thesis by (auto simp: server_handle_signal_def Let_def split: if_splits)
qed

lemma server_handle_signal_idle:
  "\<exists>w'. server_handle_signal idle_os (idle_world\<lparr>w_signal_flag := RECV_SIGTERM\<rparr>) = (FTP_QUIT, w')
     \<and> w_signal_flag w' = 0"
proof -
  let ?w = "idle_world\<lparr>w_signal_flag := RECV_SIGTERM\<rparr>"
  obtain r w' where s: "server_handle_signal idle_os ?w = (r, w')" by force
  show ?thesis
    using server_handle_signal_decision [OF s] s
    by (simp add: flag_bits)
qed

end
