(* ===== verification/Ftp_Child.thy ===== *)
theory Ftp_Child
  imports Ftp_Frame
begin

text \<open>
  \<open>child.c\<close>: the list of clients the master process keeps. The linked list behind its head node is a
  list of records; a pointer to a node is its position. \<open>remove_client\<close> follows the null pointer at
  the end of the list, so a missing process id is \<open>None\<close>.
\<close>

definition MAX_LOGIN_NAME :: nat where "MAX_LOGIN_NAME = 64"

record ftp_child =
  ch_pid :: int
  ch_connected :: int
  ch_client_addr :: in_addr
  ch_login_name :: buf
  ch_path :: buf
  ch_filename :: buf
  ch_xfer_info :: ftp_xfer_info
  ch_xfer_in_progress :: bool

definition zero_xfer_info :: ftp_xfer_info where
  "zero_xfer_info = \<lparr>total_down = 0, total_up = 0, xfer_len = 0, probe_len = 0, xfer_status = 0,
     xfer_start = \<lparr>tv_sec = 0, tv_usec = 0\<rparr>, xfer_probe = \<lparr>tv_sec = 0, tv_usec = 0\<rparr>\<rparr>"

text \<open>\<open>new_client\<close>: \<open>malloc\<close>, \<open>memset\<close> and the initial values; a null pointer is \<open>None\<close>.\<close>

definition new_client ::
  "'o os \<Rightarrow> int \<Rightarrow> in_addr \<Rightarrow> 'o world \<Rightarrow> ftp_child option \<times> 'o world" where
  "new_client os pid address w = (case c_malloc os 1456 w of
       (False, w) \<Rightarrow> (None, w)
     | (True, w) \<Rightarrow> (case os_query (sys_time os) w of (now, w) \<Rightarrow>
         (Some \<lparr>ch_pid = pid, ch_connected = now, ch_client_addr = address,
            ch_login_name = replicate MAX_LOGIN_NAME NUL, ch_path = replicate FTP_MAX_PATH NUL,
            ch_filename = replicate FTP_MAX_NAME NUL, ch_xfer_info = zero_xfer_info,
            ch_xfer_in_progress = False\<rparr>, w)))"

text \<open>\<open>while( list->next ) list = list->next;\<close> from the head, then the new node is linked in.\<close>

fun add_client :: "ftp_child list \<Rightarrow> ftp_child \<Rightarrow> ftp_child list" where
  "add_client [] new = [new]"
| "add_client (c # cs) new = c # add_client cs new"

text \<open>The client whose statistics are logged, and the list without it.\<close>

fun remove_client :: "ftp_child list \<Rightarrow> int \<Rightarrow> (ftp_child \<times> ftp_child list) option" where
  "remove_client [] pid = None"
| "remove_client (c # cs) pid =
     (if ch_pid c = pid then Some (c, cs)
      else do { (d, cs) \<leftarrow> remove_client cs pid; Some (d, c # cs) })"

definition count_clients :: "ftp_child list \<Rightarrow> int" where
  "count_clients cs = foldl (\<lambda>i _. i + 1) 0 cs"

definition count_clients_addr :: "ftp_child list \<Rightarrow> in_addr \<Rightarrow> int" where
  "count_clients_addr cs addr = foldl (\<lambda>i c. if ch_client_addr c = addr then i + 1 else i) 0 cs"

fun find_client_from :: "ftp_child list \<Rightarrow> int \<Rightarrow> nat \<Rightarrow> nat option" where
  "find_client_from [] pid i = None"
| "find_client_from (c # cs) pid i =
     (if ch_pid c = pid then Some i else find_client_from cs pid (Suc i))"

definition find_client :: "ftp_child list \<Rightarrow> int \<Rightarrow> nat option" where
  "find_client cs pid = find_client_from cs pid 0"

text \<open>\<open>remove_all_clients\<close>: every node is freed, and its process signalled if asked for.\<close>

fun remove_all_clients ::
  "'o os \<Rightarrow> ftp_child list \<Rightarrow> bool \<Rightarrow> 'o world \<Rightarrow> ftp_child list \<times> 'o world" where
  "remove_all_clients os [] kill_clients w = ([], w)"
| "remove_all_clients os (c # cs) kill_clients w =
     (let w = (if kill_clients then snd (os_call (sys_kill os (ch_pid c)) w) else w)
      in remove_all_clients os cs kill_clients w)"

subsection \<open>Lemmas\<close>

lemma add_client_append [simp]: "add_client cs c = cs @ [c]"
  by (induction cs) auto

lemma foldl_count: "foldl (\<lambda>i _. i + 1) (n :: int) cs = n + int (length cs)"
  by (induction cs arbitrary: n) auto

lemma count_clients_length [simp]: "count_clients cs = int (length cs)"
  by (simp add: count_clients_def foldl_count)

lemma foldl_count_if:
  "foldl (\<lambda>i c. if P c then i + 1 else i) (n :: int) cs = n + int (length (filter P cs))"
  by (induction cs arbitrary: n) auto

lemma count_clients_addr_filter:
  "count_clients_addr cs a = int (length (filter (\<lambda>c. ch_client_addr c = a) cs))"
  by (simp add: count_clients_addr_def foldl_count_if)

lemma remove_client_split:
  "pid \<notin> ch_pid ` set u \<Longrightarrow> ch_pid c = pid \<Longrightarrow> remove_client (u @ c # v) pid = Some (c, u @ v)"
  by (induction u) auto

lemma remove_client_Some:
  "remove_client cs pid = Some (c, cs') \<Longrightarrow>
     \<exists>u v. cs = u @ c # v \<and> cs' = u @ v \<and> ch_pid c = pid \<and> pid \<notin> ch_pid ` set u"
proof (induction cs arbitrary: cs')
  case (Cons a cs)
  show ?case
  proof (cases "ch_pid a = pid")
    case True
    with Cons.prems have "a # cs = [] @ c # cs'" "ch_pid c = pid" "pid \<notin> ch_pid ` set []" by auto
    then show ?thesis by (metis append_Nil)
  next
    case False
    with Cons.prems obtain ds where d: "remove_client cs pid = Some (c, ds)" "cs' = a # ds"
      by (auto simp: bind_eq_Some_conv)
    from Cons.IH [OF d(1)] obtain u v where "cs = u @ c # v" "ds = u @ v" "ch_pid c = pid"
      "pid \<notin> ch_pid ` set u" by blast
    with d(2) False show ?thesis by (intro exI [of _ "a # u"] exI [of _ v]) simp
  qed
qed simp

lemma remove_client_None: "remove_client cs pid = None \<longleftrightarrow> pid \<notin> ch_pid ` set cs"
  by (induction cs) auto

lemma find_client_from_Some:
  "find_client_from cs pid n = Some i \<Longrightarrow>
     n \<le> i \<and> i - n < length cs \<and> ch_pid (cs ! (i - n)) = pid \<and> (\<forall>j < i - n. ch_pid (cs ! j) \<noteq> pid)"
proof (induction cs arbitrary: n)
  case (Cons c cs)
  show ?case
  proof (cases "ch_pid c = pid")
    case False
    with Cons have "Suc n \<le> i \<and> i - Suc n < length cs \<and> ch_pid (cs ! (i - Suc n)) = pid
        \<and> (\<forall>j < i - Suc n. ch_pid (cs ! j) \<noteq> pid)" by simp
    moreover then obtain k where k: "i - n = Suc k" "i - Suc n = k"
      by (metis Suc_diff_le diff_Suc_Suc)
    ultimately show ?thesis using False by (auto simp: less_Suc_eq_0_disj)
  qed (use Cons in auto)
qed simp

lemma find_client_Some:
  assumes "find_client cs pid = Some i"
  shows "i < length cs" and "ch_pid (cs ! i) = pid" and "\<And>j. j < i \<Longrightarrow> ch_pid (cs ! j) \<noteq> pid"
  using find_client_from_Some [OF assms [unfolded find_client_def]] by auto

lemma find_client_from_None: "find_client_from cs pid n = None \<longleftrightarrow> pid \<notin> ch_pid ` set cs"
  by (induction cs arbitrary: n) auto

lemma find_client_None: "find_client cs pid = None \<longleftrightarrow> pid \<notin> ch_pid ` set cs"
  by (simp add: find_client_def find_client_from_None)

lemma new_client_quiet [frame]: "new_client os pid a w = (r, w') \<Longrightarrow> quiet w w'"
  by (auto simp: new_client_def split: prod.splits bool.splits dest!: c_malloc_quiet os_query_quiet
      intro: quiet_trans)

lemma remove_all_clients_empty: "fst (remove_all_clients os cs k w) = []"
  by (induction cs arbitrary: w) (auto simp: Let_def)

end
