(* ===== verification/Ftp_Vfs.thy ===== *)
theory Ftp_Vfs
  imports Ftp_Frame
begin

text \<open>
  The rest of \<open>vfs.c\<close>: the path pool, the file operations over \<open>vfs_realpath\<close>, and the reply for a
  failed operation. The lemmas show that every path an operation hands to the system lies below the
  root directory, through the interface \<open>path_resolver\<close>.
\<close>

subsection \<open>The pool\<close>

text \<open>The pool keeps the root directory up to its terminating NUL. A null root directory makes
  \<open>strlen\<close> follow a null pointer.\<close>

definition init_vfs_pool :: "'o os \<Rightarrow> string option \<Rightarrow> 'o world \<Rightarrow> (int \<times> 'o world) option" where
  "init_vfs_pool os root_dir w = (case root_dir of
       None \<Rightarrow> None
     | Some root_dir \<Rightarrow> let root = cstr root_dir in
         (case c_malloc os (FTP_MAX_PATH + length root) w of
            (False, w) \<Rightarrow> Some (FTP_ERROR, w)
          | (True, w) \<Rightarrow> Some (FTP_SUCCESS,
              w\<lparr>w_vfs := Some (root, (replicate FTP_MAX_PATH NUL)[0 := SLASH])\<rparr>)))"

definition destroy_vfs_pool :: "'o world \<Rightarrow> 'o world" where
  "destroy_vfs_pool w = w\<lparr>w_vfs := None\<rparr>"

text \<open>
  \<open>vfs_realpath\<close> on the pool: its \<open>assert\<close>, the array it updates, and \<open>errno\<close>. The array of the
  root directory and \<open>virt_path\<close> are adjacent, so the real path is their concatenation.
\<close>

definition pool_realpath ::
  "string \<Rightarrow> string \<Rightarrow> 'o world \<Rightarrow> ((errno + unit) \<times> 'o world) option" where
  "pool_realpath cwd path w = (case w_vfs w of
       None \<Rightarrow> None
     | Some (root, vp) \<Rightarrow> do {
         (vp, r) \<leftarrow> vfs_realpath vp cwd path;
         Some (r, w\<lparr>w_vfs := Some (root, vp),
                    w_errno := (case r of Inl e \<Rightarrow> e | Inr _ \<Rightarrow> w_errno w)\<rparr>) })"

definition real_path :: "'o world \<Rightarrow> string" where
  "real_path w = (case w_vfs w of None \<Rightarrow> [] | Some (root, vp) \<Rightarrow> root @ cstr vp)"

definition pool_virt_path :: "'o world \<Rightarrow> string" where
  "pool_virt_path w = (case w_vfs w of None \<Rightarrow> [] | Some (root, vp) \<Rightarrow> cstr vp)"

subsection \<open>The operations\<close>

definition vfs_stat ::
  "'o os \<Rightarrow> string \<Rightarrow> string \<Rightarrow> 'o world \<Rightarrow> ((errno + stat) \<times> 'o world) option" where
  "vfs_stat os cwd vpath w = do {
     (r, w) \<leftarrow> pool_realpath cwd vpath w;
     case r of
       Inl e \<Rightarrow> Some (Inl e, w)
     | Inr _ \<Rightarrow> (case os_call (sys_lstat os (real_path w)) w of
           (Inl e, w) \<Rightarrow> Some (Inl e, w)
         | (Inr tmp, w) \<Rightarrow>
             if S_ISLNK (st_mode tmp) \<and> \<not> cfg_allow_links (w_config w)
             then Some (Inl EACCES, w\<lparr>w_errno := EACCES\<rparr>)
             else Some (os_call (sys_stat os (real_path w)) w)) }"

definition vfs_creat ::
  "'o os \<Rightarrow> string \<Rightarrow> string \<Rightarrow> nat \<Rightarrow> 'o world \<Rightarrow> ((errno + int) \<times> 'o world) option" where
  "vfs_creat os cwd vpath mode w = do {
     (r, w) \<leftarrow> pool_realpath cwd vpath w;
     case r of Inl e \<Rightarrow> Some (Inl e, w)
     | Inr _ \<Rightarrow> Some (os_newfd (sys_creat os (real_path w) mode) w) }"

definition vfs_open ::
  "'o os \<Rightarrow> string \<Rightarrow> string \<Rightarrow> 'o world \<Rightarrow> ((errno + int) \<times> 'o world) option" where
  "vfs_open os cwd vpath w = do {
     (r, w) \<leftarrow> pool_realpath cwd vpath w;
     case r of Inl e \<Rightarrow> Some (Inl e, w)
     | Inr _ \<Rightarrow> Some (os_newfd (sys_open os (real_path w)) w) }"

definition vfs_close :: "'o os \<Rightarrow> int \<Rightarrow> 'o world \<Rightarrow> 'o world" where
  "vfs_close os fd w = c_close os fd w"

text \<open>\<open>vfs_chdir\<close> writes the working directory it is given: the result is its new contents.\<close>

definition vfs_chdir ::
  "buf \<Rightarrow> string \<Rightarrow> 'o world \<Rightarrow> ((int \<times> buf) \<times> 'o world) option" where
  "vfs_chdir cwd path w = do {
     (r, w) \<leftarrow> pool_realpath (cstr cwd) path w;
     case r of Inl e \<Rightarrow> Some ((-1, cwd), w)
     | Inr _ \<Rightarrow> do {
         (_, cwd) \<leftarrow> strlcpy cwd (pool_virt_path w) FTP_MAX_PATH;
         Some ((0, cwd), w) } }"

definition vfs_mkdir ::
  "'o os \<Rightarrow> string \<Rightarrow> string \<Rightarrow> nat \<Rightarrow> 'o world \<Rightarrow> ((errno + unit) \<times> 'o world) option" where
  "vfs_mkdir os cwd pathname mode w = do {
     (r, w) \<leftarrow> pool_realpath cwd pathname w;
     case r of Inl e \<Rightarrow> Some (Inl e, w)
     | Inr _ \<Rightarrow> Some (os_call (sys_mkdir os (real_path w) mode) w) }"

definition vfs_rmdir ::
  "'o os \<Rightarrow> string \<Rightarrow> string \<Rightarrow> 'o world \<Rightarrow> ((errno + unit) \<times> 'o world) option" where
  "vfs_rmdir os cwd pathname w = do {
     (r, w) \<leftarrow> pool_realpath cwd pathname w;
     case r of Inl e \<Rightarrow> Some (Inl e, w)
     | Inr _ \<Rightarrow> Some (os_call (sys_rmdir os (real_path w)) w) }"

definition vfs_opendir ::
  "'o os \<Rightarrow> string \<Rightarrow> string \<Rightarrow> 'o world \<Rightarrow> ((errno + int) \<times> 'o world) option" where
  "vfs_opendir os cwd path w = do {
     (r, w) \<leftarrow> pool_realpath cwd path w;
     case r of Inl e \<Rightarrow> Some (Inl e, w)
     | Inr _ \<Rightarrow> Some (os_call (sys_opendir os (real_path w)) w) }"

definition vfs_closedir :: "'o os \<Rightarrow> int \<Rightarrow> 'o world \<Rightarrow> 'o world" where
  "vfs_closedir os dirp w = snd (os_call (sys_closedir os dirp) w)"

definition vfs_unlink ::
  "'o os \<Rightarrow> string \<Rightarrow> string \<Rightarrow> 'o world \<Rightarrow> ((errno + unit) \<times> 'o world) option" where
  "vfs_unlink os cwd path w = do {
     (r, w) \<leftarrow> pool_realpath cwd path w;
     case r of Inl e \<Rightarrow> Some (Inl e, w)
     | Inr _ \<Rightarrow> Some (os_call (sys_unlink os (real_path w)) w) }"

definition failed_vfs_reply :: "'o os \<Rightarrow> ftp_conn \<Rightarrow> 'o world \<Rightarrow> (int \<times> 'o world) option" where
  "failed_vfs_reply os con w = do {
     (_, w) \<leftarrow>
       (if w_errno w \<in> {EPERM, ENOENT, EACCES, ENOTDIR, ENAMETOOLONG, ENOTEMPTY, ELOOP, EUSERS, EDQUOT}
        then reply_format os con (''550 '' @ sys_strerror os (w_errno w) @ CRLF) w
        else reply os con (''550 Server error'' @ CRLF) w);
     Some (FTP_SUCCESS, w) }"

subsection \<open>Well-formedness of the pool\<close>

definition vfs_ok :: "'o world \<Rightarrow> bool" where
  "vfs_ok w \<longleftrightarrow> (\<exists>root vp. w_vfs w = Some (root, vp) \<and> length vp = FTP_MAX_PATH \<and> nul_free root)"

definition vfs_root :: "'o world \<Rightarrow> string" where
  "vfs_root w = (case w_vfs w of None \<Rightarrow> [] | Some (root, vp) \<Rightarrow> root)"

text \<open>
  \<open>vquiet\<close> is \<open>quiet\<close> up to the contents of the path array: the session, configuration, state pool
  and root directory stay.
\<close>

definition vquiet :: "'o world \<Rightarrow> 'o world \<Rightarrow> bool" where
  "vquiet w w' \<longleftrightarrow> w_session w' = w_session w \<and> w_config w' = w_config w
     \<and> w_state_pool w' = w_state_pool w \<and> (reply_pool_ok w \<longrightarrow> reply_pool_ok w')
     \<and> (vfs_ok w \<longrightarrow> vfs_ok w') \<and> vfs_root w' = vfs_root w \<and> (w_vfs w' = None \<longleftrightarrow> w_vfs w = None)"

lemma quiet_vquiet: "quiet w w' \<Longrightarrow> vquiet w w'"
  by (simp add: quiet_def vquiet_def vfs_ok_def vfs_root_def)

lemma vquiet_refl [simp, intro]: "vquiet w w"
  by (simp add: vquiet_def)

lemma vquiet_trans [trans]: "vquiet u v \<Longrightarrow> vquiet v w \<Longrightarrow> vquiet u w"
  by (simp add: vquiet_def)

lemma vquietD:
  assumes "vquiet w w'"
  shows "w_session w' = w_session w" and "w_config w' = w_config w"
    and "w_state_pool w' = w_state_pool w" and "vfs_root w' = vfs_root w"
    and "vfs_ok w \<Longrightarrow> vfs_ok w'" and "reply_pool_ok w \<Longrightarrow> reply_pool_ok w'"
  using assms by (simp_all add: vquiet_def)

lemma vfs_realpath_length:
  assumes "vfs_realpath b cwd p = Some (b', r)" shows "length b' = length b"
proof -
  have lp: "length b'' = length b'"
    if "realpath_loop b' d q = Some (b'', x)" for b' d q b'' x
    using that
  proof (induction b' d q arbitrary: b'' x rule: realpath_loop.induct)
    case (1 b1 d q)
    let ?c = "first_comp q" and ?r = "rest_comp q"
    consider "q = [] \<or> ?c = []" | "q \<noteq> []" "?c = ''.''" | "q \<noteq> []" "?c = ''..''"
      | "q \<noteq> []" "?c \<noteq> []" "?c \<noteq> ''.''" "?c \<noteq> ''..''" by blast
    then show ?case
    proof cases
      case 1
      then show ?thesis using "1.prems" by (auto simp: realpath_loop.simps [of b1 d q] Let_def)
    next
      case 2
      then show ?thesis
        using "1.prems" "1.IH"(1) [OF refl refl] by (auto simp: realpath_loop.simps [of b1 d q] Let_def)
    next
      case 3
      then show ?thesis
        using "1.prems" "1.IH"(2,3) [OF refl refl]
        by (auto simp: realpath_loop.simps [of b1 d q] Let_def bind_eq_Some_conv split: if_splits)
    next
      case 4
      then have e: "do {
          (buf, dst) \<leftarrow> add_slash b1 d;
          if dst + length ?c \<ge> FTP_MAX_PATH then Some (buf, Inl ENAMETOOLONG)
          else do { buf \<leftarrow> blit buf dst ?c; buf \<leftarrow> wr buf (dst + length ?c) NUL;
                    realpath_loop buf (dst + length ?c) ?r } } = Some (b'', x)"
        using "1.prems" by (simp add: realpath_loop.simps [of b1 d q] Let_def)
      then obtain b2 d2 where s: "add_slash b1 d = Some (b2, d2)" by (auto simp: bind_eq_Some_conv)
      have l2: "length b2 = length b1"
        using s by (auto simp: add_slash_def bind_eq_Some_conv buffer_simps split: if_splits)
      show ?thesis
      proof (cases "d2 + length ?c \<ge> FTP_MAX_PATH")
        case True
        with e s l2 show ?thesis by simp
      next
        case False
        with e s obtain b3 b4 where b: "blit b2 d2 ?c = Some b3" "wr b3 (d2 + length ?c) NUL = Some b4"
          "realpath_loop b4 (d2 + length ?c) ?r = Some (b'', x)" by (auto simp: bind_eq_Some_conv)
        have "length b'' = length b4"
          using "1.IH"(4) [OF refl refl _ _ _ s refl False b(1,2,3)] 4 by simp
        with b l2 show ?thesis by (simp add: buffer_simps)
      qed
    qed
  qed
  obtain z where start: "(if p \<noteq> [] \<and> p ! 0 = SLASH
        then do { v \<leftarrow> wr b 0 SLASH; Some (v, Inr 1) }
        else do { (len, v) \<leftarrow> strlcpy b cwd FTP_MAX_PATH;
          if len \<ge> FTP_MAX_PATH then do { v \<leftarrow> wr v 0 NUL; Some (v, Inl ENAMETOOLONG) }
          else Some (v, Inr len) }) = Some z"
    and fin: "(case z of (v, Inl e) \<Rightarrow> Some (v, Inl e)
     | (v, Inr dst) \<Rightarrow> do {
         (v, r) \<leftarrow> realpath_loop v dst p;
         case r of Inl e \<Rightarrow> Some (v, Inl e)
         | Inr dst \<Rightarrow> do {
             c \<leftarrow> (if dst > 1 then rd v (dst - 1) else Some NUL);
             v \<leftarrow> wr v (if dst > 1 \<and> c = SLASH then dst - 1 else dst) NUL;
             Some (v, Inr ()) } }) = Some (b', r)"
    by (rule bind_SomeE [OF assms [unfolded vfs_realpath_def Let_def]])
       (simp add: case_prod_beta split: sum.splits)
  obtain b0 st where z: "z = (b0, st)" by (cases z)
  have l0: "length b0 = length b"
    using start z by (auto simp: buffer_simps dest!: strlcpy_length_buf elim!: bind_SomeE split: if_splits)
  show ?thesis
  proof (cases st)
    case (Inl e)
    with fin z l0 show ?thesis by simp
  next
    case (Inr d)
    with fin z obtain y where y: "realpath_loop b0 d p = Some y"
      and fin1: "(case y of (v, Inl e) \<Rightarrow> Some (v, Inl e)
         | (v, Inr dst) \<Rightarrow> do {
             c \<leftarrow> (if dst > 1 then rd v (dst - 1) else Some NUL);
             v \<leftarrow> wr v (if dst > 1 \<and> c = SLASH then dst - 1 else dst) NUL;
             Some (v, Inr ()) }) = Some (b', r)"
      by (simp add: case_prod_beta) (erule bind_SomeE, simp add: case_prod_beta)
    obtain b1 x where b1': "y = (b1, x)" by (cases y)
    with y have b1: "realpath_loop b0 d p = Some (b1, x)" by simp
    have "length b' = length b1"
      using fin1 b1' by (cases x) (auto simp: buffer_simps elim!: bind_SomeE)
    with lp [OF b1] l0 show ?thesis by simp
  qed
qed

lemma pool_realpath_vquiet: "pool_realpath cwd p w = Some (r, w') \<Longrightarrow> vquiet w w'"
  by (auto simp: pool_realpath_def bind_eq_Some_conv vquiet_def vfs_ok_def vfs_root_def
      reply_pool_ok_def vfs_realpath_length split: option.splits)

subsection \<open>What the operations leave alone\<close>

lemma real_path_quiet: "quiet w w' \<Longrightarrow> real_path w' = real_path w"
  by (simp add: quiet_def real_path_def)

named_theorems vframe

lemma vquiet_errno [simp]: "vquiet w (w\<lparr>w_errno := e\<rparr>)"
  by (simp add: quiet_vquiet)

lemma pool_realpath_fds: "pool_realpath cwd p w = Some (r, w') \<Longrightarrow> w_fds w' = w_fds w"
  by (auto simp: pool_realpath_def bind_eq_Some_conv split: option.splits)

text \<open>Every operation is a \<open>pool_realpath\<close> followed by a quiet continuation.\<close>

lemma realpath_then:
  assumes "do { (r, w) \<leftarrow> pool_realpath cwd p w; f r w } = Some (x, w')"
    and "\<And>r u. f r u = Some (x, w') \<Longrightarrow> quiet u w'"
  shows "vquiet w w'"
proof -
  obtain r u where "pool_realpath cwd p w = Some (r, u)" and "f r u = Some (x, w')"
    using assms(1) by (auto elim!: bind_SomeE)
  then show ?thesis
    using assms(2) pool_realpath_vquiet quiet_vquiet vquiet_trans by blast
qed

lemma vfs_stat_vquiet [vframe]: "vfs_stat os cwd p w = Some (r, w') \<Longrightarrow> vquiet w w'"
  unfolding vfs_stat_def
  by (erule realpath_then)
     (auto split: sum.splits prod.splits if_splits dest!: os_call_quiet
       intro: quiet_errno quiet_trans)

lemma vfs_creat_vquiet [vframe]: "vfs_creat os cwd p m w = Some (r, w') \<Longrightarrow> vquiet w w'"
  unfolding vfs_creat_def by (erule realpath_then) (auto split: sum.splits dest!: os_newfd_quiet)

lemma vfs_open_vquiet [vframe]: "vfs_open os cwd p w = Some (r, w') \<Longrightarrow> vquiet w w'"
  unfolding vfs_open_def by (erule realpath_then) (auto split: sum.splits dest!: os_newfd_quiet)

lemma vfs_mkdir_vquiet [vframe]: "vfs_mkdir os cwd p m w = Some (r, w') \<Longrightarrow> vquiet w w'"
  unfolding vfs_mkdir_def by (erule realpath_then) (auto split: sum.splits dest!: os_call_quiet)

lemma vfs_rmdir_vquiet [vframe]: "vfs_rmdir os cwd p w = Some (r, w') \<Longrightarrow> vquiet w w'"
  unfolding vfs_rmdir_def by (erule realpath_then) (auto split: sum.splits dest!: os_call_quiet)

lemma vfs_opendir_vquiet [vframe]: "vfs_opendir os cwd p w = Some (r, w') \<Longrightarrow> vquiet w w'"
  unfolding vfs_opendir_def by (erule realpath_then) (auto split: sum.splits dest!: os_call_quiet)

lemma vfs_unlink_vquiet [vframe]: "vfs_unlink os cwd p w = Some (r, w') \<Longrightarrow> vquiet w w'"
  unfolding vfs_unlink_def by (erule realpath_then) (auto split: sum.splits dest!: os_call_quiet)

lemma vfs_chdir_vquiet [vframe]: "vfs_chdir cwd p w = Some (r, w') \<Longrightarrow> vquiet w w'"
  unfolding vfs_chdir_def
  by (erule realpath_then) (auto split: sum.splits elim!: bind_SomeE)

lemma vfs_closedir_quiet [frame, simp]: "quiet w (vfs_closedir os d w)"
  unfolding vfs_closedir_def by (cases "os_call (sys_closedir os d) w") (simp add: os_call_quiet)

lemma vfs_close_quiet [frame, simp]: "quiet w (vfs_close os fd w)"
  by (simp add: vfs_close_def)

lemma failed_vfs_reply_quiet [frame]: "failed_vfs_reply os con w = Some (r, w') \<Longrightarrow> quiet w w'"
  by (auto simp: failed_vfs_reply_def elim!: bind_SomeE dest!: reply_quiet reply_format_quiet
      split: if_splits)

lemma failed_vfs_reply_fds: "failed_vfs_reply os con w = Some (r, w') \<Longrightarrow> w_fds w' = w_fds w"
  by (auto simp: failed_vfs_reply_def elim!: bind_SomeE dest!: reply_fds reply_format_fds
      split: if_splits)

subsection \<open>Confinement below the root directory\<close>

lemma pool_realpath_cases:
  assumes vok: "vfs_ok w" and cwd: "canonical cwd" and p: "nul_free p"
  obtains (err) w' where "pool_realpath cwd p w = Some (Inl ENAMETOOLONG, w')" and "vquiet w w'"
      and "w_errno w' = ENAMETOOLONG" and "w_os w' = w_os w"
    | (ok) w' q where "pool_realpath cwd p w = Some (Inr (), w')" and "vquiet w w'"
      and "canonical q" and "pool_virt_path w' = q" and "real_path w' = vfs_root w @ q"
      and "w_os w' = w_os w"
proof -
  obtain root vp where v: "w_vfs w = Some (root, vp)" "length vp = FTP_MAX_PATH" "nul_free root"
    using vok by (auto simp: vfs_ok_def)
  let ?cs = "split_path cwd"
  have cs: "list_all is_name ?cs" "render ?cs = cwd" "length (render ?cs) < FTP_MAX_PATH"
    using canonical_split [OF cwd] by auto
  let ?ds = "if is_absolute p then [] else ?cs"
  have ds: "list_all is_name ?ds" "length (render ?ds) < FTP_MAX_PATH"
    using cs by (auto simp: FTP_MAX_PATH_def)
  obtain b where b: "length b = FTP_MAX_PATH" and r: "case resolve ?ds (split_path p) of
       Inl e \<Rightarrow> vfs_realpath vp cwd p = Some (b, Inl e)
     | Inr cs' \<Rightarrow> vfs_realpath vp cwd p = Some (b, Inr ()) \<and> cstr b = render cs'"
    using vfs_realpath_resolve [OF v(2) cs(1,3) p, unfolded cs(2)] by blast
  show ?thesis
  proof (cases "resolve ?ds (split_path p)")
    case (Inl e)
    have "e = ENAMETOOLONG" using resolve_error [OF Inl] .
    with Inl r v b show ?thesis
      by (intro err [of "w\<lparr>w_vfs := Some (root, b), w_errno := ENAMETOOLONG\<rparr>"])
        (auto simp: pool_realpath_def vquiet_def vfs_ok_def vfs_root_def reply_pool_ok_def)
  next
    case (Inr cs')
    have "list_all is_name cs' \<and> length (render cs') < FTP_MAX_PATH"
      by (rule resolve_sound [OF ds split_path_names [OF p] Inr])
    with Inr r v b show ?thesis
      by (intro ok [of "w\<lparr>w_vfs := Some (root, b)\<rparr>" "render cs'"])
        (auto simp: pool_realpath_def vquiet_def vfs_ok_def vfs_root_def reply_pool_ok_def
          real_path_def pool_virt_path_def canonical_render)
  qed
qed

text \<open>
  Confinement, stated as indistinguishability: two systems that answer alike for every path below the
  root directory, and for everything that takes no path, make an operation behave alike. So no
  operation can depend on, or change, anything it would reach by another path.
\<close>

definition below :: "string \<Rightarrow> string \<Rightarrow> bool" where
  "below root path \<longleftrightarrow> (\<exists>q. canonical q \<and> path = root @ q)"

definition same_below :: "string \<Rightarrow> 'o os \<Rightarrow> 'o os \<Rightarrow> bool" where
  "same_below root a b \<longleftrightarrow> os_net a = os_net b \<and> os_io a = os_io b \<and> os_proc a = os_proc b
     \<and> sys_readdir a = sys_readdir b \<and> sys_closedir a = sys_closedir b
     \<and> (\<forall>p. below root p \<longrightarrow> sys_lstat a p = sys_lstat b p \<and> sys_stat a p = sys_stat b p
          \<and> sys_open a p = sys_open b p \<and> sys_creat a p = sys_creat b p
          \<and> sys_mkdir a p = sys_mkdir b p \<and> sys_rmdir a p = sys_rmdir b p
          \<and> sys_unlink a p = sys_unlink b p \<and> sys_opendir a p = sys_opendir b p)"

lemma same_belowD:
  assumes "same_below root a b" and "canonical q"
  shows "sys_lstat a (root @ q) = sys_lstat b (root @ q)"
    and "sys_stat a (root @ q) = sys_stat b (root @ q)"
    and "sys_open a (root @ q) = sys_open b (root @ q)"
    and "sys_creat a (root @ q) = sys_creat b (root @ q)"
    and "sys_mkdir a (root @ q) = sys_mkdir b (root @ q)"
    and "sys_rmdir a (root @ q) = sys_rmdir b (root @ q)"
    and "sys_unlink a (root @ q) = sys_unlink b (root @ q)"
    and "sys_opendir a (root @ q) = sys_opendir b (root @ q)"
  using assms by (auto simp: same_below_def below_def)

lemma same_below_confined:
  assumes "same_below (vfs_root w) a b" and "vfs_ok w" and "canonical cwd" and "nul_free p"
    and "\<And>u r q. vquiet w u \<Longrightarrow> canonical q \<Longrightarrow> real_path u = vfs_root w @ q \<Longrightarrow>
      f (Inr ()) u = g (Inr ()) u"
    and "\<And>e u. f (Inl e) u = g (Inl e) u"
  shows "do { (r, w) \<leftarrow> pool_realpath cwd p w; f r w } = do { (r, w) \<leftarrow> pool_realpath cwd p w; g r w }"
  by (rule pool_realpath_cases [OF assms(2-4)]) (auto simp: assms(5,6))

lemma vfs_ok_idle [simp]: "vfs_ok (idle_world_at s)"
  and vfs_root_idle [simp]: "vfs_root (idle_world_at s) = ''/srv''"
  by (simp_all add: vfs_ok_def vfs_root_def idle_world_at_def nul_free_def)

lemma vfs_same_below:
  assumes "same_below (vfs_root w) a b" and "vfs_ok w" and "canonical cwd" and "nul_free p"
  shows "vfs_stat a cwd p w = vfs_stat b cwd p w" and "vfs_open a cwd p w = vfs_open b cwd p w"
    and "vfs_creat a cwd p m w = vfs_creat b cwd p m w" and "vfs_mkdir a cwd p m w = vfs_mkdir b cwd p m w"
    and "vfs_rmdir a cwd p w = vfs_rmdir b cwd p w" and "vfs_unlink a cwd p w = vfs_unlink b cwd p w"
    and "vfs_opendir a cwd p w = vfs_opendir b cwd p w"
  unfolding vfs_stat_def vfs_open_def vfs_creat_def vfs_mkdir_def vfs_rmdir_def vfs_unlink_def
    vfs_opendir_def
  by (intro same_below_confined [OF assms];
      auto simp: same_belowD [OF assms(1)] real_path_quiet [OF os_call_quiet] split: sum.splits prod.splits)+

text \<open>C2. Confinement: an operation called with a canonical working directory and any client path
  behaves the same on two systems that differ only outside the root directory. Every path it hands to
  the system is the root directory followed by a canonical path.\<close>

theorem vfs_confined:
  assumes "same_below (vfs_root w) a b" and "vfs_ok w" and "canonical cwd" and "nul_free p"
  shows "vfs_stat a cwd p w = vfs_stat b cwd p w \<and> vfs_open a cwd p w = vfs_open b cwd p w
    \<and> vfs_creat a cwd p m w = vfs_creat b cwd p m w \<and> vfs_mkdir a cwd p m w = vfs_mkdir b cwd p m w
    \<and> vfs_rmdir a cwd p w = vfs_rmdir b cwd p w \<and> vfs_unlink a cwd p w = vfs_unlink b cwd p w
    \<and> vfs_opendir a cwd p w = vfs_opendir b cwd p w"
  by (intro conjI vfs_same_below [OF assms])

definition outside_fs :: "unit os" where
  "outside_fs = idle_os\<lparr>os_fs := idle_fs
     \<lparr>fs_open := \<lambda>p s. (if take 5 p = ''/srv/'' then Inl ENOENT else Inr 7, s)\<rparr>\<rparr>"

lemma take_canonical: "canonical q \<Longrightarrow> take 5 (''/srv'' @ q) = ''/srv/''"
  by (cases q) (auto dest: canonical_absolute simp: is_absolute_def)

theorem vfs_confined_witness:
  "vfs_open outside_fs ''/'' ''../../etc/passwd'' idle_world
   = vfs_open idle_os ''/'' ''../../etc/passwd'' idle_world"
proof -
  have "same_below (vfs_root idle_world) outside_fs idle_os"
    using take_canonical by (auto simp: same_below_def below_def outside_fs_def idle_os_def idle_fs_def)
  then show ?thesis
    using vfs_confined [of idle_world outside_fs idle_os "''/''" "''../../etc/passwd''"]
    by (simp add: nul_free_def)
qed

end
