(* ===== verification/Ftp_State.thy ===== *)
theory Ftp_State
  imports Ftp_Child Ftp_Vfs
begin

text \<open>
  \<open>state.c\<close>: the messages a server process writes to the pipe and the master process reads from it. A
  message is a header of three 32-bit integers (little endian) and a payload whose size depends on
  its type. \<open>send_state\<close> and \<open>recv_state\<close> are modelled down to the bytes; the last part proves that
  every message is read back, and that the reader stays in step with the message boundaries.
\<close>

subsection \<open>The wire format\<close>

definition put_int32 :: "int \<Rightarrow> char list" where
  "put_int32 i = put_le 4 (nat (i mod 2 ^ 32))"

definition get_int32 :: "char list \<Rightarrow> int" where
  "get_int32 bs = to_int32 (int (get_le bs))"

definition put_int64 :: "int \<Rightarrow> char list" where
  "put_int64 i = put_le 8 (nat (i mod 2 ^ 64))"

definition get_int64 :: "char list \<Rightarrow> int" where
  "get_int64 bs = to_int64 (int (get_le bs))"

definition put_uint64 :: "64 word \<Rightarrow> char list" where
  "put_uint64 x = put_le 8 (unat x)"

definition get_uint64 :: "char list \<Rightarrow> 64 word" where
  "get_uint64 bs = word_of_nat (get_le bs)"

definition put_timeval :: "timeval \<Rightarrow> char list" where
  "put_timeval t = put_int64 (tv_sec t) @ put_int64 (tv_usec t)"

definition get_timeval :: "char list \<Rightarrow> timeval" where
  "get_timeval bs = \<lparr>tv_sec = get_int64 (take 8 bs), tv_usec = get_int64 (take 8 (drop 8 bs))\<rparr>"

text \<open>\<open>ftp_xfer_info_t\<close> occupies 72 bytes: four 64-bit counters, the status with four bytes of padding,
  and two \<open>struct timeval\<close>. The padding is written as zero.\<close>

definition SIZEOF_XFER_INFO :: nat where "SIZEOF_XFER_INFO = 72"

definition put_xfer_info :: "ftp_xfer_info \<Rightarrow> char list" where
  "put_xfer_info x = put_uint64 (total_down x) @ put_uint64 (total_up x) @ put_uint64 (xfer_len x)
     @ put_uint64 (probe_len x) @ put_int32 (xfer_status x) @ replicate 4 NUL
     @ put_timeval (xfer_start x) @ put_timeval (xfer_probe x)"

definition get_xfer_info :: "char list \<Rightarrow> ftp_xfer_info" where
  "get_xfer_info bs = \<lparr>total_down = get_uint64 (take 8 bs), total_up = get_uint64 (take 8 (drop 8 bs)),
     xfer_len = get_uint64 (take 8 (drop 16 bs)), probe_len = get_uint64 (take 8 (drop 24 bs)),
     xfer_status = get_int32 (take 4 (drop 32 bs)), xfer_start = get_timeval (take 16 (drop 40 bs)),
     xfer_probe = get_timeval (take 16 (drop 56 bs))\<rparr>"

record ftp_state =
  st_pid :: int
  st_magic :: "32 word"
  st_type :: int

definition STATE_MAGIC :: "32 word" where "STATE_MAGIC = 0xDEADBEEF"
definition SIZEOF_STATE :: nat where "SIZEOF_STATE = 12"

definition put_state :: "ftp_state \<Rightarrow> char list" where
  "put_state s = put_int32 (st_pid s) @ put_le 4 (unat (st_magic s)) @ put_int32 (st_type s)"

definition get_state :: "char list \<Rightarrow> ftp_state" where
  "get_state bs = \<lparr>st_pid = get_int32 (take 4 bs), st_magic = word_of_nat (get_le (take 4 (drop 4 bs))),
     st_type = get_int32 (take 4 (drop 8 bs))\<rparr>"

definition T_LOGIN :: int where "T_LOGIN = 0"
definition T_CHDIR :: int where "T_CHDIR = 1"
definition T_XFER_START :: int where "T_XFER_START = 2"
definition T_XFER :: int where "T_XFER = 3"
definition T_XFER_STOP :: int where "T_XFER_STOP = 4"

subsection \<open>Filling the payload\<close>

type_synonym send_fun = "ftp_session \<Rightarrow> buf \<Rightarrow> (int \<times> buf) option"

definition send_login :: send_fun where
  "send_login session b = do {
     b \<leftarrow> blit b 0 (replicate MAX_LOGIN_NAME NUL);
     name \<leftarrow> (if anonymous (login session) then Some ''anonymous''
              else (case user (login session) of Ptr s \<Rightarrow> Some s | _ \<Rightarrow> None));
     (_, b) \<leftarrow> strlcpy b name MAX_LOGIN_NAME;
     Some (FTP_SUCCESS, b) }"

definition send_chdir :: send_fun where
  "send_chdir session b = do {
     (len, b) \<leftarrow> strlcpy b (cstr (virt_path session)) FTP_MAX_PATH;
     Some (if len \<ge> FTP_MAX_PATH then FTP_ERROR else FTP_SUCCESS, b) }"

definition send_xfer :: send_fun where
  "send_xfer session b = do { b \<leftarrow> blit b 0 (put_xfer_info (info session)); Some (FTP_SUCCESS, b) }"

definition send_xfer_start :: send_fun where
  "send_xfer_start session b = do {
     (len, b) \<leftarrow> strlcpy b (cstr (filename session)) FTP_MAX_NAME;
     Some (if len > FTP_MAX_NAME then FTP_ERROR else FTP_SUCCESS, b) }"

definition send_xfer_stop :: send_fun where
  "send_xfer_stop session b = do { b \<leftarrow> blit b 0 (put_xfer_info (info session)); Some (FTP_SUCCESS, b) }"

subsection \<open>Reading the payload\<close>

type_synonym 'o recv_fun = "'o os \<Rightarrow> int \<Rightarrow> ftp_child \<Rightarrow> 'o world \<Rightarrow> ((int \<times> ftp_child) \<times> 'o world) option"

text \<open>\<open>read( fd, b, n )\<close> into the start of an array.\<close>

definition read_into :: "'o os \<Rightarrow> int \<Rightarrow> nat \<Rightarrow> buf \<Rightarrow> 'o world \<Rightarrow> ((buf option) \<times> 'o world) option" where
  "read_into os fd n b w = (case os_call (sys_read os fd n) w of
       (Inl e, w) \<Rightarrow> Some (None, w)
     | (Inr bs, w) \<Rightarrow> do { b \<leftarrow> blit b 0 bs; Some (Some b, w) })"

definition recv_login :: "'o recv_fun" where
  "recv_login os fd child w = do {
     (r, w) \<leftarrow> read_into os fd MAX_LOGIN_NAME (ch_login_name child) w;
     Some (case r of None \<Rightarrow> (FTP_ERROR, child)
       | Some b \<Rightarrow> (FTP_SUCCESS, child\<lparr>ch_login_name := b\<rparr>), w) }"

definition recv_chdir :: "'o recv_fun" where
  "recv_chdir os fd child w = do {
     (r, w) \<leftarrow> read_into os fd FTP_MAX_PATH (ch_path child) w;
     Some (case r of None \<Rightarrow> (FTP_ERROR, child)
       | Some b \<Rightarrow> (FTP_SUCCESS, child\<lparr>ch_path := b\<rparr>), w) }"

definition recv_xfer :: "'o recv_fun" where
  "recv_xfer os fd child w = do {
     (r, w) \<leftarrow> read_into os fd SIZEOF_XFER_INFO (put_xfer_info (ch_xfer_info child)) w;
     Some (case r of None \<Rightarrow> (FTP_ERROR, child)
       | Some b \<Rightarrow> (FTP_SUCCESS, child\<lparr>ch_xfer_info := get_xfer_info b\<rparr>), w) }"

definition recv_xfer_start :: "'o recv_fun" where
  "recv_xfer_start os fd child w = do {
     (r, w) \<leftarrow> read_into os fd FTP_MAX_NAME (ch_filename child) w;
     (case r of None \<Rightarrow> Some ((FTP_ERROR, child), w)
      | Some b \<Rightarrow> do {
          b \<leftarrow> wr b (FTP_MAX_NAME - 1) NUL;
          Some ((FTP_SUCCESS, child\<lparr>ch_filename := b, ch_xfer_in_progress := True\<rparr>), w) }) }"

text \<open>The transfer rate is computed for the log: \<open>diff\<close> is an \<open>int\<close> that the division converts to 64
  bits, and it is never zero.\<close>

definition xfer_rate :: "timeval \<Rightarrow> ftp_xfer_info \<Rightarrow> 64 word option" where
  "xfer_rate now x = (let diff = msecdiff now (xfer_start x);
       diff = (if diff = 0 then 1 else diff);
       d = word_of_int diff
     in if d = 0 then None else Some (xfer_len x div d))"

definition recv_xfer_stop :: "'o recv_fun" where
  "recv_xfer_stop os fd child w = do {
     (r, w) \<leftarrow> read_into os fd SIZEOF_XFER_INFO (put_xfer_info (ch_xfer_info child)) w;
     (case r of None \<Rightarrow> Some ((FTP_ERROR, child), w)
      | Some b \<Rightarrow>
          (let x = get_xfer_info b; (now, w) = os_query (sys_gettimeofday os) w
           in do {
             _ \<leftarrow> xfer_rate now x;
             Some ((FTP_SUCCESS, child\<lparr>ch_xfer_info := x, ch_xfer_in_progress := False\<rparr>), w) })) }"

subsection \<open>The table of message types\<close>

record 'o state_op =
  op_type :: int
  op_recv :: "'o recv_fun"
  op_send :: send_fun
  op_size :: nat

definition state_ops :: "'o state_op list" where
  "state_ops = [
     \<lparr>op_type = T_LOGIN, op_recv = recv_login, op_send = send_login, op_size = 64\<rparr>,
     \<lparr>op_type = T_CHDIR, op_recv = recv_chdir, op_send = send_chdir, op_size = FTP_MAX_PATH\<rparr>,
     \<lparr>op_type = T_XFER_START, op_recv = recv_xfer_start, op_send = send_xfer_start, op_size = FTP_MAX_NAME\<rparr>,
     \<lparr>op_type = T_XFER, op_recv = recv_xfer, op_send = send_xfer, op_size = SIZEOF_XFER_INFO\<rparr>,
     \<lparr>op_type = T_XFER_STOP, op_recv = recv_xfer_stop, op_send = send_xfer_stop, op_size = SIZEOF_XFER_INFO\<rparr>]"

fun scan_state_ops :: "int \<Rightarrow> 'o state_op list \<Rightarrow> 'o state_op option" where
  "scan_state_ops t [] = None"
| "scan_state_ops t (op # ops) = (if op_type op = t then Some op else scan_state_ops t ops)"

definition find_state_op :: "int \<Rightarrow> 'o state_op option" where
  "find_state_op t = scan_state_ops t state_ops"

lemma scan_state_ops_Some: "scan_state_ops t ops = Some e \<Longrightarrow> e \<in> set ops \<and> op_type e = t"
  by (induction ops) (auto split: if_splits)

lemma scan_state_ops_None: "scan_state_ops t ops = None \<Longrightarrow> e \<in> set ops \<Longrightarrow> op_type e \<noteq> t"
  by (induction ops) (auto split: if_splits)

lemmas state_types = T_LOGIN_def T_CHDIR_def T_XFER_START_def T_XFER_def T_XFER_STOP_def

interpretation states: searched_table find_state_op state_ops "\<lambda>t op. op_type op = t"
  by unfold_locales
     (auto simp: find_state_op_def scan_state_ops_Some dest: scan_state_ops_None,
      auto simp: state_ops_def state_types)

definition init_state_pool :: "'o os \<Rightarrow> 'o world \<Rightarrow> int \<times> 'o world" where
  "init_state_pool os w = (let max = foldl (\<lambda>m op. if op_size op > m then op_size op else m) 0
         (state_ops :: 'o state_op list)
     in case c_malloc os max w of
          (False, w) \<Rightarrow> (FTP_ERROR, w\<lparr>w_state_pool := None\<rparr>)
        | (True, w) \<Rightarrow> (FTP_SUCCESS, w\<lparr>w_state_pool := Some (replicate max NUL)\<rparr>))"

definition destroy_state_pool :: "'o world \<Rightarrow> 'o world" where
  "destroy_state_pool w = w\<lparr>w_state_pool := None\<rparr>"

subsection \<open>Sending\<close>

text \<open>\<open>writev\<close>, retried while interrupted; the bytes accepted are recorded.\<close>

partial_function (option) writev_loop ::
  "'o os \<Rightarrow> int \<Rightarrow> char list list \<Rightarrow> 'o world \<Rightarrow> (int \<times> 'o world) option" where
  "writev_loop os fd iov w = (case os_call (sys_writev os fd iov) w of
       (Inl e, w) \<Rightarrow> if e = EINTR then writev_loop os fd iov w else Some (FTP_ERROR, w)
     | (Inr n, w) \<Rightarrow> Some (FTP_SUCCESS,
         w\<lparr>w_out := (w_out w)(fd := w_out w fd @ take n (concat iov))\<rparr>))"

declare writev_loop.simps [code]

definition send_state :: "'o os \<Rightarrow> int \<Rightarrow> 'o world \<Rightarrow> (int \<times> 'o world) option" where
  "send_state os t w = (case w_state_pool w of
       None \<Rightarrow> None
     | Some pool \<Rightarrow> (case (find_state_op t :: 'o state_op option) of
           None \<Rightarrow> Some (FTP_ERROR, w)
         | Some op \<Rightarrow> do {
             (ret, pool) \<leftarrow> op_send op (w_session w) pool;
             let w = w\<lparr>w_state_pool := Some pool\<rparr>;
             if ret \<noteq> FTP_SUCCESS then Some (ret, w)
             else if length pool < op_size op then None
             else writev_loop os (master_pipe (w_conn w))
               [put_state \<lparr>st_pid = sys_getpid os (w_os w), st_magic = STATE_MAGIC, st_type = t\<rparr>,
                take (op_size op) pool] w }))"

subsection \<open>Receiving\<close>

definition SEEK_BUFFER_SIZE :: nat where "SEEK_BUFFER_SIZE = 1024"

fun seek_blocks :: "'o os \<Rightarrow> int \<Rightarrow> nat \<Rightarrow> 'o world \<Rightarrow> int \<times> 'o world" where
  "seek_blocks os fd 0 w = (FTP_SUCCESS, w)"
| "seek_blocks os fd (Suc n) w = (case os_call (sys_read os fd SEEK_BUFFER_SIZE) w of
       (Inl e, w) \<Rightarrow> (FTP_ERROR, w) | (Inr _, w) \<Rightarrow> seek_blocks os fd n w)"

definition seek_pipe :: "'o os \<Rightarrow> int \<Rightarrow> nat \<Rightarrow> 'o world \<Rightarrow> int \<times> 'o world" where
  "seek_pipe os fd offset w =
     (if offset = 0 then (FTP_SUCCESS, w)
      else (case seek_blocks os fd (offset div SEEK_BUFFER_SIZE) w of
          (ret, w) \<Rightarrow>
            if ret \<noteq> FTP_SUCCESS then (ret, w)
            else (case os_call (sys_read os fd (offset mod SEEK_BUFFER_SIZE)) w of
                (Inl e, w) \<Rightarrow> (FTP_ERROR, w) | (Inr _, w) \<Rightarrow> (FTP_SUCCESS, w))))"

text \<open>A short read leaves bytes of the header indeterminate.\<close>

definition recv_state ::
  "'o os \<Rightarrow> int \<Rightarrow> ftp_child list \<Rightarrow> 'o world \<Rightarrow> ((int \<times> ftp_child list) \<times> 'o world) option" where
  "recv_state os fd cs w = (case os_call (sys_read os fd SIZEOF_STATE) w of
       (Inl e, w) \<Rightarrow> Some ((FTP_ERROR, cs), w)
     | (Inr bs, w) \<Rightarrow>
         if length bs < SIZEOF_STATE then None
         else (let state = get_state bs in
           if st_magic state \<noteq> STATE_MAGIC then Some ((FTP_ERROR, cs), w)
           else (case find_state_op (st_type state) of
               None \<Rightarrow> Some ((FTP_ERROR, cs), w)
             | Some op \<Rightarrow> (case find_client cs (st_pid state) of
                   None \<Rightarrow> (case seek_pipe os fd (op_size op) w of (ret, w) \<Rightarrow> Some ((ret, cs), w))
                 | Some i \<Rightarrow> do {
                     ((ret, child), w) \<leftarrow> op_recv op os fd (cs ! i) w;
                     Some ((ret, cs[i := child]), w) }))))"

subsection \<open>Decoding what was encoded\<close>

text \<open>A fixed-size encoding: the decoder reads the value back from the front of any stream.\<close>

locale wire_codec =
  fixes enc :: "'a \<Rightarrow> char list"
    and dec :: "char list \<Rightarrow> 'a"
    and wf :: "'a \<Rightarrow> bool"
    and n :: nat
  assumes dec_enc: "wf x \<Longrightarrow> dec (enc x) = x"
    and length_enc: "length (enc x) = n"
begin

lemma dec_stream [simp]: "wf x \<Longrightarrow> dec (take n (enc x @ rest)) = x"
  by (simp add: dec_enc length_enc)

lemma rest_stream [simp]: "drop n (enc x @ rest) = rest"
  by (simp add: length_enc)

end

lemma length_wire [simp]:
  "length (put_int32 i) = 4" "length (put_int64 i) = 8" "length (put_uint64 x) = 8"
  "length (put_timeval t) = 16" "length (put_xfer_info y) = 72" "length (put_state s) = 12"
  by (simp_all add: put_int32_def put_int64_def put_uint64_def put_timeval_def put_xfer_info_def
      put_state_def)

definition int32_range :: "int \<Rightarrow> bool" where
  "int32_range i \<longleftrightarrow> - (2 ^ 31) \<le> i \<and> i < 2 ^ 31"

definition int64_range :: "int \<Rightarrow> bool" where
  "int64_range i \<longleftrightarrow> - (2 ^ 63) \<le> i \<and> i < 2 ^ 63"

lemma get_put_int32 [simp]: "int32_range i \<Longrightarrow> get_int32 (put_int32 i) = i"
proof -
  assume r: "int32_range i"
  have "nat (i mod 2 ^ 32) < 256 ^ 4" by (simp add: nat_less_iff)
  then have "get_int32 (put_int32 i) = signed_take_bit 31 (take_bit 32 i)"
    by (simp add: get_int32_def put_int32_def to_int32_def take_bit_eq_mod)
  also have "\<dots> = i"
    using r signed_take_bit_int_eq_self [of 31 i]
    by (simp only: signed_take_bit_take_bit int32_range_def) simp
  finally show ?thesis .
qed

lemma get_put_int64 [simp]: "int64_range i \<Longrightarrow> get_int64 (put_int64 i) = i"
proof -
  assume r: "int64_range i"
  have "nat (i mod 2 ^ 64) < 256 ^ 8" by (simp add: nat_less_iff)
  then have "get_int64 (put_int64 i) = signed_take_bit 63 (take_bit 64 i)"
    by (simp add: get_int64_def put_int64_def to_int64_def take_bit_eq_mod)
  also have "\<dots> = i"
    using r signed_take_bit_int_eq_self [of 63 i]
    by (simp only: signed_take_bit_take_bit int64_range_def) simp
  finally show ?thesis .
qed

lemma get_put_uint64 [simp]: "get_uint64 (put_uint64 x) = x"
proof -
  have "unat x < 256 ^ 8" using unsigned_less [of x] by simp
  then show ?thesis by (simp add: get_uint64_def put_uint64_def)
qed

definition timeval_ok :: "timeval \<Rightarrow> bool" where
  "timeval_ok t \<longleftrightarrow> int64_range (tv_sec t) \<and> int64_range (tv_usec t)"

definition xfer_info_ok :: "ftp_xfer_info \<Rightarrow> bool" where
  "xfer_info_ok x \<longleftrightarrow> int32_range (xfer_status x) \<and> timeval_ok (xfer_start x) \<and> timeval_ok (xfer_probe x)"

definition state_ok :: "ftp_state \<Rightarrow> bool" where
  "state_ok s \<longleftrightarrow> int32_range (st_pid s) \<and> int32_range (st_type s)"

lemma get_put_timeval [simp]: "timeval_ok t \<Longrightarrow> get_timeval (put_timeval t) = t"
  by (simp add: timeval_ok_def get_timeval_def put_timeval_def)

interpretation xfer_codec: wire_codec put_xfer_info get_xfer_info xfer_info_ok SIZEOF_XFER_INFO
  by unfold_locales
     (simp_all add: put_xfer_info_def get_xfer_info_def xfer_info_ok_def SIZEOF_XFER_INFO_def)

interpretation state_codec: wire_codec put_state get_state state_ok SIZEOF_STATE
proof unfold_locales
  fix s :: ftp_state
  have "unat (st_magic s) < 256 ^ 4" using unsigned_less [of "st_magic s"] by simp
  then show "state_ok s \<Longrightarrow> get_state (put_state s) = s"
    by (simp add: put_state_def get_state_def state_ok_def)
qed (simp add: SIZEOF_STATE_def)

lemma xfer_rate_defined: "xfer_rate now x \<noteq> None"
proof -
  define d where "d = (if msecdiff now (xfer_start x) = 0 then 1 else msecdiff now (xfer_start x))"
  have r: "- (2 ^ 31) \<le> d" "d < 2 ^ 31" "d \<noteq> 0"
    using to_int32_range [of "(tv_sec now - tv_sec (xfer_start x)) * 1000
        + (tv_usec now - tv_usec (xfer_start x)) sdiv 1000"]
    by (auto simp: d_def msecdiff_def INT_MIN_def INT_MAX_def)
  have "(word_of_int d :: 64 word) \<noteq> 0"
  proof
    assume "(word_of_int d :: 64 word) = 0"
    then have "(2 :: int) ^ 64 dvd d" by (simp add: word_of_int_eq_0_iff)
    then obtain k where "d = 2 ^ 64 * k" by (auto elim: dvdE)
    with r show False by (cases "k = 0"; cases "0 < k") auto
  qed
  then show ?thesis by (simp add: xfer_rate_def Let_def d_def)
qed

subsection \<open>Frame\<close>

definition state_pool_ok :: "'o world \<Rightarrow> bool" where
  "state_pool_ok w \<longleftrightarrow> (\<exists>b. w_state_pool w = Some b \<and> length b = FTP_MAX_PATH)"

text \<open>
  \<open>steady\<close> is the weakest of the three frame relations: a step that keeps the session except its
  transfer counters, the configuration and the root directory, and keeps the three buffers
  well-formed.
\<close>

definition steady :: "'o world \<Rightarrow> 'o world \<Rightarrow> bool" where
  "steady w w' \<longleftrightarrow> w_session w' = (w_session w)\<lparr>info := info (w_session w')\<rparr> \<and> w_config w' = w_config w \<and> vfs_root w' = vfs_root w
     \<and> (vfs_ok w \<longrightarrow> vfs_ok w') \<and> (reply_pool_ok w \<longrightarrow> reply_pool_ok w')
     \<and> (state_pool_ok w \<longrightarrow> state_pool_ok w') \<and> (w_vfs w' = None \<longleftrightarrow> w_vfs w = None)
     \<and> (w_state_pool w' = None \<longleftrightarrow> w_state_pool w = None)"

named_theorems sframe

lemma steady_refl [simp, intro]: "steady w w"
  by (simp add: steady_def)

lemma steady_trans [trans]: "steady u v \<Longrightarrow> steady v w \<Longrightarrow> steady u w"
proof -
  assume a: "steady u v" and b: "steady v w"
  obtain i where i: "w_session v = (w_session u)\<lparr>info := i\<rparr>" using a unfolding steady_def by blast
  obtain j where j: "w_session w = (w_session v)\<lparr>info := j\<rparr>" using b unfolding steady_def by blast
  have "w_session w = (w_session u)\<lparr>info := info (w_session w)\<rparr>" by (simp add: i j)
  with a b show "steady u w" by (simp add: steady_def)
qed

lemma steady_info [simp]: "steady w (upd_info f w)"
  by (simp add: steady_def upd_info_def upd_session_def vfs_root_def vfs_ok_def reply_pool_ok_def
      state_pool_ok_def)

lemma vquiet_steady: "vquiet w w' \<Longrightarrow> steady w w'"
  by (simp add: vquiet_def steady_def state_pool_ok_def)

lemma quiet_steady: "quiet w w' \<Longrightarrow> steady w w'"
  by (simp add: quiet_vquiet vquiet_steady)

lemma steadyD:
  assumes "steady w w'"
  shows "w_conn w' = w_conn w" and "w_command w' = w_command w" and "w_login w' = w_login w"
    and "virt_path (w_session w') = virt_path (w_session w)"
    and "filename (w_session w') = filename (w_session w)"
    and "restart_pos (w_session w') = restart_pos (w_session w)"
    and "w_config w' = w_config w" and "vfs_root w' = vfs_root w"
    and "vfs_ok w \<Longrightarrow> vfs_ok w'" and "reply_pool_ok w \<Longrightarrow> reply_pool_ok w'"
    and "state_pool_ok w \<Longrightarrow> state_pool_ok w'" and "w_vfs w' = None \<longleftrightarrow> w_vfs w = None"
    and "w_state_pool w' = None \<longleftrightarrow> w_state_pool w = None"
proof -
  obtain i where "w_session w' = (w_session w)\<lparr>info := i\<rparr>" using assms unfolding steady_def by blast
  then show "w_conn w' = w_conn w" "w_command w' = w_command w" "w_login w' = w_login w"
    "virt_path (w_session w') = virt_path (w_session w)" "filename (w_session w') = filename (w_session w)"
    "restart_pos (w_session w') = restart_pos (w_session w)" by simp_all
qed (use assms in \<open>simp_all add: steady_def\<close>)

interpretation steady: frame_relation steady
  by unfold_locales (auto intro: steady_trans)

text \<open>The rules of the primitives, for \<open>steady.within_rules\<close>.\<close>

lemma steady_prim:
  assumes "\<And>x v. m = Some (x, v) \<Longrightarrow> quiet u v" and "steady w u" shows "within steady w m"
  using assms quiet_steady steady_trans unfolding within_def by blast

lemma steady_pair:
  assumes "\<And>x v. p = (x, v) \<Longrightarrow> quiet u v" and "steady w u"
    and "\<And>x v. steady w v \<Longrightarrow> within steady w (f x v)"
  shows "within steady w (case p of (x, v) \<Rightarrow> f x v)"
  using assms quiet_steady steady_trans by (cases p) (simp, blast)

lemma steady_pairs:
  assumes "steady w u"
  shows "(\<And>x v. steady w v \<Longrightarrow> within steady w (f1 x v)) \<Longrightarrow>
      within steady w (case os_call g1 u of (x, v) \<Rightarrow> f1 x v)"
    and "(\<And>x v. steady w v \<Longrightarrow> within steady w (f2 x v)) \<Longrightarrow>
      within steady w (case os_query g2 u of (x, v) \<Rightarrow> f2 x v)"
    and "(\<And>x v. steady w v \<Longrightarrow> within steady w (f3 x v)) \<Longrightarrow>
      within steady w (case os_newfd g3 u of (x, v) \<Rightarrow> f3 x v)"
    and "(\<And>x v. steady w v \<Longrightarrow> within steady w (f4 x v)) \<Longrightarrow>
      within steady w (case c_malloc os n u of (x, v) \<Rightarrow> f4 x v)"
    and "(\<And>x v. steady w v \<Longrightarrow> within steady w (f5 x v)) \<Longrightarrow>
      within steady w (case server_handle_signal os u of (x, v) \<Rightarrow> f5 x v)"
  by (rule steady_pair [OF _ assms]; (erule os_call_quiet os_query_quiet os_newfd_quiet c_malloc_quiet
      server_handle_signal_quiet | assumption | blast))+

lemma steady_then_quiet: "steady w u \<Longrightarrow> quiet u v \<Longrightarrow> steady w v"
  by (rule steady_trans [OF _ quiet_steady])

lemma steady_upd [intro!]:
  assumes "steady w u"
  shows "steady w (upd_info f u)" and "steady w (deliver os u)" and "steady w (c_close os fd u)"
    and "steady w (u\<lparr>w_errno := e\<rparr>)" and "steady w (u\<lparr>w_out := out\<rparr>)"
  by (rule steady_trans [OF assms steady_info], (rule steady_then_quiet [OF assms], simp)+)

lemma writev_loop_quiet:
  assumes "writev_loop os fd iov w = Some (r, w')" shows "quiet w w' \<and> w_fds w' = w_fds w"
proof -
  have "quiet w (snd (r, w')) \<and> w_fds (snd (r, w')) = w_fds w"
  proof (rule writev_loop.raw_induct
      [where P = "\<lambda>os fd iov w x. quiet w (snd x) \<and> w_fds (snd x) = w_fds w", OF _ assms])
    fix f and os :: "'a os" and fd iov and w :: "'a world" and x
    assume IH: "\<And>os fd iov w x. f os fd iov w = Some x
        \<Longrightarrow> quiet w (snd x) \<and> w_fds (snd x) = w_fds w"
      and eq: "(case os_call (sys_writev os fd iov) w of
            (Inl e, w) \<Rightarrow> if e = EINTR then f os fd iov w else Some (FTP_ERROR, w)
          | (Inr n, w) \<Rightarrow> Some (FTP_SUCCESS,
              w\<lparr>w_out := (w_out w)(fd := w_out w fd @ take n (concat iov))\<rparr>)) = Some x"
    obtain r1 w1 where c: "os_call (sys_writev os fd iov) w = (r1, w1)" by force
    have q: "quiet w w1" "w_fds w1 = w_fds w"
      using c os_call_quiet [OF c] by (auto simp: os_call_def split: prod.splits sum.splits)
    show "quiet w (snd x) \<and> w_fds (snd x) = w_fds w"
    proof (cases r1)
      case (Inl e)
      then have e: "(if e = EINTR then f os fd iov w1 else Some (FTP_ERROR, w1)) = Some x"
        using eq c by simp
      show ?thesis
      proof (cases "e = EINTR")
        case True
        with e IH [of os fd iov w1 x] q show ?thesis by (auto intro: quiet_trans)
      next
        case False
        with e have "x = (FTP_ERROR, w1)" by simp
        with q show ?thesis by simp
      qed
    next
      case (Inr n)
      with eq c have "x = (FTP_SUCCESS, w1\<lparr>w_out := (w_out w1)(fd := w_out w1 fd @ take n (concat iov))\<rparr>)"
        by simp
      with q show ?thesis by (auto intro: quiet_trans)
    qed
  qed
  then show ?thesis by simp
qed

lemma op_send_length:
  assumes "(op :: 'o state_op) \<in> set state_ops" and "op_send op s b = Some (r, b')"
  shows "length b' = length b"
  using assms
  by (auto simp: state_ops_def send_login_def send_chdir_def send_xfer_def send_xfer_start_def
      send_xfer_stop_def buffer_simps dest!: strlcpy_length_buf elim!: bind_SomeE split: cptr.splits if_splits)

lemma send_state_steady [sframe]:
  assumes "send_state os t w = Some (r, w')" shows "steady w w'"
proof -
  obtain pool where p: "w_state_pool w = Some pool"
    using assms by (auto simp: send_state_def split: option.splits)
  show ?thesis
  proof (cases "find_state_op t :: 'a state_op option")
    case None
    with assms p show ?thesis by (simp add: send_state_def)
  next
    case (Some op)
    with assms p obtain ret b where b: "op_send op (w_session w) pool = Some (ret, b)"
      and fin: "(let w = w\<lparr>w_state_pool := Some b\<rparr>
         in if ret \<noteq> FTP_SUCCESS then Some (ret, w) else if length b < op_size op then None
          else writev_loop os (master_pipe (w_conn w))
               [put_state \<lparr>st_pid = sys_getpid os (w_os w), st_magic = STATE_MAGIC, st_type = t\<rparr>,
                take (op_size op) b] w) = Some (r, w')"
      by (auto simp: send_state_def elim!: bind_SomeE)
    have "length b = length pool"
      using op_send_length [OF _ b] states.search_Some [OF Some] by simp
    then have "steady w (w\<lparr>w_state_pool := Some b\<rparr>)"
      using p by (simp add: steady_def vfs_root_def vfs_ok_def reply_pool_ok_def state_pool_ok_def)
    also have "steady (w\<lparr>w_state_pool := Some b\<rparr>) w'"
      using fin by (auto simp: Let_def split: if_splits dest!: writev_loop_quiet intro: quiet_steady)
    finally show ?thesis .
  qed
qed

lemma send_state_within: "steady w u \<Longrightarrow> within steady w (send_state os t u)"
  unfolding within_def using send_state_steady steady_trans by blast

lemma init_state_pool_result:
  "init_state_pool os w = (r, w') \<Longrightarrow> (r = FTP_SUCCESS \<and> state_pool_ok w') \<or> r = FTP_ERROR"
  by (auto simp: init_state_pool_def Let_def state_pool_ok_def state_ops_def FTP_MAX_PATH_def
      FTP_MAX_NAME_def SIZEOF_XFER_INFO_def split: prod.splits bool.splits)

lemma init_state_pool_ok:
  "mem_ok os \<Longrightarrow> init_state_pool os w = (FTP_SUCCESS, w\<lparr>w_state_pool := Some (replicate FTP_MAX_PATH NUL)\<rparr>)"
  by (simp add: init_state_pool_def Let_def state_ops_def FTP_MAX_PATH_def FTP_MAX_NAME_def
      SIZEOF_XFER_INFO_def)

subsection \<open>Messages across the pipe\<close>

text \<open>
  A pipe, as POSIX describes it for the sizes used here: \<open>contents\<close> is what has been written and not
  yet read; a read takes up to \<open>n\<close> bytes from its front, and a write is accepted whole.
\<close>

definition pipe_at :: "'o os \<Rightarrow> ('o \<Rightarrow> char list) \<Rightarrow> bool" where
  "pipe_at os contents \<longleftrightarrow>
     (\<forall>fd n s. fst (sys_read os fd n s) = Inr (take n (contents s))
        \<and> contents (snd (sys_read os fd n s)) = drop n (contents s))
     \<and> (\<forall>s. contents (snd (sys_gettimeofday os s)) = contents s)"

definition writes_ok :: "'o os \<Rightarrow> bool" where
  "writes_ok os \<longleftrightarrow> (\<forall>fd iov s. sys_writev os fd iov s = (Inr (length (concat iov)), s))"

definition child_ok :: "ftp_child \<Rightarrow> bool" where
  "child_ok c \<longleftrightarrow> length (ch_login_name c) = MAX_LOGIN_NAME \<and> length (ch_path c) = FTP_MAX_PATH
     \<and> length (ch_filename c) = FTP_MAX_NAME"

lemma pipe_read:
  assumes "pipe_at os contents" and "contents (w_os w) = p @ rest" and "length p = n"
  shows "\<exists>s. os_call (sys_read os fd n) w = (Inr p, w\<lparr>w_os := s\<rparr>) \<and> contents s = rest"
proof -
  obtain r s where rs: "sys_read os fd n (w_os w) = (r, s)" by force
  have "r = Inr p" "contents s = rest"
    using assms rs unfolding pipe_at_def by (metis append_eq_conv_conj fst_conv snd_conv)+
  with rs show ?thesis by (auto simp: os_call_def)
qed

lemma pipe_read_into:
  assumes "pipe_at os contents" and "contents (w_os w) = p @ rest" and "length p = n" and "length b = n"
  shows "\<exists>s. read_into os fd n b w = Some (Some p, w\<lparr>w_os := s\<rparr>) \<and> contents s = rest"
proof -
  have "blit b 0 p = Some p" using assms by (simp add: blit_def)
  with pipe_read [OF assms(1-3), of fd] show ?thesis by (auto simp: read_into_def)
qed

lemma pipe_seek:
  assumes "pipe_at os contents" and "contents (w_os w) = p @ rest"
  shows "\<exists>s. seek_pipe os fd (length p) w = (FTP_SUCCESS, w\<lparr>w_os := s\<rparr>) \<and> contents s = rest"
proof (cases "p = []")
  case True
  with assms show ?thesis by (intro exI [of _ "w_os w"]) (simp add: seek_pipe_def)
next
  case False
  have blocks: "\<exists>s. seek_blocks os fd k w = (FTP_SUCCESS, w\<lparr>w_os := s\<rparr>) \<and> contents s = drop (k * SEEK_BUFFER_SIZE) q"
    if "contents (w_os w) = q" "k * SEEK_BUFFER_SIZE \<le> length q" for k q and w :: "'a world"
    using that
  proof (induction k arbitrary: q w)
    case 0
    then show ?case by (intro exI [of _ "w_os w"]) simp
  next
    case (Suc k)
    have ct: "contents (w_os w) = take SEEK_BUFFER_SIZE q @ drop SEEK_BUFFER_SIZE q" using Suc by simp
    have lt: "length (take SEEK_BUFFER_SIZE q) = SEEK_BUFFER_SIZE" using Suc.prems(2) by simp
    obtain s where s: "os_call (sys_read os fd SEEK_BUFFER_SIZE) w = (Inr (take SEEK_BUFFER_SIZE q), w\<lparr>w_os := s\<rparr>)"
      "contents s = drop SEEK_BUFFER_SIZE q"
      using pipe_read [OF assms(1) ct lt, of fd] by blast
    from Suc.IH [of "w\<lparr>w_os := s\<rparr>" "drop SEEK_BUFFER_SIZE q"] s Suc.prems(2)
    show ?case by (auto simp: add.commute)
  qed
  define k where "k = length p div SEEK_BUFFER_SIZE"
  have k: "k * SEEK_BUFFER_SIZE \<le> length p" "length p - k * SEEK_BUFFER_SIZE = length p mod SEEK_BUFFER_SIZE"
    by (simp_all add: k_def minus_div_mult_eq_mod)
  obtain s where s: "seek_blocks os fd k w = (FTP_SUCCESS, w\<lparr>w_os := s\<rparr>)"
    "contents s = drop (k * SEEK_BUFFER_SIZE) p @ rest"
    using blocks [OF assms(2), of k] k(1) by auto
  have l: "length (drop (k * SEEK_BUFFER_SIZE) p) = length p mod SEEK_BUFFER_SIZE" using k(2) by simp
  obtain s' where "os_call (sys_read os fd (length p mod SEEK_BUFFER_SIZE)) (w\<lparr>w_os := s\<rparr>)
      = (Inr (drop (k * SEEK_BUFFER_SIZE) p), w\<lparr>w_os := s'\<rparr>)" "contents s' = rest"
    using pipe_read [OF assms(1) _ l, of "w\<lparr>w_os := s\<rparr>" rest fd] s(2) by auto
  with False s(1) show ?thesis by (simp add: seek_pipe_def k_def) (auto intro: exI [of _ s'])
qed

text \<open>What a received payload does to the client's record.\<close>

definition received :: "int \<Rightarrow> char list \<Rightarrow> ftp_child \<Rightarrow> ftp_child" where
  "received t p c =
     (if t = T_LOGIN then c\<lparr>ch_login_name := p\<rparr>
      else if t = T_CHDIR then c\<lparr>ch_path := p\<rparr>
      else if t = T_XFER_START then c\<lparr>ch_filename := p[FTP_MAX_NAME - 1 := NUL], ch_xfer_in_progress := True\<rparr>
      else if t = T_XFER then c\<lparr>ch_xfer_info := get_xfer_info p\<rparr>
      else c\<lparr>ch_xfer_info := get_xfer_info p, ch_xfer_in_progress := False\<rparr>)"

lemma received_pid [simp]: "ch_pid (received t p c) = ch_pid c"
  by (simp add: received_def)

lemma op_recv_pipe:
  assumes op: "(op :: 'o state_op) \<in> set state_ops" and pipe: "pipe_at os contents"
    and c: "child_ok c" and ct: "contents (w_os w) = p @ rest" and l: "length p = op_size op"
  shows "\<exists>s. op_recv op os fd c w = Some ((FTP_SUCCESS, received (op_type op) p c), w\<lparr>w_os := s\<rparr>)
    \<and> contents s = rest"
proof -
  note r = pipe_read_into [OF pipe ct, of "op_size op" _ fd, OF l]
  have n: "FTP_MAX_NAME - 1 < FTP_MAX_NAME" by (simp add: FTP_MAX_NAME_def)
  consider "op = \<lparr>op_type = T_LOGIN, op_recv = recv_login, op_send = send_login, op_size = 64\<rparr>"
    | "op = \<lparr>op_type = T_CHDIR, op_recv = recv_chdir, op_send = send_chdir, op_size = FTP_MAX_PATH\<rparr>"
    | "op = \<lparr>op_type = T_XFER_START, op_recv = recv_xfer_start, op_send = send_xfer_start, op_size = FTP_MAX_NAME\<rparr>"
    | "op = \<lparr>op_type = T_XFER, op_recv = recv_xfer, op_send = send_xfer, op_size = SIZEOF_XFER_INFO\<rparr>"
    | "op = \<lparr>op_type = T_XFER_STOP, op_recv = recv_xfer_stop, op_send = send_xfer_stop, op_size = SIZEOF_XFER_INFO\<rparr>"
    using op by (auto simp: state_ops_def)
  then show ?thesis
  proof cases
    case 1
    with r [of "ch_login_name c"] c show ?thesis
      by (auto simp: recv_login_def child_ok_def MAX_LOGIN_NAME_def received_def)
  next
    case 2
    with r [of "ch_path c"] c show ?thesis
      by (auto simp: recv_chdir_def child_ok_def received_def state_types)
  next
    case 3
    with r [of "ch_filename c"] c l n show ?thesis
      by (auto simp: recv_xfer_start_def child_ok_def received_def state_types wr_def)
  next
    case 4
    with r [of "put_xfer_info (ch_xfer_info c)"] show ?thesis
      by (auto simp: recv_xfer_def received_def state_types SIZEOF_XFER_INFO_def)
  next
    case 5
    obtain s where s: "read_into os fd 72 (put_xfer_info (ch_xfer_info c)) w = Some (Some p, w\<lparr>w_os := s\<rparr>)"
      "contents s = rest"
      using 5 r [of "put_xfer_info (ch_xfer_info c)"] by (auto simp: SIZEOF_XFER_INFO_def)
    obtain now s' where g: "sys_gettimeofday os s = (now, s')" by force
    have "contents s' = rest" using pipe g s(2) unfolding pipe_at_def by (metis snd_conv)
    moreover obtain q where "xfer_rate now (get_xfer_info p) = Some q"
      using xfer_rate_defined by blast
    ultimately show ?thesis using 5 s(1) g
      by (simp add: recv_xfer_stop_def received_def state_types SIZEOF_XFER_INFO_def os_query_def) (auto intro: exI [of _ s'])
  qed
qed

definition message :: "ftp_state \<Rightarrow> char list \<Rightarrow> char list" where
  "message hdr payload = put_state hdr @ payload"

lemma recv_state_message:
  assumes pipe: "pipe_at (os :: 'o os) contents" and op: "(find_state_op t :: 'o state_op option) = Some op"
    and pid: "int32_range pid" and l: "length payload = op_size op" and cs: "\<forall>c \<in> set cs. child_ok c"
    and ct: "contents (w_os w) = message \<lparr>st_pid = pid, st_magic = STATE_MAGIC, st_type = t\<rparr> payload @ rest"
  shows "\<exists>s. recv_state os fd cs w = Some ((FTP_SUCCESS,
        case find_client cs pid of None \<Rightarrow> cs | Some i \<Rightarrow> cs[i := received t payload (cs ! i)]),
        w\<lparr>w_os := s\<rparr>) \<and> contents s = rest"
proof -
  let ?h = "\<lparr>st_pid = pid, st_magic = STATE_MAGIC, st_type = t\<rparr>"
  have t: "op \<in> set state_ops" "op_type op = t" using states.search_Some [OF op] by auto
  then have ok: "state_ok ?h"
    using pid by (auto simp: state_ok_def state_ops_def state_types int32_range_def)
  obtain s where s: "os_call (sys_read os fd SIZEOF_STATE) w = (Inr (put_state ?h), w\<lparr>w_os := s\<rparr>)"
    "contents s = payload @ rest"
    using pipe_read [OF pipe, of w "put_state ?h" "payload @ rest" SIZEOF_STATE fd] ct
    by (auto simp: message_def SIZEOF_STATE_def)
  have d: "get_state (put_state ?h) = ?h" using state_codec.dec_enc [OF ok] .
  have h: "recv_state os fd cs w = (case find_client cs pid of
      None \<Rightarrow> (case seek_pipe os fd (op_size op) (w\<lparr>w_os := s\<rparr>) of (ret, w) \<Rightarrow> Some ((ret, cs), w))
    | Some i \<Rightarrow> do { ((ret, child), w) \<leftarrow> op_recv op os fd (cs ! i) (w\<lparr>w_os := s\<rparr>);
                    Some ((ret, cs[i := child]), w) })"
    using s(1) d op by (simp add: recv_state_def SIZEOF_STATE_def)
  show ?thesis
  proof (cases "find_client cs pid")
    case None
    obtain s' where "seek_pipe os fd (length payload) (w\<lparr>w_os := s\<rparr>) = (FTP_SUCCESS, w\<lparr>w_os := s'\<rparr>)"
      "contents s' = rest"
      using pipe_seek [OF pipe, of "w\<lparr>w_os := s\<rparr>" payload rest fd] s(2) by auto
    with None h l show ?thesis by auto
  next
    case (Some i)
    then have "child_ok (cs ! i)" using cs find_client_Some(1) [OF Some] by simp
    then obtain s' where "op_recv op os fd (cs ! i) (w\<lparr>w_os := s\<rparr>)
        = Some ((FTP_SUCCESS, received t payload (cs ! i)), w\<lparr>w_os := s'\<rparr>)" "contents s' = rest"
      using op_recv_pipe [OF t(1) pipe _ _ l, of "cs ! i" "w\<lparr>w_os := s\<rparr>" rest fd] s(2) t(2) by auto
    with Some h show ?thesis by auto
  qed
qed

lemma cstr_take: "length (cstr b) < n \<Longrightarrow> cstr (take n b) = cstr b"
  by (induction b arbitrary: n) (auto simp: cstr_def take_Cons split: nat.splits if_splits)

lemma cstr_update_end: "length (cstr b) \<le> n \<Longrightarrow> cstr (b[n := NUL]) = cstr b"
  by (induction b arbitrary: n) (auto simp: cstr_def split: nat.splits if_splits)

text \<open>What the client's record shows of the session after a message of each type.\<close>

definition login_text :: "ftp_session \<Rightarrow> string option" where
  "login_text s = (if anonymous (login s) then Some ''anonymous''
     else (case user (login s) of Ptr u \<Rightarrow> Some u | _ \<Rightarrow> None))"

definition sendable :: "int \<Rightarrow> ftp_session \<Rightarrow> bool" where
  "sendable t s \<longleftrightarrow>
     (if t = T_LOGIN then \<exists>u. login_text s = Some u \<and> nul_free u
      else if t = T_CHDIR then cstr (virt_path s) \<noteq> [] \<and> length (cstr (virt_path s)) < FTP_MAX_PATH
      else if t = T_XFER_START then cstr (filename s) \<noteq> [] \<and> length (cstr (filename s)) < FTP_MAX_NAME
      else t \<in> {T_XFER, T_XFER_STOP} \<and> xfer_info_ok (info s))"

definition shows_session :: "int \<Rightarrow> ftp_session \<Rightarrow> ftp_child \<Rightarrow> bool" where
  "shows_session t s c \<longleftrightarrow>
     (if t = T_LOGIN then \<exists>u. login_text s = Some u \<and> cstr (ch_login_name c) = take 63 u
      else if t = T_CHDIR then cstr (ch_path c) = cstr (virt_path s)
      else if t = T_XFER_START then cstr (ch_filename c) = cstr (filename s) \<and> ch_xfer_in_progress c
      else ch_xfer_info c = info s \<and> (t = T_XFER_STOP \<longrightarrow> \<not> ch_xfer_in_progress c))"

lemma send_login_shows:
  assumes "login_text s = Some u" and "nul_free u" and "length b = FTP_MAX_PATH"
  shows "\<exists>b'. send_login s b = Some (FTP_SUCCESS, b') \<and> length b' = FTP_MAX_PATH
    \<and> cstr (take 64 b') = take 63 u"
proof -
  let ?z = "replicate MAX_LOGIN_NAME NUL @ drop MAX_LOGIN_NAME b"
  have z: "blit b 0 (replicate MAX_LOGIN_NAME NUL) = Some ?z" "length ?z = FTP_MAX_PATH"
    using assms(3) by (simp_all add: blit_def MAX_LOGIN_NAME_def FTP_MAX_PATH_def)
  show ?thesis
  proof (cases "u = []")
    case True
    have "cstr (take 64 ?z) = []" by (simp add: MAX_LOGIN_NAME_def cstr_def)
    with True z assms(1) show ?thesis
      by (auto simp: send_login_def login_text_def split: if_splits cptr.splits)
  next
    case False
    obtain d where d: "strlcpy ?z u MAX_LOGIN_NAME = Some (length u, d)" "length d = length ?z"
      "cstr d = take 63 u"
      using strlcpy_bounded [of MAX_LOGIN_NAME ?z u] False assms z(2)
      by (auto simp: MAX_LOGIN_NAME_def FTP_MAX_PATH_def)
    moreover have "cstr (take 64 d) = take 63 u" using cstr_take [of d 64] d(3) by simp
    ultimately show ?thesis using z assms(1)
      by (auto simp: send_login_def login_text_def split: if_splits cptr.splits)
  qed
qed

lemma op_send_shows:
  assumes "sendable t s" and "length b = FTP_MAX_PATH" and "(find_state_op t :: 'o state_op option) = Some op"
  shows "\<exists>b'. op_send op s b = Some (FTP_SUCCESS, b') \<and> length b' = FTP_MAX_PATH
    \<and> op_size op \<le> FTP_MAX_PATH \<and> shows_session t s (received t (take (op_size op) b') c)"
proof -
  note sz = FTP_MAX_PATH_def FTP_MAX_NAME_def
  have x: "\<exists>b'. blit b 0 (put_xfer_info (info s)) = Some b' \<and> length b' = FTP_MAX_PATH
      \<and> take 72 b' = put_xfer_info (info s)"
    using assms(2) by (simp add: blit_def sz)
  consider "t = T_LOGIN" | "t = T_CHDIR" | "t = T_XFER_START" | "t = T_XFER" | "t = T_XFER_STOP"
    using assms(1) by (auto simp: sendable_def split: if_splits)
  then show ?thesis
  proof cases
    case 1
    then have "op_send op = send_login" "op_size op = 64"
      using assms(3) by (auto simp: find_state_op_def state_ops_def state_types)
    moreover obtain u where u: "login_text s = Some u" "nul_free u"
      using 1 assms(1) by (auto simp: sendable_def)
    moreover obtain b' where "send_login s b = Some (FTP_SUCCESS, b')" "length b' = FTP_MAX_PATH"
      "cstr (take 64 b') = take 63 u"
      using send_login_shows [OF u assms(2)] by blast
    ultimately show ?thesis using 1 by (simp add: shows_session_def received_def sz)
  next
    case 2
    then have "op_send op = send_chdir" "op_size op = FTP_MAX_PATH"
      using assms(3) by (auto simp: find_state_op_def state_ops_def state_types)
    moreover have v: "cstr (virt_path s) \<noteq> []" "length (cstr (virt_path s)) < FTP_MAX_PATH"
      using 2 assms(1) by (auto simp: sendable_def state_types)
    moreover obtain d where "strlcpy b (cstr (virt_path s)) FTP_MAX_PATH = Some (length (cstr (virt_path s)), d)"
      "length d = length b" "cstr d = cstr (virt_path s)"
      using strlcpy_fits [of "cstr (virt_path s)" FTP_MAX_PATH b] v assms(2) by auto
    ultimately show ?thesis using 2 assms(2)
      by (simp add: shows_session_def received_def send_chdir_def state_types)
  next
    case 3
    then have o3: "op_send op = send_xfer_start" "op_size op = FTP_MAX_NAME"
      using assms(3) by (auto simp: find_state_op_def state_ops_def state_types)
    have f: "cstr (filename s) \<noteq> []" "length (cstr (filename s)) < FTP_MAX_NAME"
      using 3 assms(1) by (auto simp: sendable_def state_types)
    then obtain d where d: "strlcpy b (cstr (filename s)) FTP_MAX_NAME = Some (length (cstr (filename s)), d)"
      "length d = length b" "cstr d = cstr (filename s)"
      using strlcpy_fits [of "cstr (filename s)" FTP_MAX_NAME b] assms(2) by (auto simp: sz)
    have "cstr ((take FTP_MAX_NAME d)[FTP_MAX_NAME - 1 := NUL]) = cstr (filename s)"
      using d(3) f(2) cstr_take [of d FTP_MAX_NAME]
      by (subst cstr_update_end) (auto simp: sz)
    with 3 o3 d f assms(2) show ?thesis
      by (auto simp: shows_session_def received_def send_xfer_start_def state_types sz)
  next
    case 4
    then have "op_send op = send_xfer" "op_size op = 72"
      using assms(3) by (auto simp: find_state_op_def state_ops_def state_types SIZEOF_XFER_INFO_def)
    with 4 x assms(1) show ?thesis
      by (auto simp: sendable_def shows_session_def received_def send_xfer_def state_types sz
          xfer_codec.dec_enc)
  next
    case 5
    then have "op_send op = send_xfer_stop" "op_size op = 72"
      using assms(3) by (auto simp: find_state_op_def state_ops_def state_types SIZEOF_XFER_INFO_def)
    with 5 x assms(1) show ?thesis
      by (auto simp: sendable_def shows_session_def received_def send_xfer_stop_def state_types sz
          xfer_codec.dec_enc)
  qed
qed

lemma send_state_emits:
  assumes wr: "writes_ok (os :: 'o os)" and sp: "w_state_pool w = Some b" "length b = FTP_MAX_PATH"
    and op: "(find_state_op t :: 'o state_op option) = Some op"
    and snd: "op_send op (w_session w) b = Some (FTP_SUCCESS, b')" "length b' = FTP_MAX_PATH"
    and le: "op_size op \<le> FTP_MAX_PATH"
  shows "send_state os t w = Some (FTP_SUCCESS, emit (master_pipe (w_conn w))
      (message \<lparr>st_pid = sys_getpid os (w_os w), st_magic = STATE_MAGIC, st_type = t\<rparr>
        (take (op_size op) b')) (w\<lparr>w_state_pool := Some b'\<rparr>))"
proof -
  have "writev_loop os fd iov v = Some (FTP_SUCCESS, emit fd (concat iov) v)" for fd iov v
    using wr by (simp add: writev_loop.simps os_call_def writes_ok_def emit_def)
  with sp op snd le show ?thesis by (simp add: send_state_def message_def Let_def)
qed

definition pipe_os :: "char list os" where
  "pipe_os = idle_os\<lparr>os_io := idle_io\<lparr>io_read := \<lambda>fd n s. (Inr (take n s), drop n s)\<rparr>\<rparr>"

lemma pipe_os_pipe [simp]: "pipe_at pipe_os (\<lambda>s. s)"
  by (simp add: pipe_at_def pipe_os_def idle_io_def)

lemma idle_os_writes [simp]: "writes_ok idle_os"
  by (simp add: writes_ok_def idle_os_def idle_io_def)

definition some_child :: "int \<Rightarrow> ftp_child" where
  "some_child pid = \<lparr>ch_pid = pid, ch_connected = 0, ch_client_addr = '''',
     ch_login_name = replicate MAX_LOGIN_NAME NUL, ch_path = replicate FTP_MAX_PATH NUL,
     ch_filename = replicate FTP_MAX_NAME NUL, ch_xfer_info = zero_xfer_info, ch_xfer_in_progress = False\<rparr>"

lemma some_child_ok [simp]: "child_ok (some_child pid)" "ch_pid (some_child pid) = pid"
  by (simp_all add: child_ok_def some_child_def)

text \<open>The message, and the buffer it was made in.\<close>

lemma send_state_received:
  assumes "writes_ok a" and "state_pool_ok w" and "sendable t (w_session w)"
    and "int32_range (sys_getpid a (w_os w))" and "pipe_at b contents" and "\<forall>c \<in> set cs. child_ok c"
    and "find_client cs (sys_getpid a (w_os w)) = Some i"
  shows "\<exists>p msg. send_state a t w = Some (FTP_SUCCESS, emit (master_pipe (w_conn w)) msg (w\<lparr>w_state_pool := Some p\<rparr>))
    \<and> length p = FTP_MAX_PATH
    \<and> (\<forall>v rest fd. contents (w_os v) = msg @ rest \<longrightarrow>
        (\<exists>c s. recv_state b fd cs v = Some ((FTP_SUCCESS, cs[i := c]), v\<lparr>w_os := s\<rparr>)
           \<and> contents s = rest \<and> shows_session t (w_session w) c))"
proof -
  obtain p where p: "w_state_pool w = Some p" "length p = FTP_MAX_PATH"
    using assms(2) by (auto simp: state_pool_ok_def)
  have t: "t \<in> {T_LOGIN, T_CHDIR, T_XFER_START, T_XFER, T_XFER_STOP}"
    using assms(3) by (auto simp: sendable_def split: if_splits)
  have fnd: "\<exists>op. find_state_op t = Some op"
    using t by (auto simp: find_state_op_def state_ops_def)
  obtain op where op: "(find_state_op t :: 'a state_op option) = Some op" using fnd by blast
  obtain op' where op': "(find_state_op t :: 'b state_op option) = Some op'" using fnd by blast
  have sz: "op_size op' = op_size op" "op_send op' = op_send op"
    using t op op' by (auto simp: find_state_op_def state_ops_def state_types)
  obtain p' where p': "op_send op (w_session w) p = Some (FTP_SUCCESS, p')" "length p' = FTP_MAX_PATH"
    "op_size op \<le> FTP_MAX_PATH" "shows_session t (w_session w) (received t (take (op_size op) p') (cs ! i))"
    using op_send_shows [OF assms(3) p(2) op, of "cs ! i"] by blast
  let ?h = "\<lparr>st_pid = sys_getpid a (w_os w), st_magic = STATE_MAGIC, st_type = t\<rparr>"
  let ?m = "message ?h (take (op_size op) p')"
  have "send_state a t w = Some (FTP_SUCCESS, emit (master_pipe (w_conn w)) ?m (w\<lparr>w_state_pool := Some p'\<rparr>))"
    by (rule send_state_emits [OF assms(1) p op p'(1-3)])
  moreover have "\<exists>s. recv_state b fd cs v = Some ((FTP_SUCCESS, cs[i := received t (take (op_size op) p') (cs ! i)]),
      v\<lparr>w_os := s\<rparr>) \<and> contents s = rest" if "contents (w_os v) = ?m @ rest" for v rest fd
    using recv_state_message [OF assms(5) op' assms(4) _ assms(6) that, of fd] sz p'(2,3) assms(7) by simp
  ultimately have "send_state a t w = Some (FTP_SUCCESS,
      emit (master_pipe (w_conn w)) ?m (w\<lparr>w_state_pool := Some p'\<rparr>))"
    and "\<forall>v rest fd. contents (w_os v) = ?m @ rest \<longrightarrow>
        (\<exists>c s. recv_state b fd cs v = Some ((FTP_SUCCESS, cs[i := c]), v\<lparr>w_os := s\<rparr>)
           \<and> contents s = rest \<and> shows_session t (w_session w) c)"
    using p'(4) by blast+
  then show ?thesis using p'(2) by (intro exI [of _ p'] exI [of _ ?m] conjI)
qed

text \<open>C18. What a session reports arrives: \<open>send_state\<close> succeeds, writes one message to the pipe, and
  \<open>recv_state\<close> on any stream that starts with it records in the client's entry exactly what the
  session holds (login name cut to 63 bytes, directory, file name, transfer counters).\<close>

theorem state_roundtrip:
  assumes "writes_ok a" and "state_pool_ok w" and "sendable t (w_session w)"
    and "int32_range (sys_getpid a (w_os w))" and "pipe_at b contents" and "\<forall>c \<in> set cs. child_ok c"
    and "find_client cs (sys_getpid a (w_os w)) = Some i"
  shows "\<exists>w1 msg. send_state a t w = Some (FTP_SUCCESS, w1)
    \<and> w_out w1 (master_pipe (w_conn w)) = w_out w (master_pipe (w_conn w)) @ msg
    \<and> (\<forall>v rest fd. contents (w_os v) = msg @ rest \<longrightarrow>
        (\<exists>c s. recv_state b fd cs v = Some ((FTP_SUCCESS, cs[i := c]), v\<lparr>w_os := s\<rparr>)
           \<and> contents s = rest \<and> shows_session t (w_session w) c))"
  using send_state_received [OF assms] by (auto simp: emit_def)

theorem state_roundtrip_witness:
  "\<exists>w1 msg. send_state idle_os T_XFER (idle_world\<lparr>w_state_pool := Some (replicate FTP_MAX_PATH NUL)\<rparr>)
      = Some (FTP_SUCCESS, w1) \<and> w_out w1 5 = msg
    \<and> (\<exists>c s. recv_state pipe_os 6 [some_child 1] (idle_world_at (msg @ ''rest''))
          = Some ((FTP_SUCCESS, [c]), (idle_world_at (msg @ ''rest''))\<lparr>w_os := s\<rparr>)
        \<and> s = ''rest'' \<and> ch_xfer_info c = info idle_session)"
proof -
  let ?w = "idle_world\<lparr>w_state_pool := Some (replicate FTP_MAX_PATH NUL)\<rparr>"
  have s: "sendable T_XFER (w_session ?w)"
    by (simp add: sendable_def state_types xfer_info_ok_def idle_session_def int32_range_def
        timeval_ok_def int64_range_def)
  have g: "sys_getpid idle_os s = 1" for s :: unit by (simp add: idle_os_def idle_proc_def)
  have f: "find_client [some_child 1] (sys_getpid idle_os (w_os ?w)) = Some 0"
    by (simp add: g find_client_def)
  obtain w1 msg where m: "send_state idle_os T_XFER ?w = Some (FTP_SUCCESS, w1)" "w_out w1 5 = msg"
    "\<And>v rest fd. w_os v = msg @ rest \<Longrightarrow>
        \<exists>c s. recv_state pipe_os fd [some_child 1] v = Some ((FTP_SUCCESS, [c]), v\<lparr>w_os := s\<rparr>)
           \<and> s = rest \<and> shows_session T_XFER idle_session c"
    using state_roundtrip [OF idle_os_writes _ s _ pipe_os_pipe _ f]
    by (auto simp: state_pool_ok_def g int32_range_def)
  with m(3) [of "idle_world_at (msg @ ''rest'')" "''rest''" 6] show ?thesis
    by (auto simp: shows_session_def state_types)
qed

end
