(* ===== verification/Ftp_Transfer.thy ===== *)
theory Ftp_Transfer
  imports Ftp_State
begin

text \<open>
  The data connection: \<open>splice_stream\<close> of \<open>stream.c\<close>, \<open>throttle_pause\<close> of \<open>throttle.c\<close>,
  \<open>accept_data_conn\<close> of \<open>util.c\<close>, and the two transfer loops of \<open>core.c\<close>. The loops retry for as long
  as the system interrupts them, so not returning is \<open>None\<close>. The lemmas state what a transfer
  delivers when \<open>sendfile\<close> and \<open>read\<close> move as many bytes as they like; the properties, what a pause does
  and what a download loses when \<open>sendfile\<close> is short.
\<close>

definition XFER_BLOCK_SIZE :: int where "XFER_BLOCK_SIZE = 4096"

datatype stream_type = S_FILE | S_SOCKET

record stream =
  stream_fd :: int
  stream_kind :: stream_type

subsection \<open>Copying one block\<close>

text \<open>
  \<open>ssize_t\<close> results: \<open>-1\<close> is a failure, with \<open>errno\<close>. The offsets are the contents of the pointers
  \<open>out_offset\<close> and \<open>in_offset\<close>, null pointers are \<open>None\<close>. A failed \<open>write\<close> still adds its result to
  the output offset.
\<close>

definition lseek_opt :: "'o os \<Rightarrow> int \<Rightarrow> int option \<Rightarrow> 'o world \<Rightarrow> 'o world" where
  "lseek_opt os fd off w = (case off of None \<Rightarrow> w | Some n \<Rightarrow> snd (os_call (sys_lseek os fd n) w))"

definition splice_stream :: "'o os \<Rightarrow> stream \<Rightarrow> int option \<Rightarrow> stream \<Rightarrow> int option \<Rightarrow> nat \<Rightarrow> 'o world
    \<Rightarrow> (int \<times> int option \<times> int option) \<times> 'o world" where
  "splice_stream os out out_off inp in_off count w = (
     let w = lseek_opt os (stream_fd out) out_off w;
         w = lseek_opt os (stream_fd inp) in_off w
     in if stream_kind inp = S_FILE \<and> stream_kind out = S_SOCKET
        then (case os_call (sys_sendfile os (stream_fd out) (stream_fd inp) in_off count) w of
            (Inl e, w) \<Rightarrow> ((-1, out_off, in_off), w)
          | (Inr n, w) \<Rightarrow> ((int n, out_off, map_option (\<lambda>i. i + int n) in_off), w))
        else (case c_malloc os count w of
            (False, w) \<Rightarrow> ((-1, out_off, in_off), w\<lparr>w_errno := ENOMEM\<rparr>)
          | (True, w) \<Rightarrow> (case os_call (sys_read os (stream_fd inp) count) w of
                (Inl e, w) \<Rightarrow> ((-1, out_off, in_off), w)
              | (Inr bs, w) \<Rightarrow>
                  if bs = [] then ((0, out_off, in_off), w)
                  else (let in_off = map_option (\<lambda>i. i + int (length bs)) in_off
                    in case os_call (sys_write os (stream_fd out) bs) w of
                        (Inl e, w) \<Rightarrow> ((-1, map_option (\<lambda>i. i - 1) out_off, in_off), w)
                      | (Inr n, w) \<Rightarrow> ((int n, map_option (\<lambda>i. i + int n) out_off, in_off),
                          w\<lparr>w_out := (w_out w)(stream_fd out := w_out w (stream_fd out) @ take n bs)\<rparr>)))))"

subsection \<open>Throttling\<close>

text \<open>\<open>while( nanosleep( slp, rem ) )\<close> with the two buffers swapped.\<close>

partial_function (option) nanosleep_loop ::
  "'o os \<Rightarrow> int \<times> int \<Rightarrow> 'o world \<Rightarrow> 'o world option" where
  "nanosleep_loop os slp w = (case os_query (sys_nanosleep os slp) w of
       (None, w) \<Rightarrow> Some w
     | (Some rem, w) \<Rightarrow> nanosleep_loop os rem w)"

declare nanosleep_loop.simps [code]

text \<open>How long to sleep: the time the bytes since the last probe should have taken, less the time
  they took, in milliseconds; \<open>None\<close> when no pause is due.\<close>

definition throttle_delay :: "int \<Rightarrow> int \<Rightarrow> int \<Rightarrow> int option" where
  "throttle_delay rate transfer_size diff =
     (if rate < 1 then None
      else (let idealdiff = transfer_size sdiv rate
        in if idealdiff < diff then None else Some (idealdiff - diff)))"

text \<open>Every half second the master is told, and the probe starts again.\<close>

definition throttle_report :: "'o os \<Rightarrow> int \<Rightarrow> 'o world \<Rightarrow> 'o world option" where
  "throttle_report os diff w =
     (if diff > 500
      then do {
        (_, w) \<leftarrow> send_state os T_XFER w;
        (case os_query (sys_gettimeofday os) w of (t, w) \<Rightarrow>
           Some (upd_info (\<lambda>i. i\<lparr>xfer_probe := t, probe_len := 0\<rparr>) w)) }
      else Some w)"

definition throttle_sleep :: "'o os \<Rightarrow> int \<Rightarrow> int \<Rightarrow> 'o world \<Rightarrow> 'o world option" where
  "throttle_sleep os transfer_size diff w =
     (case throttle_delay (cfg_throttle_rate (w_config w)) transfer_size diff of
        None \<Rightarrow> Some w
      | Some ms \<Rightarrow> nanosleep_loop os (ms sdiv 1000, (ms smod 1000) * 1000000) w)"

definition throttle_pause :: "'o os \<Rightarrow> 'o world \<Rightarrow> (int \<times> 'o world) option" where
  "throttle_pause os w = (case os_query (sys_gettimeofday os) w of (now, w) \<Rightarrow>
     let transfer_size = to_int32 (uint (probe_len (w_info w)));
         diff = msecdiff now (xfer_probe (w_info w))
     in if diff < 0
        then (case os_query (sys_gettimeofday os) w of (t, w) \<Rightarrow>
          Some (FTP_SUCCESS, upd_info (\<lambda>i. i\<lparr>xfer_probe := t\<rparr>) w))
        else do {
          w \<leftarrow> throttle_report os diff w;
          w \<leftarrow> throttle_sleep os transfer_size diff w;
          Some (FTP_SUCCESS, w) })"

subsection \<open>Accepting the data connection\<close>

definition accept_data_conn :: "'o os \<Rightarrow> ftp_conn \<Rightarrow> 'o world \<Rightarrow> (int \<times> 'o world) option" where
  "accept_data_conn os con w =
     (case os_newfd (\<lambda>s. case sys_accept os (pasv_sock con) s of
          (Inl e, s) \<Rightarrow> (Inl e, s) | (Inr (fd, _), s) \<Rightarrow> (Inr fd, s)) w of
        (Inr fd, w) \<Rightarrow> Some (fd, w)
      | (Inl e, w) \<Rightarrow>
          (case (if e = EINTR then server_handle_signal os w else (FTP_SUCCESS, w)) of
             (sig, w) \<Rightarrow>
               if sig \<noteq> FTP_SUCCESS then Some (-2, w)
               else if e = ECONNABORTED then Some (-2, w)
               else do {
                 (_, w) \<leftarrow> reply os con (''425 Cannot open data connection'' @ CRLF) w;
                 Some (-1, w) }))"

subsection \<open>Sending a file\<close>

text \<open>The retry loop around one block: \<open>Inl\<close> is the code to return from the transfer with.\<close>

definition splice_failed :: "errno \<Rightarrow> int" where
  "splice_failed e = (if e = EPIPE \<or> e = ECONNRESET then FTP_ABOR else FTP_ERROR)"

partial_function (option) splice_retry ::
  "'o os \<Rightarrow> stream \<Rightarrow> stream \<Rightarrow> int \<Rightarrow> nat \<Rightarrow> 'o world \<Rightarrow> ((int + int) \<times> 'o world) option" where
  "splice_retry os out inp off count w =
     (case splice_stream os out None inp (Some off) count w of ((ret, _, off'), w) \<Rightarrow>
        if ret \<noteq> -1 then Some (Inr ret, w)
        else if w_errno w = EINTR
        then (case server_handle_signal os w of (sig, w) \<Rightarrow>
               if sig \<noteq> FTP_SUCCESS then Some (Inl FTP_QUIT, w)
               else splice_retry os out inp (case off' of None \<Rightarrow> off | Some o' \<Rightarrow> o') count w)
        else Some (Inl (splice_failed (w_errno w)), w))"

declare splice_retry.simps [code]

text \<open>The blocks \<open>i, i + 1, ...\<close>, \<open>n\<close> of them.\<close>

fun transfer_blocks ::
  "'o os \<Rightarrow> stream \<Rightarrow> stream \<Rightarrow> int \<Rightarrow> nat \<Rightarrow> nat \<Rightarrow> 'o world \<Rightarrow> (int \<times> 'o world) option" where
  "transfer_blocks os data inp file_offset i 0 w = Some (FTP_SUCCESS, w)"
| "transfer_blocks os data inp file_offset i (Suc n) w = do {
     (r, w) \<leftarrow> splice_retry os data inp (file_offset + int i * XFER_BLOCK_SIZE) (nat XFER_BLOCK_SIZE) w;
     (case r of
        Inl code \<Rightarrow> Some (code, w)
      | Inr ret \<Rightarrow>
          if ret = 0 then Some (FTP_ABOR, w)
          else do {
            let w = upd_info (\<lambda>x. x\<lparr>xfer_len := xfer_len x + of_int XFER_BLOCK_SIZE,
                       probe_len := probe_len x + of_int XFER_BLOCK_SIZE\<rparr>) w;
            (_, w) \<leftarrow> throttle_pause os w;
            (case server_handle_signal os w of (sig, w) \<Rightarrow>
               if sig \<noteq> FTP_SUCCESS then Some (FTP_QUIT, w)
               else transfer_blocks os data inp file_offset (Suc i) n w) }) }"

definition begin_transfer :: "'o os \<Rightarrow> 'o world \<Rightarrow> 'o world" where
  "begin_transfer os w = (case os_query (sys_gettimeofday os) w of (t, w) \<Rightarrow>
     upd_info (\<lambda>x. x\<lparr>xfer_start := t, xfer_probe := t, xfer_len := 0, probe_len := 0\<rparr>) w)"

definition transfer_file ::
  "'o os \<Rightarrow> stream \<Rightarrow> stream \<Rightarrow> int \<Rightarrow> int \<Rightarrow> 'o world \<Rightarrow> (int \<times> 'o world) option" where
  "transfer_file os data inp file_offset count w = (
     let w = begin_transfer os w;
         blocks = to_int32 (count sdiv XFER_BLOCK_SIZE);
         remainder = count smod XFER_BLOCK_SIZE
     in do {
       (r, w) \<leftarrow> transfer_blocks os data inp file_offset 0 (nat blocks) w;
       if r \<noteq> FTP_SUCCESS then Some (r, w)
       else do {
         (s, w) \<leftarrow> splice_retry os data inp (file_offset + count - remainder) (nat remainder) w;
         (case s of
            Inl code \<Rightarrow> Some (code, w)
          | Inr _ \<Rightarrow> Some (FTP_SUCCESS,
              upd_info (\<lambda>x. x\<lparr>xfer_len := xfer_len x + of_int remainder\<rparr>) w)) } })"

subsection \<open>Receiving a file\<close>

partial_function (option) store_loop ::
  "'o os \<Rightarrow> stream \<Rightarrow> stream \<Rightarrow> int \<Rightarrow> 'o world \<Rightarrow> (int \<times> 'o world) option" where
  "store_loop os fileout data offset w =
     (case splice_stream os fileout (Some offset) data None (nat XFER_BLOCK_SIZE) w of
        ((ret, off', _), w) \<Rightarrow>
          let offset = (case off' of None \<Rightarrow> offset | Some o' \<Rightarrow> o')
          in if ret = 0 then Some (FTP_SUCCESS, w)
             else if ret = -1
             then (if w_errno w = EINTR
                   then (case server_handle_signal os w of (sig, w) \<Rightarrow>
                     if sig \<noteq> FTP_SUCCESS then Some (FTP_QUIT, w) else store_loop os fileout data offset w)
                   else Some (splice_failed (w_errno w), w))
             else (case throttle_pause os (upd_info (\<lambda>x. x\<lparr>probe_len := probe_len x + of_int ret,
                       xfer_len := xfer_len x + of_int ret\<rparr>) w) of
                 None \<Rightarrow> None
               | Some (_, w) \<Rightarrow>
                   (let w = deliver os w
                    in if w_signal_flag w \<noteq> 0
                       then (case server_handle_signal os w of (sig, w) \<Rightarrow>
                         if sig \<noteq> FTP_SUCCESS then Some (FTP_QUIT, w)
                         else store_loop os fileout data offset w)
                       else store_loop os fileout data offset w)))"

declare store_loop.simps [code]

definition store_file :: "'o os \<Rightarrow> stream \<Rightarrow> stream \<Rightarrow> 'o world \<Rightarrow> (int \<times> 'o world) option" where
  "store_file os fileout data w = (
     let offset = restart_pos (w_session w); w = begin_transfer os w
     in store_loop os fileout data offset w)"

subsection \<open>Frame\<close>

lemma quiet_snd_os_call [simp]: "quiet w (snd (os_call f w))"
  by (cases "os_call f w") (simp add: os_call_quiet)

lemma lseek_opt_quiet [simp]: "quiet w (lseek_opt os fd off w)"
  by (simp add: lseek_opt_def split: option.splits)

lemma quiet_out: "quiet u w \<Longrightarrow> quiet u (w\<lparr>w_out := f\<rparr>)"
  by (simp add: quiet_def reply_pool_ok_def)

lemma splice_stream_quiet [frame]:
  assumes "splice_stream os out oo inp io n w = (r, w')" shows "quiet w w'"
proof -
  define v where "v = lseek_opt os (stream_fd inp) io (lseek_opt os (stream_fd out) oo w)"
  have "quiet w v" unfolding v_def by (rule quiet_trans [OF lseek_opt_quiet lseek_opt_quiet])
  moreover have "quiet v w'"
    using assms unfolding splice_stream_def Let_def v_def [symmetric]
    by (auto split: if_splits prod.splits sum.splits bool.splits
        dest!: os_call_quiet c_malloc_quiet intro: quiet_trans quiet_out quiet_errno)
  ultimately show ?thesis by (rule quiet_trans)
qed

lemma nanosleep_loop_quiet [frame]:
  assumes "nanosleep_loop os t w = Some w'" shows "quiet w w'"
proof (rule nanosleep_loop.raw_induct [where P = "\<lambda>os t w w'. quiet w w'", OF _ assms])
  fix f and os :: "'a os" and t and w w' :: "'a world"
  assume IH: "\<And>os t w w'. f os t w = Some w' \<Longrightarrow> quiet w w'"
    and eq: "(case os_query (sys_nanosleep os t) w of (None, w) \<Rightarrow> Some w
      | (Some rem, w) \<Rightarrow> f os rem w) = Some w'"
  obtain r w1 where c: "os_query (sys_nanosleep os t) w = (r, w1)" by force
  show "quiet w w'"
    using eq c os_query_quiet [OF c] IH by (cases r) (auto intro: quiet_trans)
qed

text \<open>The rules of this component's computations, for \<open>steady.within_rules\<close>.\<close>

lemma steady_splice [intro]:
  "steady w u \<Longrightarrow> (\<And>x v. steady w v \<Longrightarrow> within steady w (f x v)) \<Longrightarrow>
     within steady w (case splice_stream os a b c d n u of (x, v) \<Rightarrow> f x v)"
  by (rule steady_pair [OF splice_stream_quiet])

lemma throttle_report_steady:
  assumes "throttle_report os diff w = Some v" shows "steady w v"
proof -
  have "within steady w (do { v \<leftarrow> throttle_report os diff w; Some ((), v) })"
  proof (cases "diff > 500")
    case True
    have "within steady w (do { (_, v) \<leftarrow> send_state os T_XFER w;
        (case os_query (sys_gettimeofday os) v of (t, v) \<Rightarrow>
          Some ((), upd_info (\<lambda>i. i\<lparr>xfer_probe := t, probe_len := 0\<rparr>) v)) })"
      by (auto intro!: steady.within_rules steady_pairs send_state_within)
    then show ?thesis using True by (simp add: throttle_report_def case_prod_unfold)
  qed (simp add: throttle_report_def within_def)
  then show ?thesis using assms by (simp add: within_def)
qed

lemma throttle_sleep_steady: "throttle_sleep os ts diff w = Some v \<Longrightarrow> steady w v"
  by (auto simp: throttle_sleep_def split: option.splits dest!: nanosleep_loop_quiet intro: quiet_steady)

lemma throttle_pause_within:
  assumes "steady w u" shows "within steady w (throttle_pause os u)"
proof -
  have tail: "within steady w (do { v \<leftarrow> throttle_report os diff v; v \<leftarrow> throttle_sleep os ts diff v;
      Some (FTP_SUCCESS, v) })" if "steady w v" for v ts diff
    using that by (auto simp: within_def elim!: bind_SomeE dest!: throttle_report_steady
        throttle_sleep_steady intro: steady_trans)
  show ?thesis
    unfolding throttle_pause_def Let_def
    by (intro steady_pairs steady.within_rules tail steady_upd assms)
qed

lemma accept_data_conn_quiet [frame]:
  assumes "accept_data_conn os con w = Some (r, w')" shows "quiet w w'"
proof -
  let ?acc = "\<lambda>s. case sys_accept os (pasv_sock con) s of
      (Inl e, s) \<Rightarrow> (Inl e, s) | (Inr (fd, _), s) \<Rightarrow> (Inr fd, s)"
  obtain x w1 where c: "os_newfd ?acc w = (x, w1)" by force
  have q: "quiet w w1" by (rule os_newfd_quiet [OF c])
  show ?thesis
  proof (cases x)
    case (Inl e)
    obtain sig w2 where h: "(if e = EINTR then server_handle_signal os w1 else (FTP_SUCCESS, w1)) = (sig, w2)"
      by force
    have "quiet w1 w2" using h by (auto split: if_splits dest: server_handle_signal_quiet)
    moreover have "quiet w2 w'"
      using assms c Inl h
      by (auto simp: accept_data_conn_def split: if_splits elim!: bind_SomeE dest!: reply_quiet)
    ultimately show ?thesis using q quiet_trans by blast
  qed (use assms c q in \<open>simp add: accept_data_conn_def\<close>)
qed

lemma splice_retry_quiet [frame]:
  assumes "splice_retry os out inp off n w = Some (r, w')" shows "quiet w w'"
proof -
  have "quiet w (snd (r, w'))"
  proof (rule splice_retry.raw_induct [where P = "\<lambda>os out inp off n w x. quiet w (snd x)", OF _ assms])
    fix f and os :: "'a os" and out inp off n and w :: "'a world" and x
    assume IH: "\<And>os out inp off n w x. f os out inp off n w = Some x \<Longrightarrow> quiet w (snd x)"
      and eq: "(case splice_stream os out None inp (Some off) n w of ((ret, _, off'), w) \<Rightarrow>
        if ret \<noteq> -1 then Some (Inr ret, w)
        else if w_errno w = EINTR
        then (case server_handle_signal os w of (sig, w) \<Rightarrow>
               if sig \<noteq> FTP_SUCCESS then Some (Inl FTP_QUIT, w)
               else f os out inp (case off' of None \<Rightarrow> off | Some o' \<Rightarrow> o') n w)
        else Some (Inl (splice_failed (w_errno w)), w)) = Some x"
    obtain ret oo off' w1 where c: "splice_stream os out None inp (Some off) n w = ((ret, oo, off'), w1)"
      by (metis prod_cases3 surj_pair)
    obtain sig w2 where h: "server_handle_signal os w1 = (sig, w2)" by force
    have q: "quiet w w1" "quiet w w2"
      using splice_stream_quiet [OF c] server_handle_signal_quiet [OF h] by (auto intro: quiet_trans)
    show "quiet w (snd x)"
    proof (cases "ret = -1 \<and> w_errno w1 = EINTR \<and> sig = FTP_SUCCESS")
      case True
      with eq c h have "f os out inp (case off' of None \<Rightarrow> off | Some o' \<Rightarrow> o') n w2 = Some x" by simp
      then show ?thesis using IH q(2) quiet_trans by blast
    next
      case False
      with eq c h q show ?thesis by (auto split: if_splits)
    qed
  qed
  then show ?thesis by simp
qed

lemma begin_transfer_steady [simp]: "steady w (begin_transfer os w)"
proof -
  obtain t v where t: "os_query (sys_gettimeofday os) w = (t, v)" by force
  then show ?thesis
    using quiet_steady [OF os_query_quiet [OF t]] steady_info steady_trans
    by (simp add: begin_transfer_def) blast
qed

lemma splice_retry_within: "steady w u \<Longrightarrow> within steady w (splice_retry os out inp off n u)"
  by (rule steady_prim [OF splice_retry_quiet])

lemma transfer_blocks_within:
  "steady w u \<Longrightarrow> within steady w (transfer_blocks os data inp off i n u)"
proof (induction n arbitrary: i u)
  case (Suc n)
  then show ?case
    by (auto simp: Let_def intro!: steady.within_rules splice_retry_within throttle_pause_within
        steady_pairs)
qed (auto intro!: steady.within_rules)

lemma transfer_file_within:
  "steady w u \<Longrightarrow> within steady w (transfer_file os data inp off n u)"
  unfolding transfer_file_def Let_def
  by (auto intro!: steady.within_rules transfer_blocks_within splice_retry_within
      intro: steady_trans [OF _ begin_transfer_steady])

lemma store_loop_steady:
  assumes "store_loop os out data off w = Some (r, w')" shows "steady w w'"
proof -
  have "\<forall>u. steady u w \<longrightarrow> steady u (snd (r, w'))"
  proof (rule store_loop.raw_induct [where P = "\<lambda>os out data off w x. \<forall>u. steady u w \<longrightarrow> steady u (snd x)", OF _ assms])
    fix f and os :: "'a os" and out data off and w :: "'a world" and x
    assume IH: "\<And>os out data off w x. f os out data off w = Some x \<Longrightarrow> \<forall>u. steady u w \<longrightarrow> steady u (snd x)"
      and eq: "(case splice_stream os out (Some off) data None (nat XFER_BLOCK_SIZE) w of
        ((ret, off', _), w) \<Rightarrow>
          let offset = (case off' of None \<Rightarrow> off | Some o' \<Rightarrow> o')
          in if ret = 0 then Some (FTP_SUCCESS, w)
             else if ret = -1
             then (if w_errno w = EINTR
                   then (case server_handle_signal os w of (sig, w) \<Rightarrow>
                     if sig \<noteq> FTP_SUCCESS then Some (FTP_QUIT, w) else f os out data offset w)
                   else Some (splice_failed (w_errno w), w))
             else (case throttle_pause os (upd_info (\<lambda>x. x\<lparr>probe_len := probe_len x + of_int ret,
                       xfer_len := xfer_len x + of_int ret\<rparr>) w) of
                 None \<Rightarrow> None
               | Some (_, w) \<Rightarrow>
                   (let w = deliver os w
                    in if w_signal_flag w \<noteq> 0
                       then (case server_handle_signal os w of (sig, w) \<Rightarrow>
                         if sig \<noteq> FTP_SUCCESS then Some (FTP_QUIT, w)
                         else f os out data offset w)
                       else f os out data offset w))) = Some x"
    show "\<forall>u. steady u w \<longrightarrow> steady u (snd x)"
    proof (intro allI impI)
      fix u assume u: "steady u w"
      have F: "within steady u (f os out data o1 v)" if "steady u v" for o1 v
        using IH that by (fastforce simp: within_def)
      have T: "within steady u (case throttle_pause os v of None \<Rightarrow> None | Some (y, v) \<Rightarrow> k v)"
        if "steady u v" "\<And>v. steady u v \<Longrightarrow> within steady u (k v)" for v and k :: "'a world \<Rightarrow> (int \<times> 'a world) option"
        using withinD [OF throttle_pause_within [OF that(1), of os]] that(2)
        by (auto simp: within_def split: option.splits)
      obtain ret off' io w1 where c: "splice_stream os out (Some off) data None (nat XFER_BLOCK_SIZE) w
          = ((ret, off', io), w1)" by (metis prod_cases3 surj_pair)
      have u1: "steady u w1" using u splice_stream_quiet [OF c] by (rule steady_then_quiet)
      define offset where "offset = (case off' of None \<Rightarrow> off | Some o' \<Rightarrow> o')"
      obtain y v where y: "x = (y, v)" by (cases x)
      note eq' = eq [unfolded c prod.case Let_def, folded offset_def, unfolded y]
      have "steady u v"
      proof (rule withinD [where R = steady and s = u, OF _ eq'], goal_cases)
        case 1
        show ?case
          by (intro steady.w_if steady.w_return steady_pairs T F steady_upd u1; assumption)
      qed
      then show "steady u (snd x)" by (simp add: y)
    qed
  qed
  then show ?thesis by simp
qed

lemma store_file_within: "steady w u \<Longrightarrow> within steady w (store_file os fileout data u)"
  unfolding store_file_def Let_def
  by (rule withinI) (rule steady_trans [OF steady_trans [OF _ begin_transfer_steady] store_loop_steady])

lemma accept_data_conn_within: "steady w u \<Longrightarrow> within steady w (accept_data_conn os con u)"
  by (rule steady_prim [OF accept_data_conn_quiet])

subsection \<open>What a transfer delivers\<close>

text \<open>
  A calm system: no signals arrive, sleeps end, the pipe to the master takes every message, and the
  clock does not disturb \<open>view\<close>, the part of the system state a property looks at.
\<close>

definition calm :: "'o os \<Rightarrow> ('o \<Rightarrow> 'v) \<Rightarrow> bool" where
  "calm os view \<longleftrightarrow> writes_ok os \<and> (\<forall>s. sys_signals os s = ([], s))
     \<and> (\<forall>t s. fst (sys_nanosleep os t s) = None \<and> view (snd (sys_nanosleep os t s)) = view s)
     \<and> (\<forall>s. view (snd (sys_gettimeofday os s)) = view s)"

text \<open>What a pause may change: not \<open>view\<close>, the byte count or any stream but the pipe to the master.\<close>

definition unpaused :: "('o \<Rightarrow> 'v) \<Rightarrow> 'o world \<Rightarrow> 'o world \<Rightarrow> bool" where
  "unpaused view w w' \<longleftrightarrow> view (w_os w') = view (w_os w) \<and> state_pool_ok w'
     \<and> w_signal_flag w' = w_signal_flag w \<and> xfer_len (w_info w') = xfer_len (w_info w)
     \<and> total_down (w_info w') = total_down (w_info w) \<and> total_up (w_info w') = total_up (w_info w)
     \<and> restart_pos (w_session w') = restart_pos (w_session w)
     \<and> w_fds w' = w_fds w \<and> w_conn w' = w_conn w \<and> (\<forall>fd. fd \<noteq> master_pipe (w_conn w) \<longrightarrow> w_out w' fd = w_out w fd)"

lemma unpaused_trans: "unpaused view u v \<Longrightarrow> unpaused view v w \<Longrightarrow> unpaused view u w"
  by (simp add: unpaused_def)

lemma calm_signal:
  assumes "calm os view" and "w_signal_flag w = 0"
  shows "server_handle_signal os w = (FTP_SUCCESS, w)" and "deliver os w = w"
  using assms by (simp_all add: calm_def server_handle_signal_def deliver_def os_query_def
      clear_flag_def Let_def)

lemma calm_clock:
  assumes "calm os view" and "state_pool_ok w"
  shows "\<exists>t v. os_query (sys_gettimeofday os) w = (t, v) \<and> unpaused view w v"
proof -
  obtain t s where g: "sys_gettimeofday os (w_os w) = (t, s)" by force
  then have "view s = view (w_os w)" using assms(1) unfolding calm_def by (metis snd_conv)
  with g assms(2) show ?thesis by (auto simp: os_query_def unpaused_def state_pool_ok_def)
qed

lemma unpaused_upd_probe:
  assumes "unpaused view w v" and "\<And>i. xfer_len (f i) = xfer_len i" and "\<And>i. total_down (f i) = total_down i"
    and "\<And>i. total_up (f i) = total_up i"
  shows "unpaused view w (upd_info f v)"
  using assms by (simp add: unpaused_def upd_info_def upd_session_def state_pool_ok_def)

lemma send_xfer_state_ok:
  assumes "writes_ok (os :: 'o os)" and "state_pool_ok w"
  shows "\<exists>v. send_state os T_XFER w = Some (FTP_SUCCESS, v) \<and> unpaused view w v"
proof -
  obtain b where b: "w_state_pool w = Some b" "length b = FTP_MAX_PATH"
    using assms(2) by (auto simp: state_pool_ok_def)
  let ?op = "\<lparr>op_type = T_XFER, op_recv = recv_xfer, op_send = send_xfer, op_size = SIZEOF_XFER_INFO\<rparr> :: 'o state_op"
  have op: "find_state_op T_XFER = Some ?op" by (simp add: find_state_op_def state_ops_def state_types)
  obtain b' where b': "blit b 0 (put_xfer_info (info (w_session w))) = Some b'" "length b' = FTP_MAX_PATH"
    using b(2) by (simp add: blit_def FTP_MAX_PATH_def)
  then have s: "op_send ?op (w_session w) b = Some (FTP_SUCCESS, b')" by (simp add: send_xfer_def)
  have "op_size ?op \<le> FTP_MAX_PATH" by (simp add: SIZEOF_XFER_INFO_def FTP_MAX_PATH_def)
  from send_state_emits [OF assms(1) b op s b'(2) this] b'(2) show ?thesis
    by (auto simp: unpaused_def state_pool_ok_def emit_def)
qed

lemma throttle_report_calm:
  assumes c: "calm os view" and sp: "state_pool_ok w"
  shows "\<exists>v. throttle_report os diff w = Some v \<and> unpaused view w v"
proof (cases "diff > 500")
  case True
  obtain v where v: "send_state os T_XFER w = Some (FTP_SUCCESS, v)" "unpaused view w v"
    using send_xfer_state_ok [OF _ sp, of os view] c unfolding calm_def by blast
  have "state_pool_ok v" using v(2) by (simp add: unpaused_def)
  then obtain t u where t: "os_query (sys_gettimeofday os) v = (t, u)" "unpaused view v u"
    using calm_clock [OF c] by blast
  have "unpaused view w (upd_info (\<lambda>i. i\<lparr>xfer_probe := t, probe_len := 0\<rparr>) u)"
    by (rule unpaused_upd_probe [OF unpaused_trans [OF v(2) t(2)]]) simp_all
  with v(1) t(1) True show ?thesis by (simp add: throttle_report_def)
qed (use sp in \<open>simp add: unpaused_def throttle_report_def\<close>)

lemma throttle_sleep_calm:
  assumes c: "calm os view" and sp: "state_pool_ok w"
  shows "\<exists>v. throttle_sleep os ts diff w = Some v \<and> unpaused view w v"
proof (cases "throttle_delay (cfg_throttle_rate (w_config w)) ts diff")
  case (Some ms)
  define d where "d = (ms sdiv 1000, (ms smod 1000) * 1000000)"
  obtain s where "sys_nanosleep os d (w_os w) = (None, s)" "view s = view (w_os w)"
    using c unfolding calm_def by (metis prod.collapse)
  then have "nanosleep_loop os d w = Some (w\<lparr>w_os := s\<rparr>)" "unpaused view w (w\<lparr>w_os := s\<rparr>)"
    using sp by (auto simp: nanosleep_loop.simps os_query_def unpaused_def state_pool_ok_def)
  with Some show ?thesis by (auto simp: throttle_sleep_def d_def)
qed (use sp in \<open>simp add: unpaused_def throttle_sleep_def\<close>)

lemma throttle_pause_calm:
  assumes c: "calm os view" and sp: "state_pool_ok w"
  shows "\<exists>v. throttle_pause os w = Some (FTP_SUCCESS, v) \<and> unpaused view w v"
proof -
  obtain now w1 where n: "os_query (sys_gettimeofday os) w = (now, w1)" "unpaused view w w1"
    using calm_clock [OF c sp] by blast
  have sp1: "state_pool_ok w1" using n(2) by (simp add: unpaused_def)
  define diff where "diff = msecdiff now (xfer_probe (w_info w1))"
  define ts where "ts = to_int32 (uint (probe_len (w_info w1)))"
  show ?thesis
  proof (cases "diff < 0")
    case True
    obtain t v where t: "os_query (sys_gettimeofday os) w1 = (t, v)" "unpaused view w1 v"
      using calm_clock [OF c sp1] by blast
    have "unpaused view w (upd_info (\<lambda>i. i\<lparr>xfer_probe := t\<rparr>) v)"
      by (rule unpaused_upd_probe [OF unpaused_trans [OF n(2) t(2)]]) simp_all
    with n(1) t(1) True show ?thesis by (simp add: throttle_pause_def Let_def diff_def)
  next
    case False
    obtain w2 where w2: "throttle_report os diff w1 = Some w2" "unpaused view w1 w2"
      using throttle_report_calm [OF c sp1] by blast
    have "state_pool_ok w2" using w2(2) by (simp add: unpaused_def)
    then obtain v where v: "throttle_sleep os ts diff w2 = Some v" "unpaused view w2 v"
      using throttle_sleep_calm [OF c] by blast
    have "unpaused view w v"
      by (rule unpaused_trans [OF n(2) unpaused_trans [OF w2(2) v(2)]])
    with n(1) w2(1) v(1) False show ?thesis
      by (simp add: throttle_pause_def Let_def diff_def ts_def)
  qed
qed

text \<open>
  A system that serves a file, as \<open>sendfile(2)\<close> documents it: asked for \<open>n\<close> bytes at an offset it puts
  a part of them on the connection (\<open>sent\<close>), from the first on, perhaps fewer than it was asked for,
  and none only when there are none, and returns their number. \<open>whole_sends\<close> and \<open>short_sends\<close> say that
  it always sends all of them, and never more than \<open>m\<close>.
\<close>

definition part_of :: "char list \<Rightarrow> char list \<Rightarrow> bool" where
  "part_of p b \<longleftrightarrow> p = take (length p) b \<and> (p = [] \<longrightarrow> b = [])"

definition serves_file :: "'o os \<Rightarrow> int \<Rightarrow> int \<Rightarrow> char list \<Rightarrow> ('o \<Rightarrow> char list) \<Rightarrow> bool" where
  "serves_file os out fd content sent \<longleftrightarrow>
     (\<forall>off n s. 0 \<le> off \<longrightarrow> (\<exists>p s'. sys_sendfile os out fd (Some off) n s = (Inr (length p), s')
        \<and> part_of p (take n (drop (nat off) content)) \<and> sent s' = sent s @ p))
     \<and> (\<forall>n s. sent (snd (sys_lseek os fd n s)) = sent s)"

definition whole_sends :: "'o os \<Rightarrow> int \<Rightarrow> int \<Rightarrow> char list \<Rightarrow> bool" where
  "whole_sends os out fd content \<longleftrightarrow> (\<forall>off n s. 0 \<le> off \<longrightarrow>
     fst (sys_sendfile os out fd (Some off) n s) = Inr (length (take n (drop (nat off) content))))"

definition short_sends :: "'o os \<Rightarrow> int \<Rightarrow> int \<Rightarrow> nat \<Rightarrow> bool" where
  "short_sends os out fd m \<longleftrightarrow>
     (\<forall>off n s k. fst (sys_sendfile os out fd off n s) = Inr k \<longrightarrow> k \<le> m)"

text \<open>The blocks the transfer of \<open>c\<close> asks for: whole ones, and a last one that is shorter and may be empty.\<close>

definition file_blocks :: "char list \<Rightarrow> char list list" where
  "file_blocks c = map (\<lambda>i. take 4096 (drop (i * 4096) c)) [0..<Suc (length c div 4096)]"

lemma concat_blocks: "concat (map (\<lambda>i. take b (drop (i * b) c)) [0..<n]) = take (n * b) c"
  by (induction n) (simp_all add: take_add add.commute [of b])

lemma concat_file_blocks: "concat (file_blocks c) = c"
proof -
  have "length c < Suc (length c div 4096) * 4096" by (simp add: dividend_less_div_times)
  then show ?thesis unfolding file_blocks_def concat_blocks by simp
qed

lemma part_of_whole: "part_of p b \<Longrightarrow> length p = length b \<Longrightarrow> p = b"
  unfolding part_of_def by (metis take_all_iff order_refl)

lemma part_of_length: "part_of p b \<Longrightarrow> length p \<le> length b"
  unfolding part_of_def by (metis length_take min.cobounded1)

text \<open>\<open>delivered sent s w w'\<close>: the step put exactly \<open>s\<close> on the connection, and wrote nothing else but to
  the pipe.\<close>

definition delivered :: "('o \<Rightarrow> char list) \<Rightarrow> char list \<Rightarrow> 'o world \<Rightarrow> 'o world \<Rightarrow> bool" where
  "delivered sent s w w' \<longleftrightarrow> sent (w_os w') = sent (w_os w) @ s \<and> state_pool_ok w' \<and> w_signal_flag w' = 0
     \<and> total_down (w_info w') = total_down (w_info w) \<and> w_fds w' = w_fds w \<and> w_conn w' = w_conn w
     \<and> (\<forall>fd. fd \<noteq> master_pipe (w_conn w) \<longrightarrow> w_out w' fd = w_out w fd)"

text \<open>
  One block, and the loop over them. The parts that go out stand in the relation \<open>Q\<close> to the blocks
  asked for, whatever \<open>Q\<close> every single call establishes.
\<close>

definition serves_parts :: "'o os \<Rightarrow> int \<Rightarrow> int \<Rightarrow> char list \<Rightarrow> (char list \<Rightarrow> char list \<Rightarrow> bool) \<Rightarrow> bool" where
  "serves_parts os out fd content Q \<longleftrightarrow> (\<forall>off n s p. 0 \<le> off \<longrightarrow>
     fst (sys_sendfile os out fd (Some off) n s) = Inr (length p) \<longrightarrow>
     part_of p (take n (drop (nat off) content)) \<longrightarrow> Q p (take n (drop (nat off) content)))"

lemma whole_sends_parts:
  "serves_parts os out fd content (\<lambda>p b. part_of p b \<and> (whole_sends os out fd content \<longrightarrow> p = b))"
  by (auto simp: serves_parts_def whole_sends_def intro: part_of_whole)

lemma short_sends_parts:
  "short_sends os out fd m \<Longrightarrow> serves_parts os out fd content (\<lambda>p b. length p \<le> length b \<and> length p \<le> m)"
  by (auto simp: serves_parts_def short_sends_def dest: part_of_length)

lemma splice_serves:
  assumes srv: "serves_file os (stream_fd data) (stream_fd inp) content sent" and off: "0 \<le> off"
    and q: "serves_parts os (stream_fd data) (stream_fd inp) content Q"
    and k: "stream_kind data = S_SOCKET" "stream_kind inp = S_FILE"
    and w: "state_pool_ok w" "w_signal_flag w = 0"
  obtains v p where "splice_retry os data inp off n w = Some (Inr (int (length p)), v)"
    and "part_of p (take n (drop (nat off) content))" and "Q p (take n (drop (nat off) content))"
    and "delivered sent p w v" and "w_info v = w_info w"
proof -
  let ?chunk = "take n (drop (nat off) content)"
  obtain r s where l: "sys_lseek os (stream_fd inp) off (w_os w) = (r, s)" by force
  define v where "v = snd (os_call (sys_lseek os (stream_fd inp) off) w)"
  have v: "w_os v = s" "w_session v = w_session w" "w_state_pool v = w_state_pool w"
    "w_signal_flag v = w_signal_flag w" "w_out v = w_out w" "w_fds v = w_fds w"
    using l by (simp_all add: v_def os_call_def split: sum.splits)
  have s: "sent s = sent (w_os w)" using srv l unfolding serves_file_def by (metis snd_conv)
  obtain p s' where sf: "sys_sendfile os (stream_fd data) (stream_fd inp) (Some off) n s = (Inr (length p), s')"
    "part_of p ?chunk" "sent s' = sent s @ p"
    using srv off unfolding serves_file_def by blast
  have Q: "Q p ?chunk" using q off sf(1,2) unfolding serves_parts_def by (metis fst_conv)
  have "os_call (sys_sendfile os (stream_fd data) (stream_fd inp) (Some off) n) v
      = (Inr (length p), v\<lparr>w_os := s'\<rparr>)"
    using sf(1) v(1) by (simp add: os_call_def)
  then have "splice_stream os data None inp (Some off) n w
      = ((int (length p), None, Some (off + int (length p))), v\<lparr>w_os := s'\<rparr>)"
    using k by (simp add: splice_stream_def lseek_opt_def Let_def flip: v_def)
  then have "splice_retry os data inp off n w = Some (Inr (int (length p)), v\<lparr>w_os := s'\<rparr>)"
    by (simp add: splice_retry.simps)
  moreover have "delivered sent p w (v\<lparr>w_os := s'\<rparr>)"
    using sf(3) s v w by (simp add: delivered_def state_pool_ok_def)
  ultimately show thesis using that sf(2) Q v(2) by simp
qed

lemma transfer_blocks_serves:
  assumes srv: "serves_file os (stream_fd data) (stream_fd inp) content sent" and c: "calm os sent"
    and q: "serves_parts os (stream_fd data) (stream_fd inp) content Q"
    and k: "stream_kind data = S_SOCKET" "stream_kind inp = S_FILE" and off: "0 \<le> off"
    and w: "state_pool_ok w" "w_signal_flag w = 0"
    and fits: "nat off + (i + n) * 4096 \<le> length content"
  shows "\<exists>v ps. transfer_blocks os data inp off i n w = Some (FTP_SUCCESS, v)
    \<and> list_all2 Q ps (map (\<lambda>j. take 4096 (drop (nat off + j * 4096) content)) [i..<i + n])
    \<and> delivered sent (concat ps) w v
    \<and> xfer_len (w_info v) = xfer_len (w_info w) + of_nat (n * 4096)"
  using w fits
proof (induction n arbitrary: i w)
  case 0
  then show ?case by (simp add: delivered_def)
next
  case (Suc n)
  let ?o = "off + int i * XFER_BLOCK_SIZE"
  let ?c1 = "take 4096 (drop (nat off + i * 4096) content)"
  have o: "0 \<le> ?o" "nat ?o = nat off + i * 4096" using off by (simp_all add: XFER_BLOCK_SIZE_def nat_add_distrib nat_mult_distrib)
  have l: "?c1 \<noteq> []" using Suc.prems(3) by simp
  obtain w1 p where w1: "splice_retry os data inp ?o 4096 w = Some (Inr (int (length p)), w1)"
    "part_of p ?c1" "Q p ?c1" "delivered sent p w w1" "w_info w1 = w_info w"
    using splice_serves [OF srv o(1) q k Suc.prems(1,2), of 4096, unfolded o(2)] by blast
  have ne: "p \<noteq> []" using w1(2) l unfolding part_of_def by blast
  let ?f = "\<lambda>x. x\<lparr>xfer_len := xfer_len x + of_int XFER_BLOCK_SIZE, probe_len := probe_len x + of_int XFER_BLOCK_SIZE\<rparr>"
  have sp: "state_pool_ok (upd_info ?f w1)"
    using w1(4) by (simp add: delivered_def upd_info_def upd_session_def state_pool_ok_def)
  obtain w2 where w2: "throttle_pause os (upd_info ?f w1) = Some (FTP_SUCCESS, w2)"
    "unpaused sent (upd_info ?f w1) w2"
    using throttle_pause_calm [OF c sp] by blast
  have w2': "delivered sent p w w2" "xfer_len (w_info w2) = xfer_len (w_info w) + 4096"
    using w1(4,5) w2(2) by (simp_all add: delivered_def unpaused_def upd_info_def upd_session_def XFER_BLOCK_SIZE_def)
  have sig: "server_handle_signal os w2 = (FTP_SUCCESS, w2)"
    using calm_signal(1) [OF c] w2'(1) by (simp add: delivered_def)
  have step: "transfer_blocks os data inp off i (Suc n) w = transfer_blocks os data inp off (Suc i) n w2"
    using w1(1) w2(1) sig ne by (simp add: XFER_BLOCK_SIZE_def)
  obtain v ps where v: "transfer_blocks os data inp off (Suc i) n w2 = Some (FTP_SUCCESS, v)"
    "list_all2 Q ps (map (\<lambda>j. take 4096 (drop (nat off + j * 4096) content)) [Suc i..<Suc i + n])"
    "delivered sent (concat ps) w2 v"
    "xfer_len (w_info v) = xfer_len (w_info w2) + of_nat (n * 4096)"
    using Suc.IH [of w2 "Suc i"] w2'(1) Suc.prems(3) by (auto simp: delivered_def)
  have r: "[i..<i + Suc n] = i # [Suc i..<Suc i + n]" by (simp add: upt_rec)
  have "delivered sent (concat (p # ps)) w v" using v(3) w2'(1) by (simp add: delivered_def)
  moreover have "list_all2 Q (p # ps) (map (\<lambda>j. take 4096 (drop (nat off + j * 4096) content)) [i..<i + Suc n])"
    using v(2) w1(3) unfolding r by simp
  ultimately show ?case using step v(1,4) w2'(2) by (intro exI [of _ v] exI [of _ "p # ps"]) simp
qed

lemma begin_transfer_calm:
  assumes "calm os view" and "state_pool_ok w"
  shows "view (w_os (begin_transfer os w)) = view (w_os w)" and "state_pool_ok (begin_transfer os w)"
    and "w_signal_flag (begin_transfer os w) = w_signal_flag w"
    and "xfer_len (w_info (begin_transfer os w)) = 0" and "w_out (begin_transfer os w) = w_out w"
    and "w_conn (begin_transfer os w) = w_conn w" and "w_fds (begin_transfer os w) = w_fds w"
    and "total_down (w_info (begin_transfer os w)) = total_down (w_info w)"
    and "total_up (w_info (begin_transfer os w)) = total_up (w_info w)"
    and "restart_pos (w_session (begin_transfer os w)) = restart_pos (w_session w)"
proof -
  obtain t s where g: "sys_gettimeofday os (w_os w) = (t, s)" by force
  then have "view s = view (w_os w)" using assms(1) unfolding calm_def by (metis snd_conv)
  with g assms(2) show "view (w_os (begin_transfer os w)) = view (w_os w)" "state_pool_ok (begin_transfer os w)"
    "w_signal_flag (begin_transfer os w) = w_signal_flag w" "xfer_len (w_info (begin_transfer os w)) = 0"
    "w_out (begin_transfer os w) = w_out w" "w_conn (begin_transfer os w) = w_conn w" "w_fds (begin_transfer os w) = w_fds w"
    "total_down (w_info (begin_transfer os w)) = total_down (w_info w)"
    "total_up (w_info (begin_transfer os w)) = total_up (w_info w)"
    "restart_pos (w_session (begin_transfer os w)) = restart_pos (w_session w)"
    by (simp_all add: begin_transfer_def os_query_def upd_info_def upd_session_def state_pool_ok_def)
qed

text \<open>
  Writing at a position of a file: a gap before it is filled with NUL bytes, and writing nothing
  changes nothing.
\<close>

definition write_at :: "nat \<Rightarrow> char list \<Rightarrow> char list \<Rightarrow> char list" where
  "write_at pos bs file = (if bs = [] then file
     else take pos (file @ replicate (pos - length file) NUL) @ bs @ drop (pos + length bs) file)"

lemma write_at_append:
  "write_at (pos + length a) b (write_at pos a file) = write_at pos (a @ b) file"
proof -
  let ?p = "take pos (file @ replicate (pos - length file) NUL)"
  define q where "q = ?p"
  have p: "length q = pos" unfolding q_def by simp
  define f where "f = q @ a @ drop (pos + length a) file"
  have t: "take (pos + length a) (f @ x) = q @ a" "drop (pos + length a + length b) f = drop (pos + length (a @ b)) file" for x
    using p by (simp_all add: f_def add_ac)
  show ?thesis
  proof (cases "a = [] \<or> b = []")
    case False
    then have "write_at pos a file = f" "write_at pos (a @ b) file = q @ (a @ b) @ drop (pos + length (a @ b)) file"
      by (simp_all add: write_at_def f_def q_def)
    moreover have "write_at (pos + length a) b f = q @ a @ b @ drop (pos + length (a @ b)) file"
      using False by (simp only: write_at_def t if_False append_assoc simp_thms de_Morgan_disj)
    ultimately show ?thesis by simp
  qed (auto simp: write_at_def)
qed

text \<open>
  A system that delivers the client's stream to a file. \<open>io\<close> is what is left of the stream, the
  contents of the file, and the position in it. \<open>read\<close> takes between one and \<open>n\<close> bytes from the front of
  the stream, as many as happen to have arrived, and none only at its end; \<open>lseek\<close> and \<open>write\<close> are those
  of a regular file on a disk with room, which takes every write whole.
\<close>

definition stores_stream :: "'o os \<Rightarrow> int \<Rightarrow> int \<Rightarrow> ('o \<Rightarrow> char list \<times> char list \<times> nat) \<Rightarrow> bool" where
  "stores_stream os inp out io \<longleftrightarrow> mem_ok os \<and> (\<forall>s rest file pos. io s = (rest, file, pos) \<longrightarrow>
       (\<forall>n. \<exists>k s'. sys_read os inp n s = (Inr (take k rest), s') \<and> k \<le> n \<and> k \<le> length rest
          \<and> (k = 0 \<longrightarrow> rest = [] \<or> n = 0) \<and> io s' = (drop k rest, file, pos))
     \<and> (\<forall>n. io (snd (sys_lseek os out (int n) s)) = (rest, file, n))
     \<and> (\<forall>bs. \<exists>s'. sys_write os out bs s = (Inr (length bs), s') \<and> io s' = (rest, write_at pos bs file, pos + length bs)))"

text \<open>What storing leaves alone.\<close>

definition storing :: "int \<Rightarrow> 'o world \<Rightarrow> 'o world \<Rightarrow> bool" where
  "storing fd w w' \<longleftrightarrow> state_pool_ok w' \<and> w_signal_flag w' = 0 \<and> total_up (w_info w') = total_up (w_info w)
     \<and> restart_pos (w_session w') = restart_pos (w_session w) \<and> w_fds w' = w_fds w \<and> w_conn w' = w_conn w
     \<and> (\<forall>k. k \<noteq> fd \<longrightarrow> k \<noteq> master_pipe (w_conn w) \<longrightarrow> w_out w' k = w_out w k)"

lemma storing_trans: "storing fd u v \<Longrightarrow> storing fd v w \<Longrightarrow> storing fd u w"
  by (simp add: storing_def)

lemma splice_stores:
  assumes sto: "stores_stream os (stream_fd data) (stream_fd out) io" and k: "stream_kind data = S_SOCKET"
    and io: "io (w_os w) = (rest, file, pos)" and w: "state_pool_ok w" "w_signal_flag w = 0"
  obtains v k where "splice_stream os out (Some (int off)) data None n w = ((int k, Some (int (off + k)), None), v)"
    and "k \<le> length rest" and "k = 0 \<longrightarrow> rest = [] \<or> n = 0"
    and "io (w_os v) = (drop k rest, write_at off (take k rest) file, off + k)"
    and "storing (stream_fd out) w v" and "w_info v = w_info w"
proof -
  define v where "v = snd (os_call (sys_lseek os (stream_fd out) (int off)) w)"
  have v: "io (w_os v) = (rest, file, off)" "w_session v = w_session w" "w_out v = w_out w"
    "w_state_pool v = w_state_pool w" "w_signal_flag v = w_signal_flag w" "w_fds v = w_fds w"
    using sto io by (auto simp: v_def os_call_def stores_stream_def case_prod_beta split: sum.splits)
  obtain m s where rd: "sys_read os (stream_fd data) n (w_os v) = (Inr (take m rest), s)" "m \<le> length rest"
    "m = 0 \<longrightarrow> rest = [] \<or> n = 0" "io s = (drop m rest, file, off)"
    using sto v(1) unfolding stores_stream_def by blast
  let ?c = "take m rest"
  have l: "length ?c = m" using rd(2) by simp
  have r: "os_call (sys_read os (stream_fd data) n) v = (Inr ?c, v\<lparr>w_os := s\<rparr>)"
    using rd(1) by (simp add: os_call_def)
  have a: "c_malloc os n v = (True, v)" using sto by (simp add: stores_stream_def)
  show thesis
  proof (cases "?c = []")
    case True
    then have m: "m = 0" using l rd(2) by auto
    have "splice_stream os out (Some (int off)) data None n w = ((int m, Some (int (off + m)), None), v\<lparr>w_os := s\<rparr>)"
      using k a r True m by (simp add: splice_stream_def lseek_opt_def Let_def flip: v_def)
    then show thesis
      by (rule that) (use rd v w m in \<open>simp_all add: write_at_def storing_def state_pool_ok_def\<close>)
  next
    case False
    obtain s' where wr: "sys_write os (stream_fd out) ?c s = (Inr m, s')"
      "io s' = (drop m rest, write_at off ?c file, off + m)"
      using sto rd(4) l unfolding stores_stream_def by metis
    have "os_call (sys_write os (stream_fd out) ?c) (v\<lparr>w_os := s\<rparr>) = (Inr m, v\<lparr>w_os := s'\<rparr>)"
      using wr(1) by (simp add: os_call_def)
    then have "splice_stream os out (Some (int off)) data None n w = ((int m, Some (int (off + m)), None),
        v\<lparr>w_os := s', w_out := (w_out w)(stream_fd out := w_out w (stream_fd out) @ ?c)\<rparr>)"
      using k a r False v(3)
      by (simp add: splice_stream_def lseek_opt_def Let_def del: length_take flip: v_def)
    then show thesis
      by (rule that) (use rd wr(2) v w in \<open>simp_all add: storing_def state_pool_ok_def\<close>)
  qed
qed

lemma store_loop_stores:
  assumes sto: "stores_stream os (stream_fd data) (stream_fd out) io" and c: "calm os io"
    and k: "stream_kind data = S_SOCKET"
    and io: "io (w_os w) = (rest, file, pos)" and w: "state_pool_ok w" "w_signal_flag w = 0"
  shows "\<exists>v p. store_loop os out data (int off) w = Some (FTP_SUCCESS, v)
    \<and> io (w_os v) = ([], write_at off rest file, p) \<and> storing (stream_fd out) w v
    \<and> xfer_len (w_info v) = xfer_len (w_info w) + of_nat (length rest)"
  using io w
proof (induction "length rest" arbitrary: w off rest "file" pos rule: less_induct)
  case less
  obtain w1 m where s: "splice_stream os out (Some (int off)) data None (nat XFER_BLOCK_SIZE) w
      = ((int m, Some (int (off + m)), None), w1)"
    "m \<le> length rest" "m = 0 \<longrightarrow> rest = []"
    "io (w_os w1) = (drop m rest, write_at off (take m rest) file, off + m)"
    "storing (stream_fd out) w w1" "w_info w1 = w_info w"
    by (rule splice_stores [OF sto k less.prems, of off "nat XFER_BLOCK_SIZE"]) (simp_all add: XFER_BLOCK_SIZE_def)
  show ?case
  proof (cases "m = 0")
    case True
    then have "store_loop os out data (int off) w = Some (FTP_SUCCESS, w1)"
      using s(1) by (simp add: store_loop.simps Let_def)
    with True s(3-6) show ?thesis by simp
  next
    case False
    let ?f = "\<lambda>x. x\<lparr>probe_len := probe_len x + of_int (int m), xfer_len := xfer_len x + of_int (int m)\<rparr>"
    let ?w1 = "upd_info ?f w1"
    have w1: "storing (stream_fd out) w ?w1" "state_pool_ok ?w1" "w_os ?w1 = w_os w1"
      "xfer_len (w_info ?w1) = xfer_len (w_info w) + of_nat m"
      using s(5,6) by (simp_all add: storing_def upd_info_def upd_session_def state_pool_ok_def)
    obtain w2 where w2: "throttle_pause os ?w1 = Some (FTP_SUCCESS, w2)" "unpaused io ?w1 w2"
      using throttle_pause_calm [OF c w1(2)] by blast
    have w2': "storing (stream_fd out) w w2"
      "io (w_os w2) = (drop m rest, write_at off (take m rest) file, off + m)"
      "xfer_len (w_info w2) = xfer_len (w_info w) + of_nat m"
      using w2(2) w1 s(4) by (simp_all add: unpaused_def storing_def)
    have w2'': "state_pool_ok w2" "w_signal_flag w2 = 0" using w2'(1) by (simp_all add: storing_def)
    have ne: "int m \<noteq> 0" "int m \<noteq> -1" using False by auto
    have step: "store_loop os out data (int off) w = store_loop os out data (int (off + m)) w2"
      using s(1) ne w2(1) w2''(2) calm_signal(2) [OF c w2''(2)]
      by (subst store_loop.simps) (simp add: Let_def del: of_nat_add)
    have "length (drop m rest) < length rest" using False s(2) by simp
    from less.hyps [OF this w2'(2) w2'', of "off + m"] obtain v p where
      v: "store_loop os out data (int (off + m)) w2 = Some (FTP_SUCCESS, v)"
      "io (w_os v) = ([], write_at (off + m) (drop m rest) (write_at off (take m rest) file), p)"
      "storing (stream_fd out) w2 v" "xfer_len (w_info v) = xfer_len (w_info w2) + of_nat (length (drop m rest))"
      by blast
    have "write_at (off + m) (drop m rest) (write_at off (take m rest) file) = write_at off rest file"
      using write_at_append [of off "take m rest" "drop m rest" "file"] s(2) by (simp add: min_absorb2)
    then have "io (w_os v) = ([], write_at off rest file, p)" using v(2) by simp
    moreover have "of_nat (length rest) = (of_nat m + of_nat (length (drop m rest)) :: 64 word)"
      using s(2) by (simp flip: of_nat_add)
    ultimately show ?thesis using step v(1,4) w2'(3) storing_trans [OF w2'(1) v(3)] by (simp add: add.assoc)
  qed
qed

lemma store_file_stores:
  assumes sto: "stores_stream os (stream_fd data) (stream_fd out) io" and c: "calm os io"
    and k: "stream_kind data = S_SOCKET" and w: "state_pool_ok w" "w_signal_flag w = 0"
    and io: "io (w_os w) = (rest, file, pos)" and off: "0 \<le> restart_pos (w_session w)"
  shows "\<exists>v p. store_file os out data w = Some (FTP_SUCCESS, v)
    \<and> io (w_os v) = ([], write_at (nat (restart_pos (w_session w))) rest file, p) \<and> storing (stream_fd out) w v
    \<and> xfer_len (w_info v) = of_nat (length rest)"
proof -
  note b = begin_transfer_calm [OF c w(1)]
  have io': "io (w_os (begin_transfer os w)) = (rest, file, pos)" using io b(1) by simp
  show ?thesis
    using store_loop_stores [OF sto c k io' b(2), of "nat (restart_pos (w_session w))"] b w(2) off
    by (auto simp: store_file_def Let_def storing_def)
qed

lemma transfer_file_serves:
  assumes srv: "serves_file os (stream_fd data) (stream_fd inp) content sent" and c: "calm os sent"
    and q: "serves_parts os (stream_fd data) (stream_fd inp) content Q"
    and k: "stream_kind data = S_SOCKET" "stream_kind inp = S_FILE"
    and off: "0 \<le> off" "off \<le> int (length content)" and sz: "length content < 2 ^ 31 * 4096"
    and w: "state_pool_ok w" "w_signal_flag w = 0"
  shows "\<exists>v ps. transfer_file os data inp off (int (length content) - off) w = Some (FTP_SUCCESS, v)
    \<and> list_all2 Q ps (file_blocks (drop (nat off) content)) \<and> delivered sent (concat ps) w v
    \<and> xfer_len (w_info v) = of_nat (length content - nat off)"
proof -
  define o' where "o' = nat off"
  have o': "off = int o'" "o' \<le> length content" using off by (simp_all add: o'_def)
  define count where "count = length content - o'"
  have count: "int (length content) - off = int count" using o' by (simp add: count_def)
  define n where "n = count div 4096"
  define r where "r = count mod 4096"
  have nr: "count = n * 4096 + r" "r < 4096" by (simp_all add: n_def r_def)
  have blocks: "nat (to_int32 (int count sdiv XFER_BLOCK_SIZE)) = n"
  proof -
    have "int n < 2 ^ 31" using sz by (simp add: n_def count_def)
    then have "to_int32 (int n) = int n" by (intro to_int32_id) (auto simp: INT_MIN_def INT_MAX_def)
    then show ?thesis by (simp add: sdiv_nonneg XFER_BLOCK_SIZE_def n_def flip: zdiv_int [of _ 4096, simplified])
  qed
  have rem: "int count smod XFER_BLOCK_SIZE = int r"
    by (simp add: smod_nonneg XFER_BLOCK_SIZE_def r_def zmod_int)
  let ?w = "begin_transfer os w" and ?b = "\<lambda>j. take 4096 (drop (o' + j * 4096) content)"
  note b = begin_transfer_calm [OF c w(1)]
  have fits: "nat off + (0 + n) * 4096 \<le> length content" and flag: "w_signal_flag ?w = 0"
    using nr count_def o' b(3) w(2) by simp_all
  obtain v ps where v: "transfer_blocks os data inp off 0 n ?w = Some (FTP_SUCCESS, v)"
    "list_all2 Q ps (map ?b [0..<n])" "delivered sent (concat ps) ?w v" "xfer_len (w_info v) = of_nat (n * 4096)"
    using transfer_blocks_serves [OF srv c q k off(1) b(2) flag fits] b(4) o'(1) by auto
  have ro: "off + int count - int r = int (o' + n * 4096)" using o' nr by simp
  have last: "take r (drop (o' + n * 4096) content) = ?b n"
    using nr o' by (simp add: count_def)
  have vp: "state_pool_ok v" "w_signal_flag v = 0" using v(3) by (simp_all add: delivered_def)
  obtain u p where u: "splice_retry os data inp (int (o' + n * 4096)) r v = Some (Inr (int (length p)), u)"
    "Q p (?b n)" "delivered sent p v u" "w_info u = w_info v"
    by (rule splice_serves [OF srv _ q k vp, of "int (o' + n * 4096)" r]) (simp_all only: last nat_int of_nat_0_le_iff)
  let ?f = "\<lambda>x. x\<lparr>xfer_len := xfer_len x + of_int (int r)\<rparr>"
  have "transfer_file os data inp off (int count) w = Some (FTP_SUCCESS, upd_info ?f u)"
    using v(1) u(1) unfolding transfer_file_def Let_def rem blocks ro by simp
  moreover have "list_all2 Q (ps @ [p]) (file_blocks (drop o' content))"
  proof -
    have "file_blocks (drop o' content) = map ?b [0..<n] @ [?b n]"
      by (simp add: file_blocks_def n_def count_def add.commute)
    then show ?thesis using v(2) u(2) by (simp add: list_all2_appendI)
  qed
  moreover have "delivered sent (concat (ps @ [p])) w u" using v(3) u(3) b by (simp add: delivered_def)
  moreover have "xfer_len (w_info u) + of_nat r = of_nat count" using u(4) v(4) nr by simp
  ultimately show ?thesis
    unfolding count o'_def [symmetric] count_def [symmetric]
    by (intro exI [of _ "upd_info ?f u"] exI [of _ "ps @ [p]"])
      (simp add: upd_info_def upd_session_def delivered_def state_pool_ok_def)
qed

text \<open>When every call sends all it was asked for, the parts are the file.\<close>

lemma parts_whole:
  assumes "list_all2 (\<lambda>p b. part_of p b \<and> (W \<longrightarrow> p = b)) ps (file_blocks c)"
  shows "list_all2 part_of ps (file_blocks c)" and "W \<Longrightarrow> concat ps = c"
proof -
  show "list_all2 part_of ps (file_blocks c)" using assms by (rule list_all2_mono) simp
  assume W
  have "list_all2 (=) ps (file_blocks c)" using assms by (rule list_all2_mono) (simp add: \<open>W\<close>)
  then show "concat ps = c" by (simp add: list.rel_eq concat_file_blocks)
qed

text \<open>When no call sends more than \<open>m\<close> bytes, every whole block loses the rest.\<close>

lemma parts_short:
  assumes "list_all2 (\<lambda>p b. length p \<le> length b \<and> length p \<le> m) ps (file_blocks c)" and m: "m \<le> 4096"
  shows "length (concat ps) + (4096 - m) * (length c div 4096) \<le> length c"
proof -
  let ?n = "length c div 4096" and ?b = "\<lambda>i. take 4096 (drop (i * 4096) c)"
  have "file_blocks c = map ?b [0..<?n] @ [?b ?n]" by (simp add: file_blocks_def)
  then obtain qs p where ps: "ps = qs @ [p]" "list_all2 (\<lambda>p b. length p \<le> length b \<and> length p \<le> m) qs (map ?b [0..<?n])"
    "length p \<le> length (?b ?n)"
    using assms(1) by (auto simp: list_all2_append2 list_all2_Cons2)
  have "length (concat qs) \<le> m * length bs" if "list_all2 (\<lambda>p b. length p \<le> length b \<and> length p \<le> m) qs bs"
    for qs and bs :: "char list list"
    using that by (induction rule: list_all2_induct) auto
  from this [OF ps(2)] have q: "length (concat qs) \<le> m * ?n" by simp
  have "(4096 - m) * ?n + m * ?n = 4096 * ?n" using m by (simp flip: add_mult_distrib)
  moreover have "length p + 4096 * ?n \<le> length c" using ps(3) by simp
  ultimately show ?thesis using q ps(1) by simp
qed

subsection \<open>Properties\<close>

text \<open>Systems whose \<open>sendfile\<close> and \<open>read\<close> move at most \<open>m\<close> bytes at a time.\<close>

definition sender_os :: "nat \<Rightarrow> string \<Rightarrow> char list os" where
  "sender_os m content = idle_os\<lparr>os_io := idle_io
     \<lparr>io_sendfile := \<lambda>a b off n s. (let chunk = take (min m n) (drop (nat (the off)) content)
        in (Inr (length chunk), s @ chunk))\<rparr>\<rparr>"

definition receiver_os :: "nat \<Rightarrow> (char list \<times> char list \<times> nat) os" where
  "receiver_os m = idle_os\<lparr>os_io := idle_io
     \<lparr>io_read := \<lambda>fd n (rest, file, pos). (Inr (take (min m n) rest), (drop (min m n) rest, file, pos)),
      io_lseek := \<lambda>fd n (rest, file, pos). (Inr n, (rest, file, nat n)),
      io_write := \<lambda>fd bs (rest, file, pos). (Inr (length bs), (rest, write_at pos bs file, pos + length bs))\<rparr>\<rparr>"

definition some_state_pool :: "'o world \<Rightarrow> 'o world" where
  "some_state_pool w = w\<lparr>w_state_pool := Some (replicate FTP_MAX_PATH NUL)\<rparr>"

lemma some_state_pool_sel [simp]:
  "state_pool_ok (some_state_pool w)" "w_os (some_state_pool w) = w_os w"
  "w_signal_flag (some_state_pool w) = w_signal_flag w" "w_session (some_state_pool w) = w_session w"
  "w_out (some_state_pool w) = w_out w"
  by (simp_all add: some_state_pool_def state_pool_ok_def)

lemma idle_flag [simp]: "w_signal_flag (idle_world_at s) = 0"
  by (simp add: idle_world_at_def)

lemma part_of_take: "0 < m \<Longrightarrow> part_of (take (min m n) b) (take n b)"
  by (auto simp: part_of_def min_def)

lemma sender_os_ok:
  "0 < m \<Longrightarrow> serves_file (sender_os m content) out fd content (\<lambda>s. s)"
  "calm (sender_os m content) (\<lambda>s. s)" "short_sends (sender_os m content) out fd m"
  using part_of_take [of m]
  by (auto simp: serves_file_def short_sends_def calm_def writes_ok_def sender_os_def idle_os_def idle_io_def
      idle_proc_def Let_def)

lemma receiver_os_ok: "0 < m \<Longrightarrow> stores_stream (receiver_os m) fd out (\<lambda>s. s)" "calm (receiver_os m) (\<lambda>s. s)"
proof -
  show "calm (receiver_os m) (\<lambda>s. s)"
    by (simp add: calm_def writes_ok_def receiver_os_def idle_os_def idle_io_def idle_proc_def)
  assume m: "0 < m"
  have rd: "\<exists>k s'. sys_read (receiver_os m) fd n (rest, file, pos) = (Inr (take k rest), s') \<and> k \<le> n
      \<and> k \<le> length rest \<and> (k = 0 \<longrightarrow> rest = [] \<or> n = 0) \<and> s' = (drop k rest, file, pos)" for n rest and "file" and pos
    by (rule exI [of _ "min (min m n) (length rest)"])
      (use m in \<open>auto simp: receiver_os_def idle_os_def idle_io_def min_def\<close>)
  show "stores_stream (receiver_os m) fd out (\<lambda>s. s)"
    unfolding stores_stream_def using rd
    by (simp add: mem_ok_def receiver_os_def idle_os_def idle_io_def idle_proc_def)
qed

text \<open>
  The pause. A system with a clock of its own: \<open>slept\<close> counts the nanoseconds a process has slept.
  \<open>nanosleep\<close> may be interrupted after a part of the time, and then tells the time that is left;
  reading the clock takes no sleep.
\<close>

definition nanoseconds :: "int \<times> int \<Rightarrow> int" where
  "nanoseconds d = fst d * 1000000000 + snd d"

definition timespec_ok :: "int \<times> int \<Rightarrow> bool" where
  "timespec_ok d \<longleftrightarrow> 0 \<le> fst d \<and> 0 \<le> snd d \<and> snd d < 1000000000"

definition sleeper :: "'o os \<Rightarrow> ('o \<Rightarrow> int) \<Rightarrow> bool" where
  "sleeper os slept \<longleftrightarrow> (\<forall>d s. timespec_ok d \<longrightarrow> (case sys_nanosleep os d s of
       (None, s') \<Rightarrow> slept s' = slept s + nanoseconds d
     | (Some left, s') \<Rightarrow> timespec_ok left \<and> nanoseconds left < nanoseconds d
         \<and> slept s' = slept s + nanoseconds d - nanoseconds left))
     \<and> (\<forall>s. slept (snd (sys_gettimeofday os s)) = slept s)"

text \<open>However often it is interrupted, the loop sleeps the whole time.\<close>

lemma nanosleep_loop_sleeps:
  assumes "sleeper os slept" and "timespec_ok d"
  shows "\<exists>s. nanosleep_loop os d w = Some (w\<lparr>w_os := s\<rparr>) \<and> slept s = slept (w_os w) + nanoseconds d"
  using assms(2)
proof (induction "nat (nanoseconds d)" arbitrary: d w rule: less_induct)
  case less
  obtain r s where r: "sys_nanosleep os d (w_os w) = (r, s)" by force
  note f = assms(1) [unfolded sleeper_def, THEN conjunct1, rule_format, OF less.prems, of "w_os w", unfolded r prod.case]
  show ?case
  proof (cases r)
    case None
    with f r show ?thesis by (auto simp: nanosleep_loop.simps os_query_def)
  next
    case (Some left)
    then have l: "timespec_ok left" "nanoseconds left < nanoseconds d"
      "slept s = slept (w_os w) + nanoseconds d - nanoseconds left" using f by simp_all
    have "nat (nanoseconds left) < nat (nanoseconds d)"
      using l(1,2) by (simp add: nanoseconds_def timespec_ok_def)
    from less.hyps [OF this l(1), of "w\<lparr>w_os := s\<rparr>"] r Some l(3) show ?thesis
      by (auto simp: nanosleep_loop.simps [of os d] os_query_def)
  qed
qed

text \<open>\<open>fair_pause rate bytes diff ms\<close>: \<open>ms\<close> milliseconds are what \<open>bytes\<close> bytes, sent in \<open>diff\<close>
  milliseconds, still owe a rate of \<open>rate\<close> kB/s (\<open>rate\<close> bytes per millisecond); none without a rate.\<close>

definition fair_pause :: "int \<Rightarrow> int \<Rightarrow> int \<Rightarrow> int \<Rightarrow> bool" where
  "fair_pause rate bytes diff ms \<longleftrightarrow>
     (if rate < 1 \<or> bytes < rate * diff then ms = 0
      else 0 \<le> ms \<and> rate * (diff + ms) \<le> bytes \<and> bytes < rate * (diff + ms + 1))"

lemma throttle_delay_fair:
  assumes "0 \<le> bytes"
  shows "case throttle_delay rate bytes diff of None \<Rightarrow> fair_pause rate bytes diff 0
    | Some ms \<Rightarrow> fair_pause rate bytes diff ms \<and> 0 \<le> ms"
proof (cases "rate < 1")
  case False
  then have r: "0 < rate" "bytes sdiv rate = bytes div rate" using assms by (simp_all add: sdiv_nonneg)
  define q where "q = bytes div rate"
  have "rate * q + bytes mod rate = bytes" by (simp add: q_def)
  moreover have "0 \<le> bytes mod rate" "bytes mod rate < rate" using r(1) by simp_all
  ultimately have b: "rate * q \<le> bytes" "bytes < rate * (q + 1)" by (simp_all add: distrib_left)
  have iff: "bytes < rate * diff \<longleftrightarrow> q < diff"
  proof (cases "q < diff")
    case True
    then have "rate * (q + 1) \<le> rate * diff" using r(1) by (intro mult_left_mono) auto
    with True b(2) show ?thesis by simp
  next
    case False
    then have "rate * diff \<le> rate * q" using r(1) by (intro mult_left_mono) auto
    with False b(1) show ?thesis by simp
  qed
  show ?thesis
    using False r(2) b iff by (simp add: throttle_delay_def fair_pause_def Let_def flip: q_def)
qed (simp add: throttle_delay_def fair_pause_def)

lemma throttle_sleep_fair:
  assumes "sleeper os slept" and "0 \<le> bytes"
  obtains s ms where "throttle_sleep os bytes diff w = Some (w\<lparr>w_os := s\<rparr>)"
    and "slept s = slept (w_os w) + ms * 1000000" and "fair_pause (cfg_throttle_rate (w_config w)) bytes diff ms"
proof (cases "throttle_delay (cfg_throttle_rate (w_config w)) bytes diff")
  case None
  with throttle_delay_fair [OF assms(2), of "cfg_throttle_rate (w_config w)" diff] show thesis
    by (intro that [of "w_os w" 0]) (simp_all add: throttle_sleep_def)
next
  case (Some ms)
  have ms: "fair_pause (cfg_throttle_rate (w_config w)) bytes diff ms" "0 \<le> ms"
    using throttle_delay_fair [OF assms(2), of "cfg_throttle_rate (w_config w)" diff] Some by simp_all
  let ?d = "(ms sdiv 1000, (ms smod 1000) * 1000000)"
  have e: "?d = (ms div 1000, (ms mod 1000) * 1000000)" using ms(2) by (simp add: sdiv_nonneg smod_nonneg)
  have d: "timespec_ok ?d" "nanoseconds ?d = ms * 1000000"
    unfolding e timespec_ok_def nanoseconds_def using ms(2) by (simp_all, presburger+)
  obtain s where "nanosleep_loop os ?d w = Some (w\<lparr>w_os := s\<rparr>)" "slept s = slept (w_os w) + ms * 1000000"
    using nanosleep_loop_sleeps [OF assms(1) d(1), of w] d(2) by auto
  with Some ms(1) show thesis by (intro that [of s ms]) (simp_all add: throttle_sleep_def)
qed

lemma throttle_report_sends:
  assumes "writes_ok os" and "state_pool_ok w" and "500 < diff"
  obtains b where "throttle_report os diff w = Some (upd_info
      (\<lambda>i. i\<lparr>xfer_probe := fst (sys_gettimeofday os (w_os w)), probe_len := 0\<rparr>)
      ((emit (master_pipe (w_conn w)) (message \<lparr>st_pid = sys_getpid os (w_os w), st_magic = STATE_MAGIC, st_type = T_XFER\<rparr>
          (put_xfer_info (w_info w))) (w\<lparr>w_state_pool := Some b\<rparr>))\<lparr>w_os := snd (sys_gettimeofday os (w_os w))\<rparr>))"
proof -
  obtain p where p: "w_state_pool w = Some p" "length p = FTP_MAX_PATH"
    using assms(2) by (auto simp: state_pool_ok_def)
  let ?op = "\<lparr>op_type = T_XFER, op_recv = recv_xfer, op_send = send_xfer, op_size = SIZEOF_XFER_INFO\<rparr> :: 'a state_op"
  have op: "find_state_op T_XFER = Some ?op" by (simp add: find_state_op_def state_ops_def state_types)
  obtain b where b: "blit p 0 (put_xfer_info (info (w_session w))) = Some b" "length b = FTP_MAX_PATH"
    "take 72 b = put_xfer_info (info (w_session w))"
    using p(2) by (simp add: blit_def FTP_MAX_PATH_def)
  then have s: "op_send ?op (w_session w) p = Some (FTP_SUCCESS, b)" by (simp add: send_xfer_def)
  have "op_size ?op \<le> FTP_MAX_PATH" by (simp add: SIZEOF_XFER_INFO_def FTP_MAX_PATH_def)
  from send_state_emits [OF assms(1) p op s b(2) this] b(3) assms(3) show thesis
    by (intro that [of b]) (simp add: throttle_report_def SIZEOF_XFER_INFO_def os_query_def case_prod_beta)
qed

text \<open>C31. The throttle keeps the rate: called when \<open>bytes\<close> bytes were sent in the \<open>diff\<close> milliseconds since
  the last probe, \<open>throttle_pause\<close> sleeps, through every interruption, exactly the milliseconds the
  configured rate of \<open>rate\<close> kB/s still owes (none when the bytes took long enough, or without a rate, or
  when the clock has been turned back). When more than half a second has passed the master is told the
  counters and the probe starts again at the second reading of the clock; when the clock has been turned
  back only the probe's time does; else nothing else changes. The bytes of one probe are less than \<open>2 ^ 31\<close>.\<close>

theorem throttle_pause_paces:
  assumes os: "writes_ok os" "sleeper os slept" and w: "state_pool_ok w"
    and bytes: "bytes = uint (probe_len (w_info w))" "bytes < 2 ^ 31"
    and now: "sys_gettimeofday os (w_os w) = (now, s1)" "sys_gettimeofday os s1 = (now2, s2)"
    and diff: "diff = msecdiff now (xfer_probe (w_info w))"
  shows "\<exists>v ms. throttle_pause os w = Some (FTP_SUCCESS, v)
    \<and> slept (w_os v) = slept (w_os w) + ms * 1000000
    \<and> (if diff < 0 then ms = 0 else fair_pause (cfg_throttle_rate (w_config w)) bytes diff ms)
    \<and> w_info v = (if diff < 0 then (w_info w)\<lparr>xfer_probe := now2\<rparr>
        else if 500 < diff then (w_info w)\<lparr>xfer_probe := now2, probe_len := 0\<rparr> else w_info w)
    \<and> w_out v = (if 500 < diff
        then (w_out w)(master_pipe (w_conn w) := w_out w (master_pipe (w_conn w))
          @ message \<lparr>st_pid = sys_getpid os s1, st_magic = STATE_MAGIC, st_type = T_XFER\<rparr> (put_xfer_info (w_info w)))
        else w_out w)"
proof -
  have cl: "slept s1 = slept (w_os w)" "slept s2 = slept s1"
    using os(2) now unfolding sleeper_def by (metis snd_conv)+
  have b': "0 \<le> bytes" unfolding bytes(1) by (rule uint_ge_0)
  then have "to_int32 bytes = bytes" using bytes(2) by (simp add: to_int32_id INT_MIN_def INT_MAX_def)
  with b' have b: "to_int32 (uint (probe_len (w_info w))) = bytes" "0 \<le> bytes"
    by (simp_all flip: bytes(1))
  let ?w1 = "w\<lparr>w_os := s1\<rparr>"
  have q: "os_query (sys_gettimeofday os) w = (now, ?w1)" using now(1) by (simp add: os_query_def)
  show ?thesis
  proof (cases "diff < 0")
    case True
    then show ?thesis
      using q now(2) diff cl by (simp add: throttle_pause_def Let_def os_query_def upd_info_def upd_session_def)
  next
    case False
    obtain v where v: "throttle_report os diff ?w1 = Some v" "slept (w_os v) = slept (w_os w)"
      "w_config v = w_config w"
      "w_info v = (if 500 < diff then (w_info w)\<lparr>xfer_probe := now2, probe_len := 0\<rparr> else w_info w)"
      "w_out v = (if 500 < diff
        then (w_out w)(master_pipe (w_conn w) := w_out w (master_pipe (w_conn w))
          @ message \<lparr>st_pid = sys_getpid os s1, st_magic = STATE_MAGIC, st_type = T_XFER\<rparr> (put_xfer_info (w_info w)))
        else w_out w)"
    proof (cases "500 < diff")
      case True
      have sp: "state_pool_ok ?w1" using w by (simp add: state_pool_ok_def)
      show thesis
      proof (rule throttle_report_sends [OF os(1) sp True], goal_cases)
        case (1 b)
        show thesis
          by (rule that [OF 1]) (use True cl now(2) in \<open>simp_all add: upd_info_def upd_session_def emit_def\<close>)
      qed
    qed (use cl in \<open>auto simp: throttle_report_def intro: that\<close>)
    obtain s ms where s: "throttle_sleep os bytes diff v = Some (v\<lparr>w_os := s\<rparr>)"
      "slept s = slept (w_os v) + ms * 1000000" "fair_pause (cfg_throttle_rate (w_config v)) bytes diff ms"
      by (rule throttle_sleep_fair [OF os(2) b(2)])
    have "throttle_pause os w = Some (FTP_SUCCESS, v\<lparr>w_os := s\<rparr>)"
      using q b(1) False v(1) s(1) diff by (simp add: throttle_pause_def Let_def)
    with s(2,3) v(2-5) False show ?thesis by (intro exI [of _ "v\<lparr>w_os := s\<rparr>"] exI [of _ ms]) simp
  qed
qed

text \<open>A system on which every sleep is interrupted after a second, and the clock reads 0.6 seconds.\<close>

definition drowsy_os :: "int os" where
  "drowsy_os = idle_os\<lparr>os_io := idle_io\<lparr>io_gettimeofday := \<lambda>s. (\<lparr>tv_sec = 0, tv_usec = 600000\<rparr>, s),
     io_nanosleep := \<lambda>d s. if 0 < fst d then (Some (fst d - 1, snd d), s + 1000000000) else (None, s + snd d)\<rparr>\<rparr>"

lemma drowsy_os_ok:
  "writes_ok drowsy_os" "sleeper drowsy_os (\<lambda>s. s)"
  "sys_gettimeofday drowsy_os s = (\<lparr>tv_sec = 0, tv_usec = 600000\<rparr>, s)" "sys_getpid drowsy_os s = 1"
  by (auto simp: writes_ok_def sleeper_def timespec_ok_def nanoseconds_def drowsy_os_def idle_os_def idle_io_def idle_proc_def)

definition paced_world :: "int world" where
  "paced_world = upd_info (\<lambda>i. i\<lparr>probe_len := 40960\<rparr>)
     (some_state_pool (idle_world_at 0)\<lparr>w_config := zero_config\<lparr>cfg_throttle_rate := 10\<rparr>\<rparr>)"

lemma paced_world_sel [simp]:
  "state_pool_ok paced_world" "w_os paced_world = 0" "w_info paced_world = (info idle_session)\<lparr>probe_len := 40960\<rparr>"
  "cfg_throttle_rate (w_config paced_world) = 10" "w_conn paced_world = conn idle_session" "w_out paced_world = (\<lambda>_. [])"
  by (simp_all add: paced_world_def some_state_pool_def idle_world_at_def upd_info_def upd_session_def state_pool_ok_def)

theorem throttle_pause_paces_witness:
  "\<exists>v. throttle_pause drowsy_os paced_world = Some (FTP_SUCCESS, v) \<and> w_os v = 3496 * 1000000
     \<and> probe_len (w_info v) = 0 \<and> xfer_probe (w_info v) = \<lparr>tv_sec = 0, tv_usec = 600000\<rparr> \<and> length (w_out v 5) = 84"
proof -
  have d: "msecdiff \<lparr>tv_sec = 0, tv_usec = 600000\<rparr> (xfer_probe (w_info paced_world)) = 600"
    by (simp add: msecdiff_def idle_session_def sdiv_nonneg to_int32_id INT_MIN_def INT_MAX_def)
  have f: "ms = 3496" if "fair_pause 10 40960 600 ms" for ms
    using that by (simp add: fair_pause_def)
  obtain v ms where v: "throttle_pause drowsy_os paced_world = Some (FTP_SUCCESS, v)" "w_os v = ms * 1000000"
    "fair_pause 10 40960 600 ms" "w_info v = (w_info paced_world)\<lparr>xfer_probe := \<lparr>tv_sec = 0, tv_usec = 600000\<rparr>, probe_len := 0\<rparr>"
    "length (w_out v 5) = 84"
    using throttle_pause_paces [OF drowsy_os_ok(1,2) paced_world_sel(1) refl _ drowsy_os_ok(3,3) d [symmetric]]
    by (auto simp: message_def idle_session_def)
  show ?thesis using v f [OF v(3)] by (intro exI [of _ v]) simp
qed



end
