(* ===== verification/Ftp_Session.thy ===== *)
theory Ftp_Session
  imports Ftp_Transfer
begin

text \<open>
  The invariant of a session and the contract of its command handlers.

  \<^item> \<open>session_ok\<close>: the working directory is a canonical path, the buffers have their sizes, the
    argument is a C string, and a client that is logged in has a virtual file system and a state
    buffer.
  \<^item> \<open>keeps w w'\<close>: what every handler guarantees: the invariant, the configuration, the identity of
    the connection, the command buffer, and that a login and its root directory are final.
  \<^item> The locale \<open>session_handler\<close> states the contract of a handler; every handler of the command
    table interprets it, and the main loop relies on nothing else.
\<close>

definition vfs_inv :: "'o world \<Rightarrow> bool" where
  "vfs_inv w \<longleftrightarrow> w_vfs w = None \<or> vfs_ok w"

definition state_inv :: "'o world \<Rightarrow> bool" where
  "state_inv w \<longleftrightarrow> w_state_pool w = None \<or> state_pool_ok w"

definition command_ok :: "ftp_command \<Rightarrow> bool" where
  "command_ok c \<longleftrightarrow> length (c_line c) = COMMAND_BUFFER_SIZE \<and> c_line_len c = COMMAND_BUFFER_SIZE
     \<and> c_dirty_len c \<le> COMMAND_BUFFER_SIZE \<and> c_len c \<le> COMMAND_BUFFER_SIZE \<and> nul_free (c_arg c)"

definition paths_ok :: "ftp_session \<Rightarrow> bool" where
  "paths_ok s \<longleftrightarrow> length (virt_path s) = FTP_MAX_PATH \<and> canonical (cstr (virt_path s))
     \<and> length (filename s) = FTP_MAX_NAME \<and> length (cstr (filename s)) < FTP_MAX_NAME
     \<and> 0 \<le> restart_pos s"

definition session_ok :: "'o world \<Rightarrow> bool" where
  "session_ok w \<longleftrightarrow> paths_ok (w_session w) \<and> command_ok (w_command w)
     \<and> reply_pool_ok w \<and> vfs_inv w \<and> state_inv w
     \<and> (logged_in (w_login w) \<longrightarrow> w_vfs w \<noteq> None \<and> w_state_pool w \<noteq> None)"

lemma session_okD:
  assumes "session_ok w"
  shows "length (virt_path (w_session w)) = FTP_MAX_PATH" and "canonical (w_cwd w)"
    and "length (filename (w_session w)) = FTP_MAX_NAME"
    and "length (cstr (filename (w_session w))) < FTP_MAX_NAME"
    and "nul_free (w_arg w)" and "reply_pool_ok w" and "0 \<le> restart_pos (w_session w)"
    and "logged_in (w_login w) \<Longrightarrow> vfs_ok w" and "logged_in (w_login w) \<Longrightarrow> state_pool_ok w"
  using assms by (auto simp: session_ok_def paths_ok_def command_ok_def vfs_inv_def state_inv_def)

text \<open>The parts of a session no handler touches.\<close>

definition wires :: "'o world \<Rightarrow> (int \<times> int \<times> in_addr \<times> in_addr) \<times> (buf \<times> nat \<times> nat \<times> nat)" where
  "wires w = ((sock (w_conn w), master_pipe (w_conn w), host_addr (w_conn w), client_addr (w_conn w)),
     (c_line (w_command w), c_line_len (w_command w), c_dirty_len (w_command w), c_len (w_command w)))"

definition keeps :: "'o world \<Rightarrow> 'o world \<Rightarrow> bool" where
  "keeps w w' \<longleftrightarrow> (session_ok w \<longrightarrow> session_ok w') \<and> w_config w' = w_config w \<and> wires w' = wires w
     \<and> (logged_in (w_login w) \<longrightarrow> logged_in (w_login w') \<and> vfs_root w' = vfs_root w)"

lemma keeps_refl [simp, intro]: "keeps w w"
  by (simp add: keeps_def)

lemma keeps_trans [trans]: "keeps u v \<Longrightarrow> keeps v w \<Longrightarrow> keeps u w"
  by (simp add: keeps_def)

lemma keepsD:
  assumes "keeps w w'"
  shows "session_ok w \<Longrightarrow> session_ok w'" and "w_config w' = w_config w" and "wires w' = wires w"
    and "logged_in (w_login w) \<Longrightarrow> logged_in (w_login w')"
    and "logged_in (w_login w) \<Longrightarrow> vfs_root w' = vfs_root w"
  using assms by (simp_all add: keeps_def)

interpretation keeps: frame_relation keeps
  by unfold_locales (auto intro: keeps_trans)

lemma steady_keeps: "steady w w' \<Longrightarrow> keeps w w'"
proof -
  assume a: "steady w w'"
  note d = steadyD [OF a]
  have "vfs_inv w \<Longrightarrow> vfs_inv w'" "state_inv w \<Longrightarrow> state_inv w'"
    using d(9,11,12,13) by (auto simp: vfs_inv_def state_inv_def)
  with d show ?thesis
    by (simp add: keeps_def session_ok_def paths_ok_def wires_def)
qed

lemma quiet_keeps: "quiet w w' \<Longrightarrow> keeps w w'"
  by (simp add: quiet_steady steady_keeps)

lemma vquiet_keeps: "vquiet w w' \<Longrightarrow> keeps w w'"
  by (simp add: vquiet_steady steady_keeps)

lemma keeps_then_steady: "keeps w u \<Longrightarrow> steady u v \<Longrightarrow> keeps w v"
  by (rule keeps_trans [OF _ steady_keeps])

lemma keeps_then_quiet: "keeps w u \<Longrightarrow> quiet u v \<Longrightarrow> keeps w v"
  by (rule keeps_trans [OF _ quiet_keeps])

subsection \<open>The rules of the primitives\<close>

named_theorems keeps_rules

lemma keeps_quiet_prim:
  assumes "\<And>x v. m = Some (x, v) \<Longrightarrow> quiet u v" and "keeps w u" shows "within keeps w m"
  by (rule withinI) (rule keeps_then_quiet [OF assms(2) assms(1)])

lemma keeps_vquiet_prim:
  assumes "\<And>x v. m = Some (x, v) \<Longrightarrow> vquiet u v" and "keeps w u" shows "within keeps w m"
  by (rule withinI) (rule keeps_trans [OF assms(2) vquiet_keeps [OF assms(1)]])

lemma keeps_steady_prim:
  assumes "within steady u m" and "keeps w u" shows "within keeps w m"
  by (rule withinI) (rule keeps_then_steady [OF assms(2) withinD [OF assms(1)]])

lemma keeps_prims [keeps_rules]:
  assumes "keeps w u"
  shows "within keeps w (reply os con msg u)" and "within keeps w (reply_format os con msg u)"
    and "within keeps w (failed_vfs_reply os con u)"
    and "within keeps w (accept_data_conn os con u)"
    and "within keeps w (vfs_stat os cwd p u)" and "within keeps w (vfs_open os cwd p u)"
    and "within keeps w (vfs_creat os cwd p md u)" and "within keeps w (vfs_mkdir os cwd p md u)"
    and "within keeps w (vfs_rmdir os cwd p u)" and "within keeps w (vfs_unlink os cwd p u)"
    and "within keeps w (vfs_opendir os cwd p u)"
    and "within keeps w (send_state os t u)"
    and "within keeps w (transfer_file os d f off n u)" and "within keeps w (store_file os f d u)"
  by (rule keeps_quiet_prim [OF reply_quiet assms] keeps_quiet_prim [OF reply_format_quiet assms]
        keeps_quiet_prim [OF failed_vfs_reply_quiet assms] keeps_quiet_prim [OF accept_data_conn_quiet assms]
        keeps_vquiet_prim [OF vfs_stat_vquiet assms] keeps_vquiet_prim [OF vfs_open_vquiet assms]
        keeps_vquiet_prim [OF vfs_creat_vquiet assms] keeps_vquiet_prim [OF vfs_mkdir_vquiet assms]
        keeps_vquiet_prim [OF vfs_rmdir_vquiet assms] keeps_vquiet_prim [OF vfs_unlink_vquiet assms]
        keeps_vquiet_prim [OF vfs_opendir_vquiet assms]
        keeps_steady_prim [OF send_state_within [OF steady_refl] assms]
        keeps_steady_prim [OF transfer_file_within [OF steady_refl] assms]
        keeps_steady_prim [OF store_file_within [OF steady_refl] assms], assumption?)+

lemma keeps_pair:
  assumes "\<And>x v. p = (x, v) \<Longrightarrow> quiet u v" and "keeps w u"
    and "\<And>x v. keeps w v \<Longrightarrow> within keeps w (f x v)"
  shows "within keeps w (case p of (x, v) \<Rightarrow> f x v)"
  using assms keeps_then_quiet by (cases p) (simp, blast)

lemma keeps_pairs [keeps_rules]:
  assumes "keeps w u"
  shows "(\<And>x v. keeps w v \<Longrightarrow> within keeps w (f1 x v)) \<Longrightarrow>
      within keeps w (case os_call g1 u of (x, v) \<Rightarrow> f1 x v)"
    and "(\<And>x v. keeps w v \<Longrightarrow> within keeps w (f2 x v)) \<Longrightarrow>
      within keeps w (case os_query g2 u of (x, v) \<Rightarrow> f2 x v)"
    and "(\<And>x v. keeps w v \<Longrightarrow> within keeps w (f3 x v)) \<Longrightarrow>
      within keeps w (case os_newfd g3 u of (x, v) \<Rightarrow> f3 x v)"
    and "(\<And>x v. keeps w v \<Longrightarrow> within keeps w (f4 x v)) \<Longrightarrow>
      within keeps w (case c_malloc os n u of (x, v) \<Rightarrow> f4 x v)"
  by (rule keeps_pair [OF _ assms]; (erule os_call_quiet os_query_quiet os_newfd_quiet c_malloc_quiet
      | assumption | blast))+

lemma keeps_upd [keeps_rules]:
  assumes "keeps w u"
  shows "keeps w (upd_info f u)" and "keeps w (c_close os fd u)" and "keeps w (vfs_close os fd u)"
    and "keeps w (vfs_closedir os dp u)" and "keeps w (u\<lparr>w_errno := e\<rparr>)"
  by (rule keeps_then_steady [OF assms steady_info], (rule keeps_then_quiet [OF assms], simp)+)

subsection \<open>Updates of the session\<close>

lemma keeps_upd_socks [keeps_rules]:
  assumes "keeps w u"
  shows "keeps w (upd_conn (\<lambda>c. c\<lparr>pasv_sock := fd\<rparr>) u)" and "keeps w (upd_conn (\<lambda>c. c\<lparr>data_sock := fd\<rparr>) u)"
  by (rule keeps_trans [OF assms], simp add: keeps_def session_ok_def paths_ok_def wires_def upd_conn_def
      upd_session_def vfs_inv_def state_inv_def vfs_ok_def state_pool_ok_def reply_pool_ok_def vfs_root_def)+

lemma keeps_upd_paths:
  assumes "keeps w u" and "session_ok u \<Longrightarrow> paths_ok (f (w_session u))"
    and "\<And>s. conn (f s) = conn s" "\<And>s. command (f s) = command s" "\<And>s. login (f s) = login s"
  shows "keeps w (upd_session f u)"
  by (rule keeps_trans [OF assms(1)])
     (use assms(2-) in \<open>simp add: keeps_def session_ok_def wires_def upd_session_def vfs_inv_def
       state_inv_def vfs_ok_def state_pool_ok_def reply_pool_ok_def vfs_root_def\<close>)

lemma keeps_upd_restart [keeps_rules]:
  "keeps w u \<Longrightarrow> 0 \<le> n \<Longrightarrow> keeps w (upd_session (\<lambda>s. s\<lparr>restart_pos := n\<rparr>) u)"
  by (rule keeps_upd_paths) (auto simp: session_ok_def paths_ok_def)

lemma keeps_upd_filename:
  "keeps w u \<Longrightarrow> length b = FTP_MAX_NAME \<Longrightarrow> length (cstr b) < FTP_MAX_NAME \<Longrightarrow>
     keeps w (upd_session (\<lambda>s. s\<lparr>filename := b\<rparr>) u)"
  by (rule keeps_upd_paths) (auto simp: session_ok_def paths_ok_def)

lemma keeps_upd_cwd:
  "keeps w u \<Longrightarrow> length b = FTP_MAX_PATH \<Longrightarrow> canonical (cstr b) \<Longrightarrow>
     keeps w (upd_session (\<lambda>s. s\<lparr>virt_path := b\<rparr>) u)"
  by (rule keeps_upd_paths) (auto simp: session_ok_def paths_ok_def)

lemma keeps_upd_arg [keeps_rules]:
  "keeps w u \<Longrightarrow> nul_free a \<Longrightarrow> keeps w (upd_command (\<lambda>c. c\<lparr>c_arg := a\<rparr>) u)"
  by (rule keeps_trans, assumption)
     (simp add: keeps_def session_ok_def paths_ok_def command_ok_def wires_def upd_command_def
      upd_session_def vfs_inv_def state_inv_def vfs_ok_def state_pool_ok_def reply_pool_ok_def vfs_root_def)

text \<open>\<open>vfs_chdir( session->virt_path, path )\<close>: the session's directory is updated in place.\<close>

definition session_chdir :: "string \<Rightarrow> 'o world \<Rightarrow> (int \<times> 'o world) option" where
  "session_chdir path w = do {
     ((r, cwd), w) \<leftarrow> vfs_chdir (virt_path (w_session w)) path w;
     Some (r, upd_session (\<lambda>s. s\<lparr>virt_path := cwd\<rparr>) w) }"

lemma vfs_chdir_canonical:
  assumes "vfs_ok w" and "length b = FTP_MAX_PATH" and "canonical (cstr b)" and "nul_free p"
  shows "\<exists>r b' w'. vfs_chdir b p w = Some ((r, b'), w') \<and> vquiet w w' \<and> length b' = FTP_MAX_PATH
    \<and> canonical (cstr b') \<and> w_os w' = w_os w
    \<and> (case pool_realpath (cstr b) p w of
         Some (Inr _, v) \<Rightarrow> r = 0 \<and> cstr b' = pool_virt_path v \<and> w' = v
       | _ \<Rightarrow> r = -1 \<and> b' = b)"
  using pool_realpath_cases [OF assms(1,3,4)]
proof cases
  case (1 w')
  then show ?thesis using assms by (simp add: vfs_chdir_def)
next
  case (2 w' q)
  have "q \<noteq> []" using canonical_absolute [OF 2(3)] by (auto simp: is_absolute_def)
  moreover have "nul_free q" "length q < FTP_MAX_PATH"
    using 2(3) canonical_nul_free canonical_split by auto
  ultimately obtain d where "strlcpy b q FTP_MAX_PATH = Some (length q, d)" "length d = length b" "cstr d = q"
    using strlcpy_fits [of q FTP_MAX_PATH b] assms(2) by auto
  with 2 assms(2) show ?thesis by (simp add: vfs_chdir_def)
qed

lemma session_chdir_within [keeps_rules]:
  assumes "keeps w u" and "session_ok w" and "nul_free p"
  shows "within keeps w (session_chdir p u)"
proof (cases "w_vfs u")
  case None
  then have "session_chdir p u = None" by (simp add: session_chdir_def vfs_chdir_def pool_realpath_def)
  then show ?thesis by (simp add: within_def)
next
  case (Some v)
  have ok: "session_ok u" using keepsD(1) [OF assms(1,2)] .
  then have "vfs_ok u" using Some by (simp add: session_ok_def vfs_inv_def)
  from vfs_chdir_canonical [OF this session_okD(1,2) [OF ok] assms(3)]
  obtain r b' w' where "vfs_chdir (virt_path (w_session u)) p u = Some ((r, b'), w')" "vquiet u w'"
    "length b' = FTP_MAX_PATH" "canonical (cstr b')" by blast
  then show ?thesis
    using keeps_upd_cwd [OF keeps_trans [OF assms(1) vquiet_keeps]]
    by (simp add: session_chdir_def within_def)
qed

subsection \<open>The contract of a handler\<close>

locale session_handler =
  fixes handler :: "'o handler"
  assumes handler_keeps: "mem_ok os \<Longrightarrow> session_ok w \<Longrightarrow> within keeps w (handler os w)"
begin

lemma handler_ok:
  assumes "mem_ok os" and "session_ok w" and "handler os w = Some (r, w')"
  shows "session_ok w'" and "keeps w w'"
proof -
  show k: "keeps w w'" using withinD [OF handler_keeps [OF assms(1,2)] assms(3)] .
  then show "session_ok w'" using keepsD(1) assms(2) by blast
qed

end

lemmas keeps_intros = keeps.w_return keeps.w_none keeps.w_bind keeps.w_if keeps.w_sum keeps.w_option

subsection \<open>A member in the root directory\<close>

text \<open>A logged-in session for the examples, with an argument to its command.\<close>

definition arg_world :: "'o \<Rightarrow> string \<Rightarrow> 'o world" where
  "arg_world st a = some_state_pool (upd_command (\<lambda>c. c\<lparr>c_arg := a\<rparr>)
     (upd_login (\<lambda>l. l\<lparr>logged_in := True\<rparr>) (idle_world_at st)))"

lemma cstr_root: "cstr ((replicate FTP_MAX_PATH NUL)[0 := SLASH]) = ''/''"
  by (simp add: FTP_MAX_PATH_def cstr_def numeral_eq_Suc)

lemma cstr_zeros [simp]: "cstr (replicate n NUL) = []"
  by (cases n) (simp_all add: cstr_def)

lemma arg_world_sel [simp]:
  "w_os (arg_world st a) = st" "w_arg (arg_world st a) = a" "logged_in (w_login (arg_world st a))"
  "w_conn (arg_world st a) = conn idle_session" "w_cwd (arg_world st a) = ''/''"
  "vfs_root (arg_world st a) = ''/srv''" "w_fds (arg_world st a) = {}" "w_out (arg_world st a) = (\<lambda>_. [])"
  "w_info (arg_world st a) = info idle_session" "w_signal_flag (arg_world st a) = 0"
  "vfs_ok (arg_world st a)" "w_config (arg_world st a) = zero_config"
  "restart_pos (w_session (arg_world st a)) = 0"
  by (simp_all add: arg_world_def some_state_pool_def upd_command_def upd_login_def upd_session_def
      idle_world_at_def idle_session_def cstr_root vfs_root_def vfs_ok_def nul_free_def)

lemma arg_world_ok:
  assumes "nul_free a" shows "session_ok (arg_world st a)"
proof -
  have "paths_ok idle_session"
    by (simp add: paths_ok_def idle_session_def cstr_root FTP_MAX_NAME_def)
  then show ?thesis
    using assms by (simp add: session_ok_def vfs_inv_def state_inv_def reply_pool_ok_def)
      (simp add: paths_ok_def command_ok_def arg_world_def some_state_pool_def upd_command_def
        upd_login_def upd_session_def idle_world_at_def idle_session_def state_pool_ok_def nul_free_def)
qed

end
