(* ===== verification/Ftp_Auth.thy ===== *)
theory Ftp_Auth
  imports Ftp_Session
begin

text \<open>
  \<open>auth.c\<close>: the commands ACCT, USER and PASS. The user and shadow databases and \<open>crypt\<close> are part of
  the operating system. The properties say who gets in: a session becomes logged in only after an
  anonymous USER, or with a password that \<open>crypt\<close> maps to the stored hash.
\<close>

text \<open>\<open>uid_t\<close> is unsigned: the failure \<open>-1\<close> is the largest user id.\<close>

definition NO_UID :: nat where "NO_UID = 4294967295"

definition doacct :: "'o handler" where
  "doacct os w = do {
     (_, w) \<leftarrow> reply os (w_conn w) (''202 ACCT is obsolete'' @ CRLF) w;
     Some (FTP_SUCCESS, w) }"

definition douser :: "'o handler" where
  "douser os w =
     (let username = w_arg w in
      if logged_in (w_login w)
      then do {
        (_, w) \<leftarrow> reply os (w_conn w) (''503 Already logged in'' @ CRLF) w;
        Some (FTP_SUCCESS, w) }
      else (let w = upd_login (\<lambda>l. l\<lparr>user := Null\<rparr>) w in
        if strcasecmp username ''anonymous'' = 0
        then (if \<not> cfg_allow_anon (w_config w)
              then do {
                (_, w) \<leftarrow> reply os (w_conn w) (''550 No anonymous connections allowed'' @ CRLF) w;
                Some (FTP_SUCCESS, w) }
              else do {
                (_, w) \<leftarrow> reply os (w_conn w) (''331 Any pass will do'' @ CRLF) w;
                Some (FTP_SUCCESS, upd_login (\<lambda>l. l\<lparr>anonymous := True\<rparr>) w) })
        else (case c_malloc os (length username + 1) w of (mem, w) \<Rightarrow>
          if \<not> mem then Some (FTP_ERROR, w)
          else (let w = upd_login (\<lambda>l. l\<lparr>user := Ptr username\<rparr>) w in do {
            (_, w) \<leftarrow> reply_format os (w_conn w) (''331 Pass required for user '' @ username @ CRLF) w;
            Some (FTP_SUCCESS, w) }))))"

definition login_user :: "'o os \<Rightarrow> string \<Rightarrow> string \<Rightarrow> 'o world \<Rightarrow> (nat \<times> 'o world) option" where
  "login_user os name password w =
     (case os_query (sys_getpwnam os name) w of
        (None, w) \<Rightarrow> Some (NO_UID, w)
      | (Some (pw_uid, pw_dir), w) \<Rightarrow>
          (case os_query (sys_getspnam os name) w of
             (None, w) \<Rightarrow> Some (NO_UID, w)
           | (Some sp_pwdp, w) \<Rightarrow>
               (case os_query (sys_crypt os password sp_pwdp) w of
                  (None, w) \<Rightarrow> Some (NO_UID, w)
                | (Some encrypt_pw, w) \<Rightarrow>
                    if encrypt_pw \<noteq> sp_pwdp then Some (NO_UID, w)
                    else (case init_state_pool os w of (r, w) \<Rightarrow>
                      if r \<noteq> FTP_SUCCESS then Some (NO_UID, w)
                      else do {
                        (r, w) \<leftarrow> init_vfs_pool os (Some pw_dir) w;
                        Some (if r \<noteq> FTP_SUCCESS then NO_UID else pw_uid, w) }))))"

definition dopass :: "'o handler" where
  "dopass os w =
     (if logged_in (w_login w)
      then do {
        (_, w) \<leftarrow> reply os (w_conn w) (''503 Already logged in'' @ CRLF) w;
        Some (FTP_SUCCESS, w) }
      else if anonymous (w_login w)
      then do {
        (_, w) \<leftarrow> reply os (w_conn w) (''230 Hello!'' @ CRLF) w;
        (_, w) \<leftarrow> init_vfs_pool os (cfg_anon_root_dir (w_config w)) w;
        (case init_state_pool os w of (_, w) \<Rightarrow>
          Some (FTP_SUCCESS, upd_login (\<lambda>l. l\<lparr>logged_in := True\<rparr>) w)) }
      else (case user (w_login w) of
          Indeterminate \<Rightarrow> None
        | Null \<Rightarrow> do {
            (_, w) \<leftarrow> reply os (w_conn w) (''503 Login with USER first'' @ CRLF) w;
            Some (FTP_SUCCESS, w) }
        | Ptr name \<Rightarrow> do {
            (user_id, w) \<leftarrow> login_user os name (w_arg w) w;
            if user_id = NO_UID
            then do {
              (_, w) \<leftarrow> reply os (w_conn w) (''530 Login failed'' @ CRLF) w;
              Some (FTP_QUIT, w) }
            else (case os_call (sys_setuid os user_id) w of
                (Inl _, w) \<Rightarrow> Some (FTP_ERROR, w)
              | (Inr _, w) \<Rightarrow> do {
                  (_, w) \<leftarrow> send_state os T_LOGIN w;
                  let w = upd_login (\<lambda>l. l\<lparr>logged_in := True\<rparr>) w;
                  (_, w) \<leftarrow> reply os (w_conn w) (''230 Login successful, have fun'' @ CRLF) w;
                  Some (FTP_SUCCESS, w) }) }))"

subsection \<open>The contract\<close>

interpretation doacct: session_handler doacct
  by unfold_locales (auto simp: doacct_def intro!: keeps_intros keeps_rules)

lemma upd_login_keeps [keeps_rules]:
  "keeps w u \<Longrightarrow> \<not> logged_in (w_login u) \<Longrightarrow> (\<And>l. logged_in (f l) = logged_in l) \<Longrightarrow> keeps w (upd_login f u)"
  by (rule keeps_trans, assumption)
     (simp add: keeps_def session_ok_def paths_ok_def wires_def upd_login_def upd_session_def
      vfs_inv_def state_inv_def vfs_ok_def state_pool_ok_def reply_pool_ok_def vfs_root_def)

lemma not_logged_in_quiet: "quiet u v \<Longrightarrow> logged_in (w_login v) = logged_in (w_login u)"
  by (simp add: quietD)

interpretation douser: session_handler douser
proof unfold_locales
  fix os :: "'a os" and w :: "'a world"
  assume "session_ok w"
  show "within keeps w (douser os w)"
  proof (cases "logged_in (w_login w)")
    case True
    then show ?thesis by (auto simp: douser_def Let_def intro!: keeps_intros keeps_rules)
  next
    case False
    let ?w = "upd_login (\<lambda>l. l\<lparr>user := Null\<rparr>) w"
    have k: "keeps w ?w" using False by (auto intro!: keeps_rules)
    have n: "\<not> logged_in (w_login ?w)" using False by (simp add: upd_login_def upd_session_def)
    have q: "keeps w (upd_login f v)" if "quiet ?w v" "\<And>l. logged_in (f l) = logged_in l" for f v
      using keeps_then_quiet [OF k that(1)] not_logged_in_quiet [OF that(1)] n that(2)
      by (intro upd_login_keeps) auto
    have rf: "keeps w t" if "reply_format os c m (upd_login (\<lambda>l. l\<lparr>user := Ptr name\<rparr>) v) = Some (x, t)"
      "quiet ?w v" for c m v x t name
      by (rule keeps_then_quiet [OF q [OF that(2)] reply_format_quiet [OF that(1)]]) simp
    show ?thesis
      using False
      by (auto simp: douser_def Let_def within_def split: if_splits prod.splits
          elim!: bind_SomeE dest!: reply_quiet c_malloc_quiet intro: keeps_then_quiet [OF k] q rf)
  qed
qed

text \<open>Setting up the two buffers of a login.\<close>

definition opened :: "'o world \<Rightarrow> 'o world \<Rightarrow> bool" where
  "opened w w' \<longleftrightarrow> w_session w' = w_session w \<and> w_config w' = w_config w
     \<and> (reply_pool_ok w \<longrightarrow> reply_pool_ok w') \<and> (vfs_inv w \<longrightarrow> vfs_inv w') \<and> (state_inv w \<longrightarrow> state_inv w')
     \<and> (w_vfs w \<noteq> None \<longrightarrow> w_vfs w' \<noteq> None) \<and> (w_state_pool w \<noteq> None \<longrightarrow> w_state_pool w' \<noteq> None)"

lemma opened_trans: "opened u v \<Longrightarrow> opened v w \<Longrightarrow> opened u w"
  by (simp add: opened_def)

lemma opened_pools:
  assumes "opened w v"
  shows "w_vfs w \<noteq> None \<Longrightarrow> w_vfs v \<noteq> None" and "w_state_pool w \<noteq> None \<Longrightarrow> w_state_pool v \<noteq> None"
  using assms by (simp_all add: opened_def)

lemma quiet_opened: "quiet w w' \<Longrightarrow> opened w w'"
  by (simp add: quiet_def opened_def vfs_inv_def vfs_ok_def state_inv_def state_pool_ok_def)

lemma init_vfs_pool_opened:
  assumes "mem_ok os" and "init_vfs_pool os r w = Some (x, w')"
  shows "opened w w' \<and> w_vfs w' \<noteq> None \<and> x = FTP_SUCCESS"
  using assms by (auto simp: init_vfs_pool_def opened_def vfs_inv_def vfs_ok_def state_inv_def
      state_pool_ok_def reply_pool_ok_def Let_def split: option.splits)

lemma init_state_pool_opened:
  assumes "mem_ok os" shows "opened w (snd (init_state_pool os w)) \<and> w_state_pool (snd (init_state_pool os w)) \<noteq> None
    \<and> fst (init_state_pool os w) = FTP_SUCCESS"
  using assms by (auto simp: init_state_pool_ok opened_def vfs_inv_def vfs_ok_def state_inv_def
      state_pool_ok_def reply_pool_ok_def)

lemma opened_keeps: "opened w w' \<Longrightarrow> \<not> logged_in (w_login w) \<Longrightarrow> keeps w w'"
  by (auto simp: opened_def keeps_def session_ok_def wires_def)

lemma log_in_keeps:
  assumes "keeps w u" and "\<not> logged_in (w_login w)" and "w_vfs u \<noteq> None" and "w_state_pool u \<noteq> None"
  shows "keeps w (upd_login (\<lambda>l. l\<lparr>logged_in := True\<rparr>) u)"
  using assms by (simp add: keeps_def session_ok_def paths_ok_def wires_def upd_login_def
      upd_session_def vfs_inv_def state_inv_def vfs_ok_def state_pool_ok_def reply_pool_ok_def vfs_root_def)

lemma login_user_opened:
  assumes mem: "mem_ok os" and l: "login_user os name pw w = Some (uid, w')"
  shows "opened w w' \<and> (uid \<noteq> NO_UID \<longrightarrow> w_vfs w' \<noteq> None \<and> w_state_pool w' \<noteq> None)"
proof -
  obtain pwent w1 where 1: "os_query (sys_getpwnam os name) w = (pwent, w1)" by force
  obtain spent w2 where 2: "os_query (sys_getspnam os name) w1 = (spent, w2)" by force
  have o1: "opened w w1" "opened w w2"
    using os_query_quiet [OF 1] os_query_quiet [OF 2] quiet_opened quiet_trans by blast+
  show ?thesis
  proof (cases "pwent = None \<or> spent = None")
    case True
    with l 1 2 o1 show ?thesis by (auto simp: login_user_def split: option.splits)
  next
    case False
    then obtain u d h where s: "pwent = Some (u, d)" "spent = Some h" by auto
    obtain c w3 where 3: "os_query (sys_crypt os pw h) w2 = (c, w3)" by force
    have o3: "opened w w3" using o1(2) quiet_opened [OF os_query_quiet [OF 3]] opened_trans by blast
    show ?thesis
    proof (cases "c = Some h")
      case True
      define w4 where "w4 = snd (init_state_pool os w3)"
      note i = init_state_pool_opened [OF mem, of w3, folded w4_def]
      obtain x w5 where v: "init_vfs_pool os (Some d) w4 = Some (x, w5)" "w' = w5"
        using l 1 2 3 s True i by (auto simp: login_user_def w4_def case_prod_beta elim!: bind_SomeE)
      have i': "opened w4 w'" "w_vfs w' \<noteq> None" using init_vfs_pool_opened [OF mem v(1)] v(2) by simp_all
      have "opened w w'" using opened_trans [OF opened_trans [OF o3 conjunct1 [OF i]] i'(1)] .
      with i i' opened_pools(2) [OF i'(1)] show ?thesis by simp
    next
      case False
      with l 1 2 3 s o3 show ?thesis by (cases c) (auto simp: login_user_def)
    qed
  qed
qed

interpretation dopass: session_handler dopass
proof unfold_locales
  fix os :: "'a os" and w :: "'a world"
  assume mem: "mem_ok os"
  have keep_open: "keeps w v" if "\<not> logged_in (w_login w)" "opened w v" for v
    using opened_keeps that by blast
  show "within keeps w (dopass os w)"
  proof (cases "logged_in (w_login w)")
    case True
    then show ?thesis by (auto simp: dopass_def intro!: keeps_intros keeps_rules)
  next
    case nl: False
    show ?thesis
    proof (cases "anonymous (w_login w)")
      case True
      have "keeps w (upd_login (\<lambda>l. l\<lparr>logged_in := True\<rparr>) (snd (init_state_pool os v)))"
        if r: "reply os (w_conn w) m w = Some (x, u)" "init_vfs_pool os d u = Some (y, v)" for m x u d y v
      proof -
        have o: "opened w u" using reply_quiet [OF r(1)] by (rule quiet_opened)
        have i1: "opened u v" "w_vfs v \<noteq> None" using init_vfs_pool_opened [OF mem r(2)] by simp_all
        have i2: "opened v (snd (init_state_pool os v))" "w_state_pool (snd (init_state_pool os v)) \<noteq> None"
          using init_state_pool_opened [OF mem, of v] by simp_all
        have "opened w (snd (init_state_pool os v))"
          by (rule opened_trans [OF opened_trans [OF o i1(1)] i2(1)])
        with i2 opened_pools(1) [OF i2(1) i1(2)] nl show ?thesis by (intro log_in_keeps keep_open) simp_all
      qed
      with nl True show ?thesis
        by (auto simp: dopass_def within_def case_prod_beta elim!: bind_SomeE)
    next
      case False
      show ?thesis
      proof (cases "user (w_login w)")
        case (Ptr name)
        have "within keeps w (if uid = NO_UID
            then do { (_, w) \<leftarrow> reply os (w_conn u) (''530 Login failed'' @ CRLF) u; Some (FTP_QUIT, w) }
            else (case os_call (sys_setuid os uid) u of
                (Inl _, w) \<Rightarrow> Some (FTP_ERROR, w)
              | (Inr _, w) \<Rightarrow> do {
                  (_, w) \<leftarrow> send_state os T_LOGIN w;
                  let w = upd_login (\<lambda>l. l\<lparr>logged_in := True\<rparr>) w;
                  (_, w) \<leftarrow> reply os (w_conn w) (''230 Login successful, have fun'' @ CRLF) w;
                  Some (FTP_SUCCESS, w) }))" if l: "login_user os name (w_arg w) w = Some (uid, u)" for uid u
        proof (cases "uid = NO_UID")
          case True
          have k: "keeps w u" using keep_open [OF nl] login_user_opened [OF mem l] by blast
          from True show ?thesis by (auto intro!: keeps_intros keeps_rules k)
        next
          case False
          note o = login_user_opened [OF mem l]
          have k: "keeps w u" using keep_open [OF nl] o by blast
          have log: "keeps w (upd_login (\<lambda>l. l\<lparr>logged_in := True\<rparr>) v)" if "steady u v" for v
            using steadyD(12,13) [OF that] o False nl keeps_then_steady [OF k that]
            by (intro log_in_keeps) auto
          have fin: "keeps w t" if "os_call f u = (r, v)" "send_state os T_LOGIN v = Some (x, v')"
            "quiet (upd_login (\<lambda>l. l\<lparr>logged_in := True\<rparr>) v') t" for f and r :: "errno + unit" and v x v' t
            using keeps_then_quiet [OF log [OF steady_trans [OF quiet_steady [OF os_call_quiet [OF that(1)]]
                send_state_steady [OF that(2)]]] that(3)] .
          with False k show ?thesis
            by (auto simp: Let_def within_def split: sum.splits prod.splits elim!: bind_SomeE
                dest!: reply_quiet intro: fin keeps_then_quiet [OF _ os_call_quiet])
        qed
        with nl False Ptr show ?thesis
          by (auto simp: dopass_def intro!: keeps_intros simp: within_def elim!: bind_SomeE)
      qed (use nl False in \<open>auto simp: dopass_def intro!: keeps_intros keeps_rules\<close>)
    qed
  qed
qed

subsection \<open>Properties\<close>

lemma login_user_authenticated:
  assumes "login_user os name pw w = Some (uid, w')" and "uid \<noteq> NO_UID"
  shows "\<exists>dir hash s1 s2 s3. fst (sys_getpwnam os name s1) = Some (uid, dir)
    \<and> fst (sys_getspnam os name s2) = Some hash \<and> fst (sys_crypt os pw hash s3) = Some hash"
proof -
  obtain pwent w1 where 1: "os_query (sys_getpwnam os name) w = (pwent, w1)" by force
  obtain spent w2 where 2: "os_query (sys_getspnam os name) w1 = (spent, w2)" by force
  obtain u d h where s: "pwent = Some (u, d)" "spent = Some h"
    using assms 1 2 by (cases pwent; cases spent) (auto simp: login_user_def)
  obtain c w3 where 3: "os_query (sys_crypt os pw h) w2 = (c, w3)" by force
  have c: "c = Some h" using assms 1 2 3 s by (cases c) (auto simp: login_user_def split: if_splits)
  have "uid = u" using assms 1 2 3 s c
    by (auto simp: login_user_def split: if_splits prod.splits elim!: bind_SomeE)
  moreover have "fst (sys_getpwnam os name (w_os w)) = pwent" "fst (sys_getspnam os name (w_os w1)) = spent"
    "fst (sys_crypt os pw h (w_os w2)) = c"
    using 1 2 3 by (auto simp: os_query_def split: prod.splits)
  ultimately show ?thesis using s c by blast
qed

text \<open>C12. Only the entitled get in: when PASS logs a session in, the session had asked for anonymous
  access, or the named user is in the user database and \<open>crypt\<close> maps the given password, with the
  stored hash as its salt, to the stored hash.\<close>

theorem dopass_authenticates:
  assumes "dopass os w = Some (r, w')" and "\<not> logged_in (w_login w)" and "logged_in (w_login w')"
  shows "anonymous (w_login w) \<or>
    (\<exists>name uid dir hash s1 s2 s3. user (w_login w) = Ptr name
       \<and> fst (sys_getpwnam os name s1) = Some (uid, dir) \<and> fst (sys_getspnam os name s2) = Some hash
       \<and> fst (sys_crypt os (w_arg w) hash s3) = Some hash)"
proof (cases "anonymous (w_login w)")
  case False
  then obtain name where n: "user (w_login w) = Ptr name"
    using assms by (auto simp: dopass_def split: cptr.splits elim!: bind_SomeE dest!: reply_quiet quietD(1))
  then obtain uid u where l: "login_user os name (w_arg w) w = Some (uid, u)"
    using assms False by (auto simp: dopass_def elim!: bind_SomeE)
  have "uid \<noteq> NO_UID"
  proof
    assume id: "uid = NO_UID"
    have "quiet u w'" using assms(1,2) False n l id
      by (auto simp: dopass_def elim!: bind_SomeE dest!: reply_quiet)
    moreover have "w_session u = w_session w"
    proof -
      have "\<And>x v. init_state_pool os v = (x, u) \<Longrightarrow> w_session u = w_session v"
        by (auto simp: init_state_pool_def Let_def c_malloc_def os_query_def split: prod.splits bool.splits)
      moreover have "\<And>x d v. init_vfs_pool os d v = Some (x, u) \<Longrightarrow> w_session u = w_session v"
        by (auto simp: init_vfs_pool_def Let_def c_malloc_def os_query_def split: prod.splits bool.splits option.splits)
      moreover have "\<And>x d v v'. init_state_pool os v = (x, v') \<Longrightarrow> w_session v' = w_session v"
        by (auto simp: init_state_pool_def Let_def c_malloc_def os_query_def split: prod.splits bool.splits)
      ultimately show ?thesis using l
        by (auto simp: login_user_def split: prod.splits option.splits if_splits elim!: bind_SomeE
            dest!: os_query_quiet quietD(1))
    qed
    ultimately show False using assms(2,3) by (simp add: quietD(1))
  qed
  with login_user_authenticated [OF l] n show ?thesis by blast
qed simp

definition shadow_os :: "unit os" where
  "shadow_os = idle_os\<lparr>os_proc := idle_proc\<lparr>
     proc_getpwnam := \<lambda>n s. (if n = ''alice'' then Some (1000, ''/home/alice'') else None, s),
     proc_getspnam := \<lambda>n s. (if n = ''alice'' then Some ''xy'' else None, s),
     proc_crypt := \<lambda>p k s. (if p = ''secret'' then Some k else Some ''no'', s)\<rparr>\<rparr>"

definition alice_world :: "string \<Rightarrow> unit world" where
  "alice_world pw = upd_command (\<lambda>c. c\<lparr>c_arg := pw\<rparr>) (upd_login (\<lambda>l. l\<lparr>user := Ptr ''alice''\<rparr>) idle_world)"

theorem dopass_authenticates_witness:
  "\<not> (\<exists>r w'. dopass shadow_os (alice_world ''guess'') = Some (r, w') \<and> logged_in (w_login w'))"
proof
  assume "\<exists>r w'. dopass shadow_os (alice_world ''guess'') = Some (r, w') \<and> logged_in (w_login w')"
  then obtain r w' where d: "dopass shadow_os (alice_world ''guess'') = Some (r, w')" "logged_in (w_login w')"
    by blast
  have s: "w_login (alice_world ''guess'') = \<lparr>logged_in = False, anonymous = False, user = Ptr ''alice''\<rparr>"
    "w_arg (alice_world ''guess'') = ''guess''"
    by (simp_all add: alice_world_def upd_command_def upd_login_def upd_session_def idle_world_at_def idle_session_def)
  have "\<not> logged_in (w_login (alice_world ''guess''))" by (simp add: s)
  from dopass_authenticates [OF d(1) this d(2)] show False
    by (simp add: s shadow_os_def split: if_splits)
qed

definition set_arg :: "string \<Rightarrow> 'o world \<Rightarrow> 'o world" where
  "set_arg a w = upd_command (\<lambda>c. c\<lparr>c_arg := a\<rparr>) w"

lemma set_arg_sel [simp]:
  "w_login (set_arg a w) = w_login w" "w_arg (set_arg a w) = a" "w_config (set_arg a w) = w_config w"
  "reply_pool_ok (set_arg a w) = reply_pool_ok w" "w_conn (set_arg a w) = w_conn w"
  by (simp_all add: set_arg_def upd_command_def upd_session_def reply_pool_ok_def)

text \<open>C35. The anonymous flag outlives the request for it: after USER anonymous, a second USER that names
  another user is answered with a request for that user's password, and then any password at all logs
  the session in.\<close>

theorem anonymous_flag_stale:
  assumes os: "sends_ok os" "mem_ok os" and w: "\<not> logged_in (w_login w)" "reply_pool_ok w"
    and cfg: "cfg_allow_anon (w_config w)" "cfg_anon_root_dir (w_config w) = Some d"
    and name: "strcasecmp name ''anonymous'' \<noteq> 0" "nul_free name"
  shows "\<exists>w1 w2 w3. douser os (set_arg ''anonymous'' w) = Some (FTP_SUCCESS, w1)
    \<and> douser os (set_arg name w1) = Some (FTP_SUCCESS, w2) \<and> user (w_login w2) = Ptr name
    \<and> dopass os (set_arg pw w2) = Some (FTP_SUCCESS, w3) \<and> logged_in (w_login w3)"
proof -
  define w1 where "w1 = upd_login (\<lambda>l. l\<lparr>anonymous := True\<rparr>) (emit (sock (w_conn w)) (''331 Any pass will do'' @ CRLF)
      (upd_login (\<lambda>l. l\<lparr>user := Null\<rparr>) (set_arg ''anonymous'' w)))"
  have 1: "douser os (set_arg ''anonymous'' w) = Some (FTP_SUCCESS, w1)"
    using os w cfg by (simp add: douser_def Let_def reply_ok w1_def upd_login_def upd_session_def)
  have w1: "w_login w1 = \<lparr>logged_in = False, anonymous = True, user = Null\<rparr>" "reply_pool_ok w1" "w_config w1 = w_config w"
    using w by (simp_all add: w1_def upd_login_def upd_session_def emit_def set_arg_def upd_command_def reply_pool_ok_def)
  define v where "v = upd_login (\<lambda>l. l\<lparr>user := Ptr name\<rparr>) (upd_login (\<lambda>l. l\<lparr>user := Null\<rparr>) (set_arg name w1))"
  have v: "w_login v = \<lparr>logged_in = False, anonymous = True, user = Ptr name\<rparr>" "reply_pool_ok v" "w_config v = w_config w"
    using w1 by (simp_all add: v_def upd_login_def upd_session_def reply_pool_ok_def set_arg_def upd_command_def)
  have nf: "nul_free (''331 Pass required for user '' @ name @ CRLF)" using name(2) by simp
  obtain x w2 where 2: "reply_format os (w_conn v) (''331 Pass required for user '' @ name @ CRLF) v = Some (x, w2)"
    using reply_format_ok [OF os(1) v(2) nf] by blast
  have w2: "w_login w2 = w_login v" "w_config w2 = w_config w"
    using quietD(1,2) [OF reply_format_quiet [OF 2]] v(3) by simp_all
  have second: "douser os (set_arg name w1) = Some (FTP_SUCCESS, w2)"
    using 2 os name w1 by (simp add: douser_def Let_def v_def)
  define u where "u = emit (sock (w_conn w2)) (''230 Hello!'' @ CRLF) (set_arg pw w2)"
  have u: "reply os (w_conn (set_arg pw w2)) (''230 Hello!'' @ CRLF) (set_arg pw w2)
      = Some (int (length (''230 Hello!'' @ CRLF)), u)"
    by (simp add: reply_ok [OF os(1)] u_def)
  have cu: "w_config u = w_config w" "c_malloc os n u = (True, u)" for n using w2 os(2) by (simp_all add: u_def)
  have "\<exists>y z. init_vfs_pool os (cfg_anon_root_dir (w_config u)) u = Some (y, z)"
    using cfg cu by (simp add: init_vfs_pool_def Let_def)
  then obtain y z where i: "init_vfs_pool os (cfg_anon_root_dir (w_config u)) u = Some (y, z)" by blast
  have "logged_in (w_login (upd_login (\<lambda>l. l\<lparr>logged_in := True\<rparr>) (snd (init_state_pool os z))))"
    by (simp add: upd_login_def upd_session_def)
  moreover have "dopass os (set_arg pw w2)
      = Some (FTP_SUCCESS, upd_login (\<lambda>l. l\<lparr>logged_in := True\<rparr>) (snd (init_state_pool os z)))"
    using w2 v(1) u i by (simp add: dopass_def case_prod_beta)
  ultimately show ?thesis using 1 second w2(1) v(1) by (intro exI conjI) simp_all
qed

definition anon_world :: "unit world" where
  "anon_world = idle_world\<lparr>w_config := zero_config\<lparr>cfg_allow_anon := True, cfg_anon_root_dir := Some ''/srv''\<rparr>\<rparr>"

theorem anonymous_flag_stale_witness:
  "\<exists>w1 w2 w3. douser idle_os (set_arg ''anonymous'' anon_world) = Some (FTP_SUCCESS, w1)
    \<and> douser idle_os (set_arg ''root'' w1) = Some (FTP_SUCCESS, w2) \<and> user (w_login w2) = Ptr ''root''
    \<and> dopass idle_os (set_arg ''whatever'' w2) = Some (FTP_SUCCESS, w3) \<and> logged_in (w_login w3)"
proof (rule anonymous_flag_stale)
  show "\<not> logged_in (w_login anon_world)"
    by (simp add: anon_world_def idle_session_def)
  show "reply_pool_ok anon_world"
    by (simp add: anon_world_def reply_pool_ok_def idle_world_at_def)
  show "cfg_allow_anon (w_config anon_world)" "cfg_anon_root_dir (w_config anon_world) = Some ''/srv''"
    by (simp_all add: anon_world_def)
qed (simp_all add: tolower_def byte_of_def nul_free_def)

end
