(* ===== verification/Ftp_Core.thy ===== *)
theory Ftp_Core
  imports Ftp_Auth
begin

text \<open>
  The command handlers of \<open>core.c\<close>, with \<open>pasv_listen\<close> of \<open>server.c\<close>. Each is the whole function: its
  guards and early returns in order, the replies it sends, the state it changes. Every handler
  interprets the contract \<open>session_handler\<close>.
\<close>

definition say :: "'o os \<Rightarrow> string \<Rightarrow> 'o world \<Rightarrow> (int \<times> 'o world) option" where
  "say os msg w = reply os (w_conn w) (msg @ CRLF) w"

definition sayf :: "'o os \<Rightarrow> string \<Rightarrow> 'o world \<Rightarrow> (int \<times> 'o world) option" where
  "sayf os msg w = reply_format os (w_conn w) (msg @ CRLF) w"

definition vfs_failed :: "'o handler" where
  "vfs_failed os w = failed_vfs_reply os (w_conn w) w"

abbreviation QUOTE :: char where "QUOTE \<equiv> CHR 0x22"

text \<open>\<open>%llu\<close> of a signed 64-bit value.\<close>

definition fmt_llu :: "int \<Rightarrow> string" where
  "fmt_llu i = dec (nat (i mod 2 ^ 64))"

subsection \<open>Fixed replies\<close>

definition dosyst :: "'o handler" where
  "dosyst os w = do { (_, w) \<leftarrow> say os ''200 UNIX Type L8'' w; Some (FTP_SUCCESS, w) }"

definition donoop :: "'o handler" where
  "donoop os w = do { (_, w) \<leftarrow> say os ''200 Zzz'' w; Some (FTP_SUCCESS, w) }"

definition doquit :: "'o handler" where
  "doquit os w = do { (_, w) \<leftarrow> say os ''221 Goodbye!'' w; Some (FTP_QUIT, w) }"

definition dofeat :: "'o handler" where
  "dofeat os w = do {
     (_, w) \<leftarrow> say os ''211-Extensions supported:'' w;
     (_, w) \<leftarrow> say os '' SIZE'' w;
     (_, w) \<leftarrow> say os '' MDTM'' w;
     (_, w) \<leftarrow> say os ''211 End.'' w;
     Some (FTP_SUCCESS, w) }"

definition doopts :: "'o handler" where
  "doopts os w = do { (_, w) \<leftarrow> say os ''501 No such command'' w; Some (FTP_SUCCESS, w) }"

definition doabor :: "'o handler" where
  "doabor os w = do { (_, w) \<leftarrow> say os ''226 Abort successful'' w; Some (FTP_SUCCESS, w) }"

definition doclnt :: "'o handler" where
  "doclnt os w = do { (_, w) \<leftarrow> say os ''220 Whatever'' w; Some (FTP_SUCCESS, w) }"

definition doallo :: "'o handler" where
  "doallo os w = do { (_, w) \<leftarrow> say os ''202 ALLO is obsolete'' w; Some (FTP_SUCCESS, w) }"

definition dotype :: "'o handler" where
  "dotype os w = (let arg = w_arg w; c = toupper (case arg of [] \<Rightarrow> NUL | c # _ \<Rightarrow> c) in do {
     (_, w) \<leftarrow>
       (if c = CHR ''A'' then say os ''200 TYPE is now ASCII'' w
        else if c = CHR ''I'' then say os ''200 TYPE is now BINARY'' w
        else if c = CHR ''L''
        then (if length arg > 1 then say os ''501 Missing argument'' w
              else do {
                (_, w) \<leftarrow> say os ''504-Only 8-bit bytes allowed'' w;
                say os ''504 TYPE is now Binary'' w })
        else say os ''504 Bad parameter'' w);
     Some (FTP_SUCCESS, w) })"

subsection \<open>Directories\<close>

definition dopwd :: "'o handler" where
  "dopwd os w = do {
     (_, w) \<leftarrow> sayf os (''257 '' @ [QUOTE] @ w_cwd w @ [QUOTE] @ '' is your current location'') w;
     Some (FTP_SUCCESS, w) }"

definition docwd :: "'o handler" where
  "docwd os w = do {
     (st, w) \<leftarrow> vfs_stat os (w_cwd w) (w_arg w) w;
     (case st of
        Inl _ \<Rightarrow> vfs_failed os w
      | Inr statpath \<Rightarrow>
          if \<not> S_ISDIR (st_mode statpath)
          then do { (_, w) \<leftarrow> say os ''550 Not a directory'' w; Some (FTP_SUCCESS, w) }
          else do {
            (_, w) \<leftarrow> session_chdir (w_arg w) w;
            (_, w) \<leftarrow> send_state os T_CHDIR w;
            (_, w) \<leftarrow> say os ''250 OK'' w;
            Some (FTP_SUCCESS, w) }) }"

definition docdup :: "'o handler" where
  "docdup os w = docwd os (upd_command (\<lambda>c. c\<lparr>c_arg := ''..''\<rparr>) w)"

definition domkd :: "'o handler" where
  "domkd os w = do {
     (r, w) \<leftarrow> vfs_mkdir os (w_cwd w) (w_arg w) 511 w;
     (case r of
        Inl _ \<Rightarrow> do { (_, w) \<leftarrow> vfs_failed os w; Some (FTP_SUCCESS, w) }
      | Inr _ \<Rightarrow> do {
          (_, w) \<leftarrow> sayf os (''257 '' @ [QUOTE] @ w_arg w @ [QUOTE] @ '' created'') w;
          Some (FTP_SUCCESS, w) }) }"

definition dormd :: "'o handler" where
  "dormd os w = do {
     (r, w) \<leftarrow> vfs_rmdir os (w_cwd w) (w_arg w) w;
     (case r of
        Inl _ \<Rightarrow> do { (_, w) \<leftarrow> vfs_failed os w; Some (FTP_SUCCESS, w) }
      | Inr _ \<Rightarrow> do { (_, w) \<leftarrow> say os ''250 Directory removed'' w; Some (FTP_SUCCESS, w) }) }"

definition dodele :: "'o handler" where
  "dodele os w = do {
     (r, w) \<leftarrow> vfs_unlink os (w_cwd w) (w_arg w) w;
     (case r of
        Inl _ \<Rightarrow> do { (_, w) \<leftarrow> vfs_failed os w; Some (FTP_SUCCESS, w) }
      | Inr _ \<Rightarrow> do { (_, w) \<leftarrow> say os ''250 File deleted'' w; Some (FTP_SUCCESS, w) }) }"

subsection \<open>File information\<close>

definition dosize :: "'o handler" where
  "dosize os w = do {
     (st, w) \<leftarrow> vfs_stat os (w_cwd w) (w_arg w) w;
     (case st of
        Inl _ \<Rightarrow> do { (_, w) \<leftarrow> vfs_failed os w; Some (FTP_SUCCESS, w) }
      | Inr st \<Rightarrow>
          if \<not> S_ISREG (st_mode st)
          then do { (_, w) \<leftarrow> say os ''550 Can only size regular files'' w; Some (FTP_SUCCESS, w) }
          else do { (_, w) \<leftarrow> sayf os (''213 '' @ fmt_llu (st_size st)) w; Some (FTP_SUCCESS, w) }) }"

text \<open>\<open>snprintf\<close> into 15 bytes keeps 14 characters. The month is printed as \<open>tm_mon\<close>, from 0.\<close>

definition mdtm_date :: "tm \<Rightarrow> string" where
  "mdtm_date t = take 14 (fmt_0d 4 (tm_year t + 1900) @ fmt_0d 2 (tm_mon t) @ fmt_0d 2 (tm_mday t)
     @ fmt_0d 2 (tm_hour t) @ fmt_0d 2 (tm_min t) @ fmt_0d 2 (tm_sec t))"

definition domdtm :: "'o handler" where
  "domdtm os w = do {
     (st, w) \<leftarrow> vfs_stat os (w_cwd w) (w_arg w) w;
     (case st of
        Inl _ \<Rightarrow> do { (_, w) \<leftarrow> vfs_failed os w; Some (FTP_SUCCESS, w) }
      | Inr st \<Rightarrow>
          if \<not> S_ISREG (st_mode st)
          then do { (_, w) \<leftarrow> say os ''550 Can only time regular files'' w; Some (FTP_SUCCESS, w) }
          else do {
            t \<leftarrow> convert_time (st_mtime st);
            (_, w) \<leftarrow> sayf os (''213 '' @ mdtm_date t) w;
            Some (FTP_SUCCESS, w) }) }"

subsection \<open>Passive mode\<close>

text \<open>
  The ports from \<open>listen_port\<close> on, \<open>n\<close> of them: \<open>Inl\<close> is the error return, \<open>Inr p\<close> the loop left at
  port \<open>p\<close>, bound unless it is the end.
\<close>

fun bind_ports :: "'o os \<Rightarrow> int \<Rightarrow> int \<Rightarrow> nat \<Rightarrow> 'o world \<Rightarrow> (unit + int) \<times> 'o world" where
  "bind_ports os fd listen_port 0 w = (Inr listen_port, w)"
| "bind_ports os fd listen_port (Suc n) w =
     (case os_call (sys_bind os fd (listen_port mod 65536)) w of
        (Inl e, w) \<Rightarrow> if e = EADDRINUSE then bind_ports os fd (listen_port + 1) n w else (Inl (), w)
      | (Inr _, w) \<Rightarrow> (Inr listen_port, w))"

text \<open>The port in network byte order, or an error.\<close>

definition pasv_listen :: "'o os \<Rightarrow> int \<Rightarrow> 'o world \<Rightarrow> (char \<times> char) option \<times> 'o world" where
  "pasv_listen os pasv_fd w = (
     let start = cfg_pasv_port_start (w_config w);
         stop = cfg_pasv_port_end (w_config w) + 1;
         w = snd (os_call (sys_setsockopt os pasv_fd) w)
     in case bind_ports os pasv_fd start (nat (stop - start)) w of
          (Inl _, w) \<Rightarrow> (None, w)
        | (Inr listen_port, w) \<Rightarrow>
            if listen_port = stop then (None, w)
            else (case os_call (sys_listen os pasv_fd) w of
                (Inl _, w) \<Rightarrow> (None, w)
              | (Inr _, w) \<Rightarrow> (case os_call (sys_getsockname os pasv_fd) w of
                    (Inl _, w) \<Rightarrow> (None, w)
                  | (Inr (_, port), w) \<Rightarrow> (Some (char_of (port div 256 mod 256), char_of (port mod 256)), w))))"

definition pasv_reply :: "in_addr \<Rightarrow> char \<times> char \<Rightarrow> string" where
  "pasv_reply ip port = ''227 Entering Passive Mode ('' @
     concat (map (\<lambda>c. dec (byte_of c) @ '','') (take 4 ip)) @
     dec (byte_of (fst port)) @ '','' @ dec (byte_of (snd port)) @ '')''"

definition dopasv :: "'o handler" where
  "dopasv os w = (
     let old = pasv_sock (w_conn w);
         w = (if old \<noteq> -1 then upd_conn (\<lambda>c. c\<lparr>pasv_sock := -1\<rparr>) (c_close os old w) else w);
         ip = host_addr (w_conn w)
     in case os_newfd (sys_socket os) w of
          (Inl _, w) \<Rightarrow> do { (_, w) \<leftarrow> say os ''425 Can't open data connection'' w; Some (-1, w) }
        | (Inr fd, w) \<Rightarrow>
            (case pasv_listen os fd (upd_conn (\<lambda>c. c\<lparr>pasv_sock := fd\<rparr>) w) of
               (None, w) \<Rightarrow>
                 (let w = upd_conn (\<lambda>c. c\<lparr>pasv_sock := -1\<rparr>) (c_close os fd w) in do {
                    (_, w) \<leftarrow> say os ''425 Can't open data connection'' w;
                    Some (FTP_SUCCESS, w) })
             | (Some port, w) \<Rightarrow> do {
                 (_, w) \<leftarrow> sayf os (pasv_reply ip port) w;
                 Some (FTP_SUCCESS, w) }))"

subsection \<open>Transfers\<close>

text \<open>
  \<open>errno\<close> is not cleared before \<open>strtoll\<close>, which sets it only when it overflows: an \<open>ERANGE\<close> of an
  earlier command is still seen. The argument is trimmed in place; it starts with a character that is
  not white space, so the backward scan stays inside it.
\<close>

definition rest_offset :: "string \<Rightarrow> errno \<Rightarrow> int \<times> errno" where
  "rest_offset strpos e = (let (v, _, overflow) = strtoll 10 strpos in (v, if overflow then ERANGE else e))"

definition dorest :: "'o handler" where
  "dorest os w = do {
     let arg = w_arg w;
     (p, b) \<leftarrow> trim_whitespace (arg @ [NUL]) 0;
     let w = upd_command (\<lambda>c. c\<lparr>c_arg := cstr b\<rparr>) w;
     let (offset, e) = rest_offset (cstr (drop p b)) (w_errno w);
     let w = w\<lparr>w_errno := e\<rparr>;
     if offset < 0 \<or> offset = LLONG_MAX \<or> w_errno w = ERANGE
     then do {
       (_, w) \<leftarrow> say os ''501-Invalid seek argument'' w;
       (_, w) \<leftarrow> say os ''501 Seek reset to 0'' w;
       Some (FTP_SUCCESS, upd_session (\<lambda>s. s\<lparr>restart_pos := 0\<rparr>) w) }
     else do {
       (_, w) \<leftarrow> sayf os (''350 Restarting transfer at '' @ fmt_llu offset) w;
       Some (FTP_SUCCESS, upd_session (\<lambda>s. s\<lparr>restart_pos := offset\<rparr>) w) } }"

text \<open>What both transfers begin with: the base name goes to \<open>session->filename\<close>.\<close>

definition set_filename :: "string \<Rightarrow> 'o world \<Rightarrow> (nat \<times> 'o world) option" where
  "set_filename pathname w = do {
     (n, b) \<leftarrow> strlcpy (filename (w_session w)) (find_basename pathname) (FTP_MAX_NAME - 1);
     Some (n, upd_session (\<lambda>s. s\<lparr>filename := b\<rparr>) w) }"

definition transfer_reply :: "'o os \<Rightarrow> int \<Rightarrow> 'o world \<Rightarrow> (int \<times> 'o world) option" where
  "transfer_reply os ret w =
     say os (if ret = FTP_SUCCESS then ''226 File transfer successful''
       else if ret = FTP_ABOR then ''426 File transfer aborted''
       else ''450 Error during write to data connection'') w"

text \<open>From the stored status to the first progress message.\<close>

definition start_transfer :: "'o os \<Rightarrow> 'o world \<Rightarrow> (int \<times> 'o world) option" where
  "start_transfer os w = do {
     (_, w) \<leftarrow> say os ''125 Data connection OK, transfer starting'' w;
     let w = upd_info (\<lambda>i. i\<lparr>xfer_status := 0\<rparr>) w;
     send_state os T_XFER_START w }"

definition file_stream :: "int \<Rightarrow> stream" where
  "file_stream fd = \<lparr>stream_fd = fd, stream_kind = S_FILE\<rparr>"

definition socket_stream :: "int \<Rightarrow> stream" where
  "socket_stream fd = \<lparr>stream_fd = fd, stream_kind = S_SOCKET\<rparr>"

text \<open>From the first reply to the closing of the descriptors.\<close>

definition retr_transfer :: "'o os \<Rightarrow> int \<Rightarrow> int \<Rightarrow> int \<Rightarrow> int \<Rightarrow> 'o world \<Rightarrow> (int \<times> 'o world) option" where
  "retr_transfer os fd data offset filesize w = do {
     (_, w) \<leftarrow> start_transfer os w;
     (ret, w) \<leftarrow> transfer_file os (socket_stream data) (file_stream fd) offset (filesize - offset) w;
     (_, w) \<leftarrow> transfer_reply os ret w;
     let w = upd_info (\<lambda>i. i\<lparr>total_down := total_down i + xfer_len i\<rparr>) w;
     let w = upd_session (\<lambda>s. s\<lparr>restart_pos := 0\<rparr>) w;
     let w = upd_info (\<lambda>i. i\<lparr>xfer_status := ret\<rparr>) w;
     (_, w) \<leftarrow> send_state os T_XFER_STOP w;
     Some (FTP_SUCCESS, c_close os data (vfs_close os fd w)) }"

definition doretr :: "'o handler" where
  "doretr os w = do {
     let argument = w_arg w;
     (n, w) \<leftarrow> set_filename argument w;
     if n \<ge> FTP_MAX_NAME
     then do { (_, w) \<leftarrow> say os ''550 Filename too long'' w; Some (FTP_SUCCESS, w) }
     else do {
       (st, w) \<leftarrow> vfs_stat os (w_cwd w) argument w;
       (case st of
          Inl _ \<Rightarrow> do { (_, w) \<leftarrow> vfs_failed os w; Some (FTP_SUCCESS, w) }
        | Inr statfile \<Rightarrow>
            if \<not> S_ISREG (st_mode statfile)
            then do { (_, w) \<leftarrow> say os ''550 Can only retrieve regular files'' w; Some (FTP_SUCCESS, w) }
            else do {
              (r, w) \<leftarrow> vfs_open os (w_cwd w) argument w;
              (case r of
                 Inl _ \<Rightarrow> do { (_, w) \<leftarrow> vfs_failed os w; Some (FTP_SUCCESS, w) }
               | Inr fd \<Rightarrow> do {
                   (data, w) \<leftarrow> accept_data_conn os (w_conn w) w;
                   let w = upd_conn (\<lambda>c. c\<lparr>data_sock := data\<rparr>) w;
                   if data = -1 then Some (FTP_SUCCESS, vfs_close os fd w)
                   else if data = -2 then Some (FTP_QUIT, vfs_close os fd w)
                   else (let offset = restart_pos (w_session w); filesize = st_size statfile in
                     if offset > filesize
                     then (let w = c_close os data (vfs_close os fd w) in do {
                       (_, w) \<leftarrow> sayf os (''451 Restarting position '' @ fmt_llu offset @
                         '' too large for file '' @ find_basename argument @ '' of size '' @ fmt_llu filesize) w;
                       Some (FTP_SUCCESS, w) })
                     else retr_transfer os fd data offset filesize w) }) }) } }"

text \<open>The part of \<open>dostor\<close> after the data connection is accepted.\<close>

definition stor_transfer :: "'o os \<Rightarrow> int \<Rightarrow> int \<Rightarrow> 'o world \<Rightarrow> (int \<times> 'o world) option" where
  "stor_transfer os file data w = do {
     (_, w) \<leftarrow> start_transfer os w;
     (ret, w) \<leftarrow> store_file os (file_stream file) (socket_stream data) w;
     (_, w) \<leftarrow> transfer_reply os ret w;
     let w = upd_info (\<lambda>i. i\<lparr>total_up := total_up i + xfer_len i\<rparr>) w;
     let w = upd_info (\<lambda>i. i\<lparr>xfer_status := ret\<rparr>) w;
     (_, w) \<leftarrow> send_state os T_XFER_STOP w;
     Some (FTP_SUCCESS, c_close os data (vfs_close os file w)) }"

text \<open>
  \<open>dostor\<close> stores the accepted descriptor in the variable that held the file's: when the data
  connection fails it closes \<open>-1\<close> or \<open>-2\<close>, and the file stays open.
\<close>

definition dostor :: "'o handler" where
  "dostor os w = do {
     let pathname = w_arg w;
     (n, w) \<leftarrow> set_filename pathname w;
     if n \<ge> FTP_MAX_NAME
     then do { (_, w) \<leftarrow> say os ''550 Filename too long'' w; Some (FTP_SUCCESS, w) }
     else do {
       (r, w) \<leftarrow> vfs_creat os (w_cwd w) pathname 511 w;
       (case r of
          Inl _ \<Rightarrow> do { (_, w) \<leftarrow> vfs_failed os w; Some (FTP_SUCCESS, w) }
        | Inr file \<Rightarrow> do {
            (data, w) \<leftarrow> accept_data_conn os (w_conn w) w;
            if data = -1 then Some (FTP_SUCCESS, vfs_close os data w)
            else if data = -2 then Some (FTP_QUIT, vfs_close os data w)
            else stor_transfer os file data w }) } }"

subsection \<open>Every handler keeps the contract\<close>

lemma keeps_says [keeps_rules]:
  assumes "keeps w u"
  shows "within keeps w (say os msg u)" and "within keeps w (sayf os msg u)"
    and "within keeps w (vfs_failed os u)" and "within keeps w (start_transfer os u)"
    and "within keeps w (transfer_reply os ret u)"
  using assms by (auto simp: say_def sayf_def vfs_failed_def start_transfer_def transfer_reply_def
      intro!: keeps_intros keeps_rules)

interpretation dosyst: session_handler dosyst
  by unfold_locales (auto simp: dosyst_def intro!: keeps_intros keeps_rules)
interpretation donoop: session_handler donoop
  by unfold_locales (auto simp: donoop_def intro!: keeps_intros keeps_rules)
interpretation doquit: session_handler doquit
  by unfold_locales (auto simp: doquit_def intro!: keeps_intros keeps_rules)
interpretation dofeat: session_handler dofeat
  by unfold_locales (auto simp: dofeat_def intro!: keeps_intros keeps_rules)
interpretation doopts: session_handler doopts
  by unfold_locales (auto simp: doopts_def intro!: keeps_intros keeps_rules)
interpretation doabor: session_handler doabor
  by unfold_locales (auto simp: doabor_def intro!: keeps_intros keeps_rules)
interpretation doclnt: session_handler doclnt
  by unfold_locales (auto simp: doclnt_def intro!: keeps_intros keeps_rules)
interpretation doallo: session_handler doallo
  by unfold_locales (auto simp: doallo_def intro!: keeps_intros keeps_rules)
interpretation dotype: session_handler dotype
  by unfold_locales (auto simp: dotype_def Let_def intro!: keeps_intros keeps_rules)
interpretation dopwd: session_handler dopwd
  by unfold_locales (auto simp: dopwd_def intro!: keeps_intros keeps_rules)
interpretation domkd: session_handler domkd
  by unfold_locales (auto simp: domkd_def intro!: keeps_intros keeps_rules)
interpretation dormd: session_handler dormd
  by unfold_locales (auto simp: dormd_def intro!: keeps_intros keeps_rules)
interpretation dodele: session_handler dodele
  by unfold_locales (auto simp: dodele_def intro!: keeps_intros keeps_rules)
interpretation dosize: session_handler dosize
  by unfold_locales (auto simp: dosize_def intro!: keeps_intros keeps_rules)
interpretation domdtm: session_handler domdtm
  by unfold_locales (auto simp: domdtm_def intro!: keeps_intros keeps_rules keeps.w_pure [where m = "convert_time t" for t])

lemma set_filename_within [keeps_rules]:
  assumes "keeps w u" and "session_ok w" and "nul_free p"
  shows "within keeps w (set_filename p u)"
proof (rule withinI)
  fix n v assume e: "set_filename p u = Some (n, v)"
  let ?f = "filename (w_session u)" and ?b = "find_basename p"
  note ok = session_okD(3,4) [OF keepsD(1) [OF assms(1,2)]]
  have nf: "nul_free ?b" using assms(3) by simp
  obtain d where d: "strlcpy ?f ?b (FTP_MAX_NAME - 1) = Some (length ?b, d)" "length d = length ?f"
    "if ?b = [] then d = ?f else cstr d = take (FTP_MAX_NAME - 1 - 1) ?b"
    using strlcpy_bounded [of "FTP_MAX_NAME - 1" ?f ?b] ok(1) nf
    by (cases "?b = []") (auto simp: FTP_MAX_NAME_def)
  have "length (cstr d) < FTP_MAX_NAME"
    using d(3) ok(2) by (cases "?b = []") (auto simp: FTP_MAX_NAME_def)
  moreover have "v = upd_session (\<lambda>s. s\<lparr>filename := d\<rparr>) u"
    using e d(1) by (simp add: set_filename_def)
  ultimately show "keeps w v" using keeps_upd_filename [OF assms(1)] d(2) ok(1) by simp
qed

lemma session_nul_free [simp]: "session_ok w \<Longrightarrow> nul_free (w_arg w)"
  by (rule session_okD(5))

lemma keeps_nul_free [intro]: "keeps w u \<Longrightarrow> session_ok w \<Longrightarrow> nul_free (w_arg u)"
  by (rule session_okD(5) [OF keepsD(1)])

interpretation docwd: session_handler docwd
  by unfold_locales (auto simp: docwd_def intro!: keeps_intros keeps_rules)

lemma docdup_within:
  assumes "mem_ok os" and "session_ok w" shows "within keeps w (docdup os w)"
proof -
  have k: "keeps w (upd_command (\<lambda>c. c\<lparr>c_arg := ''..''\<rparr>) w)"
    by (rule keeps_upd_arg) simp_all
  show ?thesis
    unfolding docdup_def
    by (rule keeps.w_step [OF docwd.handler_keeps [OF assms(1) keepsD(1) [OF k assms(2)]] k])
qed

interpretation docdup: session_handler docdup
  by unfold_locales (rule docdup_within)

interpretation dorest: session_handler dorest
  by unfold_locales (auto simp: dorest_def Let_def case_prod_beta
    intro!: keeps_intros keeps_rules keeps.w_pure [where m = "trim_whitespace b p" for b p])

interpretation doretr: session_handler doretr
  by unfold_locales (auto simp: doretr_def retr_transfer_def Let_def intro!: keeps_intros keeps_rules)

interpretation dostor: session_handler dostor
  by unfold_locales (auto simp: dostor_def stor_transfer_def Let_def intro!: keeps_intros keeps_rules)

lemma bind_ports_quiet [frame]: "bind_ports os fd p n w = (r, w') \<Longrightarrow> quiet w w'"
proof (induction n arbitrary: p w)
  case (Suc n)
  obtain x w1 where c: "os_call (sys_bind os fd (p mod 65536)) w = (x, w1)" by force
  have q: "quiet w w1" by (rule os_call_quiet [OF c])
  show ?case
    using Suc c quiet_trans [OF q] by (cases x) (auto split: if_splits)
qed simp

lemma pasv_listen_quiet [frame]:
  assumes "pasv_listen os fd w = (r, w')" shows "quiet w w'"
proof -
  let ?w1 = "snd (os_call (sys_setsockopt os fd) w)"
  have "quiet ?w1 w'" using assms
    by (auto simp: pasv_listen_def Let_def split: prod.splits sum.splits if_splits
        dest!: bind_ports_quiet os_call_quiet intro: quiet_trans)
  then show ?thesis by (rule quiet_trans [OF quiet_snd_os_call])
qed

lemma dopasv_within:
  fixes w :: "'o world"
  shows "within keeps w (dopasv os w)"
proof -
  define u where "u = (if pasv_sock (w_conn w) \<noteq> -1
    then upd_conn (\<lambda>c. c\<lparr>pasv_sock := -1\<rparr>) (c_close os (pasv_sock (w_conn w)) w) else w)"
  have u: "keeps w u" by (auto simp: u_def intro!: keeps_rules)
  obtain r v where c: "os_newfd (sys_socket os) u = (r, v)" by force
  have v: "keeps w v" by (rule keeps_then_quiet [OF u os_newfd_quiet [OF c]])
  show ?thesis
  proof (cases r)
    case (Inl e)
    then show ?thesis using c v by (auto simp: dopasv_def Let_def intro!: keeps_intros keeps_rules simp flip: u_def)
  next
    case (Inr fd)
    let ?v = "upd_conn (\<lambda>c. c\<lparr>pasv_sock := fd\<rparr>) v"
    obtain p x where l: "pasv_listen os fd ?v = (p, x)" by force
    have "keeps w x" by (rule keeps_then_quiet [OF _ pasv_listen_quiet [OF l]]) (intro keeps_rules v)
    then show ?thesis using c l Inr
      by (auto simp: dopasv_def Let_def intro!: keeps_intros keeps_rules simp flip: u_def split: option.splits)
  qed
qed

interpretation dopasv: session_handler dopasv
  by unfold_locales (rule dopasv_within)

subsection \<open>Paths and directories\<close>

text \<open>The same path resolves to the same place whatever the path array held before.\<close>

lemma pool_realpath_unique:
  assumes w: "vfs_ok w" "vfs_ok w'" and c: "canonical cwd" and p: "nul_free p"
    and r: "pool_realpath cwd p w = Some (Inr (), v)"
  shows "\<exists>v'. pool_realpath cwd p w' = Some (Inr (), v') \<and> pool_virt_path v' = pool_virt_path v"
proof -
  let ?cs = "split_path cwd" and ?ds = "if is_absolute p then [] else split_path cwd"
  note cs = canonical_split [OF c]
  have spec: "\<exists>b. case resolve ?ds (split_path p) of
       Inl e \<Rightarrow> vfs_realpath vp cwd p = Some (b, Inl e)
     | Inr cs' \<Rightarrow> vfs_realpath vp cwd p = Some (b, Inr ()) \<and> cstr b = render cs'" if "length vp = FTP_MAX_PATH" for vp
    using vfs_realpath_resolve [OF that conjunct1 [OF cs] _ p, unfolded conjunct1 [OF conjunct2 [OF cs]]] cs
    by blast
  obtain root vp root' vp' where v: "w_vfs w = Some (root, vp)" "length vp = FTP_MAX_PATH"
    "w_vfs w' = Some (root', vp')" "length vp' = FTP_MAX_PATH" using w by (auto simp: vfs_ok_def)
  obtain cs' where cs': "resolve ?ds (split_path p) = Inr cs'"
    using spec [OF v(2)] r v(1) by (cases "resolve ?ds (split_path p)") (auto simp: pool_realpath_def)
  with spec [OF v(2)] spec [OF v(4)] r v(1,3) show ?thesis
    by (auto simp: pool_realpath_def pool_virt_path_def)
qed

lemma vfs_stat_at:
  assumes w: "vfs_ok w" and c: "canonical cwd" and p: "nul_free p" and s: "vfs_stat os cwd p w = Some (Inr st, w')"
  obtains v s where "pool_realpath cwd p w = Some (Inr (), v)" and "canonical (pool_virt_path v)"
    and "fst (sys_stat os (vfs_root w @ pool_virt_path v) s) = Inr st"
proof (rule pool_realpath_cases [OF w c p])
  fix v q assume v: "pool_realpath cwd p w = Some (Inr (), v)" "canonical q" "pool_virt_path v = q"
    "real_path v = vfs_root w @ q"
  obtain x u where l: "os_call (sys_lstat os (real_path v)) v = (x, u)" by force
  from s v l obtain tmp where x: "x = Inr tmp" by (cases x) (auto simp: vfs_stat_def)
  have "real_path u = real_path v" by (rule real_path_quiet [OF os_call_quiet [OF l]])
  moreover have "os_call (sys_stat os (real_path u)) u = (Inr st, w')"
    using s v l x by (auto simp: vfs_stat_def split: if_splits)
  then have "fst (sys_stat os (real_path u) (w_os u)) = Inr st"
    by (auto simp: os_call_def split: prod.splits)
  ultimately show thesis using that v by metis
qed (use s in \<open>simp add: vfs_stat_def\<close>)

lemma session_chdir_to:
  assumes ok: "session_ok w" and v: "vfs_ok w" and p: "nul_free p"
    and r: "pool_realpath (w_cwd w) p w = Some (Inr (), u)"
  shows "\<exists>w'. session_chdir p w = Some (0, w') \<and> w_cwd w' = pool_virt_path u \<and> keeps w w'"
proof -
  obtain b' w' where c: "vfs_chdir (virt_path (w_session w)) p w = Some ((0, b'), w')" "cstr b' = pool_virt_path u"
    using vfs_chdir_canonical [OF v session_okD(1,2) [OF ok] p] r by auto
  then have "session_chdir p w = Some (0, upd_session (\<lambda>s. s\<lparr>virt_path := b'\<rparr>) w')" by (simp add: session_chdir_def)
  moreover have "keeps w (upd_session (\<lambda>s. s\<lparr>virt_path := b'\<rparr>) w')"
    using withinD [OF session_chdir_within [OF keeps_refl ok p] calculation] .
  ultimately show ?thesis using c(2) by (simp add: upd_session_def)
qed

subsection \<open>Properties\<close>

text \<open>CWD goes only to directories: after the command the working directory is the old one, or it is
  the canonical path the argument resolves to, and \<open>stat\<close> has reported a directory at that path below the
  root directory.\<close>

lemma docwd_to_directory:
  assumes ok: "session_ok w" and v: "vfs_ok w" and d: "docwd os w = Some (r, w')"
  shows "w_cwd w' = w_cwd w \<or>
    (\<exists>u st s. pool_realpath (w_cwd w) (w_arg w) w = Some (Inr (), u) \<and> w_cwd w' = pool_virt_path u
       \<and> canonical (w_cwd w') \<and> fst (sys_stat os (vfs_root w @ w_cwd w') s) = Inr st \<and> S_ISDIR (st_mode st))"
proof -
  obtain x w1 where s: "vfs_stat os (w_cwd w) (w_arg w) w = Some (x, w1)"
    using d by (auto simp: docwd_def elim!: bind_SomeE)
  note q1 = vquietD [OF vfs_stat_vquiet [OF s]]
  show ?thesis
  proof (cases "\<exists>st. x = Inr st \<and> S_ISDIR (st_mode st)")
    case False
    have "w_session w' = w_session w1"
      using d s False by (cases x) (auto simp: docwd_def vfs_failed_def say_def elim!: bind_SomeE
        dest!: reply_quiet failed_vfs_reply_quiet quietD(1))
    with q1 show ?thesis by simp
  next
    case True
    then obtain st where x: "x = Inr st" "S_ISDIR (st_mode st)" by blast
    have nf: "nul_free (w_arg w)" using ok by simp
    obtain u s' where u: "pool_realpath (w_cwd w) (w_arg w) w = Some (Inr (), u)" "canonical (pool_virt_path u)"
      "fst (sys_stat os (vfs_root w @ pool_virt_path u) s') = Inr st"
      using vfs_stat_at [OF v session_okD(2) [OF ok] nf s [unfolded x]] .
    have ok1: "session_ok w1" by (rule keepsD(1) [OF vquiet_keeps [OF vfs_stat_vquiet [OF s]] ok])
    have v1: "vfs_ok w1" using q1(5) v .
    obtain u1 where u1: "pool_realpath (w_cwd w1) (w_arg w1) w1 = Some (Inr (), u1)" "pool_virt_path u1 = pool_virt_path u"
      using pool_realpath_unique [OF v v1 session_okD(2) [OF ok] nf u(1)] q1(1) by auto
    obtain w2 where w2: "session_chdir (w_arg w1) w1 = Some (0, w2)" "w_cwd w2 = pool_virt_path u"
      using session_chdir_to [OF ok1 v1 _ u1(1)] u1(2) nf q1(1) by auto
    obtain y z w3 where w3: "send_state os T_CHDIR w2 = Some (y, w3)" "say os ''250 OK'' w3 = Some (z, w')"
      using d s x w2(1) by (auto simp: docwd_def elim!: bind_SomeE)
    have "w_cwd w' = w_cwd w2"
      using steadyD(4) [OF send_state_steady [OF w3(1)]] w3(2)
      by (auto simp: say_def dest!: reply_quiet quietD(1))
    with u w2 x show ?thesis by auto
  qed
qed

text \<open>What CWD needs of the system: a directory, and no link, at the path the argument resolves to.\<close>

definition directory_at :: "'o os \<Rightarrow> string \<Rightarrow> bool" where
  "directory_at os path \<longleftrightarrow> (\<forall>s.
     (\<exists>st s'. sys_lstat os path s = (Inr st, s') \<and> \<not> S_ISLNK (st_mode st))
   \<and> (\<exists>st s'. sys_stat os path s = (Inr st, s') \<and> S_ISDIR (st_mode st)))"

lemma pool_realpath_resolves:
  assumes w: "vfs_ok w" and c: "canonical cwd" and p: "nul_free p"
    and r: "resolve (if is_absolute p then [] else split_path cwd) (split_path p) = Inr cs"
  obtains vp where "pool_realpath cwd p w = Some (Inr (), w\<lparr>w_vfs := Some (vfs_root w, vp)\<rparr>)"
    and "length vp = FTP_MAX_PATH" and "cstr vp = render cs"
proof -
  obtain root vp where v: "w_vfs w = Some (root, vp)" "length vp = FTP_MAX_PATH" using w by (auto simp: vfs_ok_def)
  then obtain b where "length b = FTP_MAX_PATH" "vfs_realpath vp cwd p = Some (b, Inr ())" "cstr b = render cs"
    using realpath_from_canonical [OF v(2) c p] r by auto
  with v show thesis by (intro that [of b]) (simp_all add: pool_realpath_def vfs_root_def)
qed

lemma vfs_stat_directory:
  assumes w: "vfs_ok w" and c: "canonical cwd" and p: "nul_free p"
    and r: "resolve (if is_absolute p then [] else split_path cwd) (split_path p) = Inr cs"
    and d: "directory_at os (vfs_root w @ render cs)"
  obtains st s vp where "vfs_stat os cwd p w = Some (Inr st, w\<lparr>w_vfs := Some (vfs_root w, vp), w_os := s\<rparr>)"
    and "S_ISDIR (st_mode st)" and "length vp = FTP_MAX_PATH"
proof -
  obtain vp where v: "pool_realpath cwd p w = Some (Inr (), w\<lparr>w_vfs := Some (vfs_root w, vp)\<rparr>)"
    "length vp = FTP_MAX_PATH" "cstr vp = render cs" using pool_realpath_resolves [OF w c p r] .
  obtain tmp s1 where l: "sys_lstat os (vfs_root w @ render cs) (w_os w) = (Inr tmp, s1)" "\<not> S_ISLNK (st_mode tmp)"
    using d unfolding directory_at_def by blast
  obtain st s2 where s: "sys_stat os (vfs_root w @ render cs) s1 = (Inr st, s2)" "S_ISDIR (st_mode st)"
    using d unfolding directory_at_def by blast
  show thesis
    by (rule that [of st s2 vp]) (use v l s in \<open>simp_all add: vfs_stat_def real_path_def os_call_def\<close>)
qed

text \<open>A message of a session in order is written to the pipe whole.\<close>

lemma send_state_sends:
  assumes "writes_ok os" and "state_pool_ok w" and "sendable t (w_session w)"
  obtains b msg where "send_state os t w
      = Some (FTP_SUCCESS, emit (master_pipe (w_conn w)) msg (w\<lparr>w_state_pool := Some b\<rparr>))"
    and "length b = FTP_MAX_PATH"
proof -
  obtain p where p: "w_state_pool w = Some p" "length p = FTP_MAX_PATH" using assms(2) by (auto simp: state_pool_ok_def)
  have "t \<in> {T_LOGIN, T_CHDIR, T_XFER_START, T_XFER, T_XFER_STOP}"
    using assms(3) by (auto simp: sendable_def split: if_splits)
  then have "\<exists>op. (find_state_op t :: 'a state_op option) = Some op" by (auto simp: find_state_op_def state_ops_def)
  then obtain op where op: "(find_state_op t :: 'a state_op option) = Some op" ..
  obtain p' where p': "op_send op (w_session w) p = Some (FTP_SUCCESS, p')" "length p' = FTP_MAX_PATH"
    "op_size op \<le> FTP_MAX_PATH" using op_send_shows [OF assms(3) p(2) op] by blast
  then show thesis using send_state_emits [OF assms(1) p op p'(1-3)] that by blast
qed

text \<open>C23. CWD to a directory succeeds: when the argument resolves, on component lists, to a place where
  the system has a directory, the session moves there, the client reads 250, and no descriptor stays open.\<close>

theorem docwd_enters:
  assumes os: "sends_ok os" "writes_ok os" and ok: "session_ok w" and l: "logged_in (w_login w)"
    and r: "resolve (if is_absolute (w_arg w) then [] else split_path (w_cwd w)) (split_path (w_arg w)) = Inr cs"
    and d: "directory_at os (vfs_root w @ render cs)" and s: "sock (w_conn w) \<noteq> master_pipe (w_conn w)"
  shows "\<exists>w'. docwd os w = Some (FTP_SUCCESS, w') \<and> w_cwd w' = render cs
    \<and> w_out w' (sock (w_conn w)) = w_out w (sock (w_conn w)) @ ''250 OK'' @ CRLF \<and> w_fds w' = w_fds w"
proof -
  note v = session_okD(8) [OF ok l]
  note nf = session_okD(5) [OF ok]
  obtain st s vp where st: "vfs_stat os (w_cwd w) (w_arg w) w
      = Some (Inr st, w\<lparr>w_vfs := Some (vfs_root w, vp), w_os := s\<rparr>)" "S_ISDIR (st_mode st)"
    "length vp = FTP_MAX_PATH" using vfs_stat_directory [OF v session_okD(2) [OF ok] nf r d] .
  let ?u = "w\<lparr>w_vfs := Some (vfs_root w, vp), w_os := s\<rparr>"
  have u: "session_ok ?u" "vfs_ok ?u" "vfs_root ?u = vfs_root w"
    using vquietD(5) [OF vfs_stat_vquiet [OF st(1)] v] keepsD(1) [OF vquiet_keeps [OF vfs_stat_vquiet [OF st(1)]] ok]
    by (simp_all add: vfs_root_def)
  have rr: "resolve (if is_absolute (w_arg w) then [] else split_path (w_cwd ?u)) (split_path (w_arg w)) = Inr cs"
    using r by (cases "is_absolute (w_arg w)") simp_all
  obtain vp' where p: "pool_realpath (w_cwd ?u) (w_arg w) ?u = Some (Inr (), ?u\<lparr>w_vfs := Some (vfs_root ?u, vp')\<rparr>)"
    "cstr vp' = render cs" using pool_realpath_resolves [OF u(2) session_okD(2) [OF u(1)] nf rr] by blast
  obtain b' x where c: "vfs_chdir (virt_path (w_session ?u)) (w_arg w) ?u = Some ((0, b'), x)" "cstr b' = render cs"
    "canonical (render cs)"
    using vfs_chdir_canonical [OF u(2) session_okD(1,2) [OF u(1)] nf] p by (auto simp: pool_virt_path_def)
  have x: "x = ?u\<lparr>w_vfs := Some (vfs_root ?u, vp')\<rparr>"
    using c(1) p(1) by (auto simp: vfs_chdir_def elim!: bind_SomeE)
  let ?v = "upd_session (\<lambda>s. s\<lparr>virt_path := b'\<rparr>) x"
  have ch: "session_chdir (w_arg w) ?u = Some (0, ?v)" using c(1) by (simp add: session_chdir_def)
  have "state_pool_ok ?v" using session_okD(9) [OF ok l] by (simp add: x upd_session_def state_pool_ok_def)
  moreover have "sendable T_CHDIR (w_session ?v)"
    using c(2,3) by (auto simp: upd_session_def sendable_def state_types canonical_def render_def)
  ultimately obtain b msg where "send_state os T_CHDIR ?v
      = Some (FTP_SUCCESS, emit (master_pipe (w_conn ?v)) msg (?v\<lparr>w_state_pool := Some b\<rparr>))"
    using send_state_sends [OF os(2), of ?v T_CHDIR] by blast
  with st(1,2) ch have "docwd os w
      = (do { (_, w) \<leftarrow> say os ''250 OK'' (emit (master_pipe (w_conn ?v)) msg (?v\<lparr>w_state_pool := Some b\<rparr>)); Some (FTP_SUCCESS, w) })"
    by (simp add: docwd_def)
  then show ?thesis using s c(2) by (simp add: say_def reply_ok [OF os(1)] x upd_session_def emit_other)
qed

lemma idle_os_writes' [simp]: "writes_ok (idle_os\<lparr>os_fs := fs\<rparr>)" "sends_ok (idle_os\<lparr>os_fs := fs\<rparr>)"
  by (simp_all add: writes_ok_def sends_ok_def idle_os_def idle_io_def idle_net_def)

definition pub_os :: "unit os" where
  "pub_os = idle_os\<lparr>os_fs := idle_fs\<lparr>
     fs_lstat := \<lambda>p s. (Inr \<lparr>st_mode = 0x4000, st_size = 0, st_mtime = 0, st_nlink = 1, st_uid = 0, st_gid = 0\<rparr>, s),
     fs_stat := \<lambda>p s. (Inr \<lparr>st_mode = 0x4000, st_size = 0, st_mtime = 0, st_nlink = 1, st_uid = 0, st_gid = 0\<rparr>, s)\<rparr>\<rparr>"

lemma pub_os_ok [simp]: "writes_ok pub_os" "sends_ok pub_os" "directory_at pub_os path"
  by (simp_all add: pub_os_def directory_at_def S_ISLNK_def S_ISDIR_def S_IFMT_def)

theorem docwd_enters_witness:
  "\<exists>w'. docwd pub_os (arg_world () ''./pub'') = Some (FTP_SUCCESS, w') \<and> w_cwd w' = ''/pub''
     \<and> w_out w' 4 = ''250 OK'' @ CRLF \<and> w_fds w' = {}"
proof -
  have "split_path ''./pub'' = [''.'', ''pub'']" "split_path ''/'' = []"
    by (simp_all add: split_path.simps first_comp_def rest_comp_def)
  then show ?thesis
    using docwd_enters [OF pub_os_ok(2,1) arg_world_ok, of "''./pub''" "()" "[''pub'']"]
    by (simp add: nul_free_def idle_session_def is_absolute_def render_def FTP_MAX_PATH_def)
qed

text \<open>
  A host on which the ports \<open>busy\<close> are taken. \<open>bound\<close> is what the system holds of the socket \<open>fd\<close>: the
  port it is bound to, and whether it listens. \<open>bind\<close> fails for the busy ports and else binds a socket
  that does not listen, only \<open>listen\<close> makes it listen, and \<open>getsockname\<close> reports the port.
\<close>

definition port_host :: "'o os \<Rightarrow> int \<Rightarrow> int set \<Rightarrow> ('o \<Rightarrow> int \<times> bool) \<Rightarrow> bool" where
  "port_host os fd busy bound \<longleftrightarrow>
     (\<forall>p s. fst (sys_bind os fd p s) = (if p \<in> busy then Inl EADDRINUSE else Inr ())
        \<and> (p \<notin> busy \<longrightarrow> bound (snd (sys_bind os fd p s)) = (p, False)))
   \<and> (\<forall>s. \<exists>s'. sys_listen os fd s = (Inr (), s') \<and> bound s' = (fst (bound s), True))
   \<and> (\<forall>s. \<exists>a s'. sys_getsockname os fd s = (Inr (a, nat (fst (bound s))), s') \<and> bound s' = bound s)"

lemma bind_ports_first:
  assumes h: "port_host os fd busy bound" and r: "0 \<le> p" "p + int n \<le> 65536"
    and f: "find (\<lambda>q. q \<notin> busy) [p..p + int n - 1] = Some q"
  shows "\<exists>w'. bind_ports os fd p n w = (Inr q, w') \<and> bound (w_os w') = (q, False) \<and> w_session w' = w_session w
    \<and> w_fds w' = w_fds w \<and> w_out w' = w_out w \<and> w_config w' = w_config w \<and> w_reply_pool w' = w_reply_pool w"
  using r f
proof (induction n arbitrary: p w)
  case (Suc n)
  obtain s where b: "sys_bind os fd p (w_os w) = (if p \<in> busy then Inl EADDRINUSE else Inr (), s)"
    "p \<notin> busy \<longrightarrow> bound s = (p, False)"
  proof -
    have "fst (sys_bind os fd p (w_os w)) = (if p \<in> busy then Inl EADDRINUSE else Inr ())"
      "p \<notin> busy \<longrightarrow> bound (snd (sys_bind os fd p (w_os w))) = (p, False)"
      using h by (simp_all add: port_host_def)
    then show thesis using that [of "snd (sys_bind os fd p (w_os w))"] by (metis prod.collapse)
  qed
  have m: "p mod 65536 = p" using Suc.prems by simp
  have l: "[p..p + int (Suc n) - 1] = p # [p + 1..(p + 1) + int n - 1]" using upto_rec1 [of p "p + int n"] by simp
  show ?case
  proof (cases "p \<in> busy")
    case True
    let ?w = "w\<lparr>w_os := s, w_errno := EADDRINUSE\<rparr>"
    have step: "bind_ports os fd p (Suc n) w = bind_ports os fd (p + 1) n ?w"
      using b(1) True m by (simp add: os_call_def)
    have "find (\<lambda>q. q \<notin> busy) [p + 1..(p + 1) + int n - 1] = Some q" using Suc.prems(3) True unfolding l by simp
    moreover have "0 \<le> p + 1" "p + 1 + int n \<le> 65536" using Suc.prems(1,2) by simp_all
    ultimately obtain w' where w': "bind_ports os fd (p + 1) n ?w = (Inr q, w') \<and> bound (w_os w') = (q, False)
      \<and> w_session w' = w_session ?w \<and> w_fds w' = w_fds ?w \<and> w_out w' = w_out ?w \<and> w_config w' = w_config ?w
      \<and> w_reply_pool w' = w_reply_pool ?w" using Suc.IH [of "p + 1" ?w] by blast
    then show ?thesis unfolding step by (intro exI [of _ w']) simp
  next
    case False
    then have "q = p" using Suc.prems(3) unfolding l by simp
    with b False m show ?thesis by (simp add: os_call_def)
  qed
qed simp

lemma pasv_listen_first:
  assumes h: "port_host os fd busy bound" and cfg: "config_ok (w_config w)"
    and f: "find (\<lambda>q. q \<notin> busy) [cfg_pasv_port_start (w_config w)..cfg_pasv_port_end (w_config w)] = Some q"
  shows "\<exists>w'. pasv_listen os fd w = (Some (char_of (nat q div 256 mod 256), char_of (nat q mod 256)), w')
    \<and> bound (w_os w') = (q, True) \<and> w_session w' = w_session w \<and> w_fds w' = w_fds w \<and> w_out w' = w_out w \<and> w_reply_pool w' = w_reply_pool w"
proof -
  let ?s = "cfg_pasv_port_start (w_config w)" and ?e = "cfg_pasv_port_end (w_config w)"
  define u where "u = snd (os_call (sys_setsockopt os fd) w)"
  have u: "w_session u = w_session w" "w_fds u = w_fds w" "w_out u = w_out w" "w_config u = w_config w"
    "w_reply_pool u = w_reply_pool w"
    by (auto simp: u_def os_call_def case_prod_beta Let_def split: sum.splits)
  have rng: "0 \<le> ?s" "?s \<le> ?e" "?e \<le> 65535" using cfg by (simp_all add: config_ok_def)
  then have n: "int (nat (?e + 1 - ?s)) = ?e + 1 - ?s" by simp
  obtain v where v: "bind_ports os fd ?s (nat (?e + 1 - ?s)) u = (Inr q, v)" "bound (w_os v) = (q, False)"
    "w_session v = w_session w" "w_fds v = w_fds w" "w_out v = w_out w" "w_reply_pool v = w_reply_pool w"
    using bind_ports_first [OF h rng(1), of "nat (?e + 1 - ?s)" q u] n rng f u by auto
  have q: "q \<noteq> ?e + 1" using f by (auto simp: find_Some_iff dest: nth_mem)
  obtain s1 where l: "sys_listen os fd (w_os v) = (Inr (), s1)" "bound s1 = (q, True)"
    using h v(2) unfolding port_host_def by (metis fst_conv)
  obtain a s2 where g: "sys_getsockname os fd s1 = (Inr (a, nat q), s2)" "bound s2 = (q, True)"
    using h l(2) unfolding port_host_def by (metis fst_conv)
  have lc: "os_call (sys_listen os fd) v = (Inr (), v\<lparr>w_os := s1\<rparr>)"
    and gc: "os_call (sys_getsockname os fd) (v\<lparr>w_os := s1\<rparr>) = (Inr (a, nat q), v\<lparr>w_os := s2\<rparr>)"
    using l(1) g(1) by (simp_all add: os_call_def)
  have "pasv_listen os fd w = (Some (char_of (nat q div 256 mod 256), char_of (nat q mod 256)), v\<lparr>w_os := s2\<rparr>)"
    using v(1) q by (simp add: pasv_listen_def Let_def lc gc flip: u_def)
  with v g(2) show ?thesis by simp
qed

lemma nul_free_concat_dec: "nul_free (concat (map (\<lambda>c. dec (f c) @ '','') xs))"
  by (induction xs) auto

lemma length_dec_byte: "length (dec (byte_of c)) \<le> 3"
proof (rule length_dec_le)
  have "byte_of c < 256" by (simp add: byte_of_def)
  then show "byte_of c < 10 ^ 3" by simp
qed simp

lemma length_concat_dec: "length (concat (map (\<lambda>c. dec (byte_of c) @ '','') xs)) \<le> 4 * length xs"
proof (induction xs)
  case (Cons x xs)
  with length_dec_byte [of x] show ?case by simp
qed simp

lemma pasv_reply_text:
  assumes "ip = [a, b, c, d]" and "port = (char_of (n div 256 mod 256), char_of (n mod 256))" and "n < 65536"
  shows "pasv_reply ip port = ''227 Entering Passive Mode ('' @ dec (byte_of a) @ '','' @ dec (byte_of b) @ '','' @
      dec (byte_of c) @ '','' @ dec (byte_of d) @ '','' @ dec (n div 256) @ '','' @ dec (n mod 256) @ '')''"
    and "nul_free (pasv_reply ip port)" and "length (pasv_reply ip port) < 100"
proof -
  have n: "n div 256 mod 256 = n div 256" using assms(3) by simp
  have p: "dec (byte_of (fst port)) = dec (n div 256)" "dec (byte_of (snd port)) = dec (n mod 256)"
    using n by (simp_all add: assms(2) byte_of_def)
  show "pasv_reply ip port = ''227 Entering Passive Mode ('' @ dec (byte_of a) @ '','' @ dec (byte_of b) @ '','' @
      dec (byte_of c) @ '','' @ dec (byte_of d) @ '','' @ dec (n div 256) @ '','' @ dec (n mod 256) @ '')''"
    unfolding pasv_reply_def p by (simp add: assms(1))
  show "nul_free (pasv_reply ip port)" by (simp add: pasv_reply_def nul_free_concat_dec)
  show "length (pasv_reply ip port) < 100"
    using length_concat_dec [of "take 4 ip"] length_dec_byte [of "fst port"] length_dec_byte [of "snd port"]
    by (simp add: pasv_reply_def assms(1))
qed

text \<open>C24. PASV announces what it listens on: afterwards the new socket is bound to the first free port of the
  configured range and listens, the reply carries the host address and this port as \<open>p1 * 256 + p2\<close>, and
  the new socket replaces the old one, which is closed.\<close>

theorem dopasv_announces:
  assumes os: "sends_ok os" and h: "port_host os fd busy bound" and sock: "\<And>s. sys_socket os s = (Inr fd, s)"
    and cfg: "config_ok (w_config w)" and pool: "reply_pool_ok w"
    and free: "find (\<lambda>q. q \<notin> busy) [cfg_pasv_port_start (w_config w)..cfg_pasv_port_end (w_config w)] = Some q"
    and ip: "host_addr (w_conn w) = [a, b, c, d]" and neg: "-1 \<notin> w_fds w"
  shows "\<exists>w'. dopasv os w = Some (FTP_SUCCESS, w')
    \<and> w_out w' (sock (w_conn w)) = w_out w (sock (w_conn w)) @ ''227 Entering Passive Mode ('' @
        dec (byte_of a) @ '','' @ dec (byte_of b) @ '','' @ dec (byte_of c) @ '','' @ dec (byte_of d) @ '','' @
        dec (nat q div 256) @ '','' @ dec (nat q mod 256) @ '')'' @ CRLF
    \<and> bound (w_os w') = (q, True)
    \<and> pasv_sock (w_conn w') = fd \<and> w_fds w' = insert fd (w_fds w - {pasv_sock (w_conn w)})"
proof -
  let ?c = "sock (w_conn w)"
  define u where "u = (if pasv_sock (w_conn w) \<noteq> -1
    then upd_conn (\<lambda>c. c\<lparr>pasv_sock := -1\<rparr>) (c_close os (pasv_sock (w_conn w)) w) else w)"
  have cl: "w_out (c_close os x y) = w_out y" "w_fds (c_close os x y) = w_fds y - {x}"
    "w_config (c_close os x y) = w_config y" "w_reply_pool (c_close os x y) = w_reply_pool y"
    "w_session (c_close os x y) = w_session y" for x and y :: "'a world"
    by (auto simp: c_close_def os_call_def Let_def split: prod.splits sum.splits)
  have u: "w_out u = w_out w" "w_fds u = w_fds w - {pasv_sock (w_conn w)}" "w_config u = w_config w"
    "w_reply_pool u = w_reply_pool w" "sock (w_conn u) = ?c"
    using neg by (auto simp: u_def upd_conn_def upd_session_def cl)
  define v where "v = upd_conn (\<lambda>c. c\<lparr>pasv_sock := fd\<rparr>) (u\<lparr>w_fds := insert fd (w_fds u)\<rparr>)"
  have n: "os_newfd (sys_socket os) u = (Inr fd, u\<lparr>w_fds := insert fd (w_fds u)\<rparr>)"
    using sock by (simp add: os_newfd_def os_call_def)
  have v: "w_out v = w_out w" "w_fds v = insert fd (w_fds w - {pasv_sock (w_conn w)})" "w_config v = w_config w"
    "w_reply_pool v = w_reply_pool w" "sock (w_conn v) = ?c" "pasv_sock (w_conn v) = fd"
    using u by (simp_all add: v_def upd_conn_def upd_session_def)
  define port where "port = (char_of (nat q div 256 mod 256) :: char, char_of (nat q mod 256) :: char)"
  obtain x where x: "pasv_listen os fd v = (Some port, x)" "w_session x = w_session v" "w_fds x = w_fds v"
    "w_out x = w_out v" "w_reply_pool x = w_reply_pool v" "bound (w_os x) = (q, True)"
    using pasv_listen_first [OF h, of v q] cfg free v(3) by (auto simp: port_def)
  have "q \<in> set [cfg_pasv_port_start (w_config w)..cfg_pasv_port_end (w_config w)]"
    using free by (auto simp: find_Some_iff)
  then have "nat q < 65536" using cfg by (auto simp: config_ok_def)
  note t = pasv_reply_text [OF ip port_def this]
  have xp: "reply_pool_ok x" using pool x(5) v(4) by (simp add: reply_pool_ok_def)
  have nf: "nul_free (pasv_reply (host_addr (w_conn w)) port @ CRLF)" using t(2) by simp
  have len: "length (pasv_reply (host_addr (w_conn w)) port @ CRLF) < RESPONSE_BUFFER_SIZE"
    using t(3) by (simp add: RESPONSE_BUFFER_SIZE_def)
  obtain bf where y: "sayf os (pasv_reply (host_addr (w_conn w)) port) x
      = Some (int (length (pasv_reply (host_addr (w_conn w)) port @ CRLF)),
          emit ?c (pasv_reply (host_addr (w_conn w)) port @ CRLF) (x\<lparr>w_reply_pool := Some bf\<rparr>))"
    using reply_format_short [OF os xp nf len, of "w_conn x"] x(2) v(5) by (auto simp: sayf_def)
  have "host_addr (w_conn u) = host_addr (w_conn w)" by (simp add: u_def upd_conn_def upd_session_def cl)
  then have "dopasv os w = Some (FTP_SUCCESS, emit ?c (pasv_reply (host_addr (w_conn w)) port @ CRLF) (x\<lparr>w_reply_pool := Some bf\<rparr>))"
    using n x(1) y by (simp add: dopasv_def Let_def flip: u_def v_def)
  then show ?thesis using x(2-4,6) v t(1) by simp
qed

definition busy_os :: "(int \<times> bool) os" where
  "busy_os = idle_os\<lparr>os_net := idle_net\<lparr>
     net_bind := \<lambda>fd p s. if p = 2000 then (Inl EADDRINUSE, s) else (Inr (), (p, False)),
     net_listen := \<lambda>fd s. (Inr (), (fst s, True)),
     net_getsockname := \<lambda>fd s. (Inr ([], nat (fst s)), s)\<rparr>\<rparr>"

definition pasv_world :: "(int \<times> bool) world" where
  "pasv_world = upd_conn (\<lambda>c. c\<lparr>host_addr := [CHR 0x7F, CHR 0x00, CHR 0x00, CHR 0x01], pasv_sock := 3\<rparr>)
     ((idle_world_at (0, False))\<lparr>w_config := load_defaults zero_config\<lparr>cfg_pasv_port_start := 2000, cfg_pasv_port_end := 2100,
       cfg_anon_root_dir := Some ''/srv''\<rparr>, w_fds := {3}\<rparr>)"

theorem dopasv_announces_witness:
  "\<exists>w'. dopasv busy_os pasv_world = Some (FTP_SUCCESS, w')
     \<and> w_out w' 4 = ''227 Entering Passive Mode (127,0,0,1,7,209)'' @ CRLF
     \<and> w_os w' = (2001, True) \<and> pasv_sock (w_conn w') = 8 \<and> w_fds w' = {8}"
proof -
  have os: "sends_ok busy_os" "port_host busy_os 8 {2000} (\<lambda>s. s)" "sys_socket busy_os s = (Inr 8, s)" for s
    by (simp_all add: sends_ok_def port_host_def busy_os_def idle_os_def idle_net_def)
  have f: "find (\<lambda>q. q \<notin> {2000}) [2000..2100] = Some (2001::int)" by (simp add: upto_rec1)
  have "config_ok (w_config pasv_world)"
    by (simp add: pasv_world_def config_ok_def load_defaults_def zero_config_def upd_conn_def upd_session_def)
  moreover have "w_config pasv_world = load_defaults zero_config\<lparr>cfg_pasv_port_start := 2000, cfg_pasv_port_end := 2100,
       cfg_anon_root_dir := Some ''/srv''\<rparr>"
    "host_addr (w_conn pasv_world) = [CHR 0x7F, CHR 0x00, CHR 0x00, CHR 0x01]" "reply_pool_ok pasv_world"
    "sock (w_conn pasv_world) = 4" "pasv_sock (w_conn pasv_world) = 3" "w_fds pasv_world = {3}" "w_out pasv_world = (\<lambda>_. [])"
    by (simp_all add: pasv_world_def upd_conn_def upd_session_def reply_pool_ok_def idle_world_at_def idle_session_def)
  moreover have "dec 127 = ''127''" "dec 0 = ''0''" "dec 1 = ''1''" "dec 7 = ''7''" "dec 209 = ''209''"
    by (simp_all add: dec.simps digit_char_def)
  ultimately show ?thesis
    using dopasv_announces [OF os, of pasv_world 2001 "CHR 0x7F" "CHR 0x00" "CHR 0x00" "CHR 0x01"] f
    by (simp add: byte_of_def)
qed

end
