(* ===== verification/Ftp_Ls.thy ===== *)
theory Ftp_Ls
  imports Ftp_Core
begin

text \<open>
  \<open>ls.c\<close>: the LIST command. Options are read from the front of the argument, a file is listed as one
  line, a directory entry by entry for as long as \<open>readdir\<close> delivers, which may be for ever: not
  returning is \<open>None\<close>.
\<close>

definition STAT_BUFFER_SIZE :: nat where "STAT_BUFFER_SIZE = 128 + FTP_MAX_NAME"

subsection \<open>Options\<close>

text \<open>The groups \<open>-abc\<close> at the front: whether one of them has an \<open>a\<close>, and the rest of the argument.\<close>

function list_options :: "string \<Rightarrow> bool \<Rightarrow> bool \<times> string" where
  "list_options [] opt_a = (opt_a, [])"
| "list_options (c # arg) opt_a =
     (if c \<noteq> CHR ''-'' then (opt_a, c # arg)
      else list_options (dropWhile isblank (dropWhile (\<lambda>c. \<not> isblank c) arg))
             (opt_a \<or> CHR ''a'' \<in> set (takeWhile (\<lambda>c. \<not> isblank c) arg)))"
  by pat_completeness auto
termination
  by (relation "measure (\<lambda>(s, _). length s)")
     (auto simp: less_Suc_eq_le intro: order_trans [OF length_dropWhile_le] length_dropWhile_le)

text \<open>The option, the trimmed rest, and the argument with the terminator that trimming writes.\<close>

definition parse_list_options :: "string \<Rightarrow> (bool \<times> string \<times> string) option" where
  "parse_list_options arg = (case list_options (dropWhile isblank arg) False of (opt_a, rest) \<Rightarrow> do {
     (p, b) \<leftarrow> trim_whitespace (arg @ [NUL]) (length arg - length rest);
     Some (opt_a, cstr (drop p b), cstr b) })"

subsection \<open>One line\<close>

definition months :: "string list" where
  "months = [''Jan'', ''Feb'', ''Mar'', ''Apr'', ''May'', ''Jun'', ''Jul'', ''Aug'', ''Sep'', ''Oct'',
     ''Nov'', ''Dec'']"

definition list_date :: "tm \<Rightarrow> string option" where
  "list_date t = (if 0 \<le> tm_mon t \<and> tm_mon t < 12
     then Some (take 12 (months ! nat (tm_mon t) @ [SPC] @ fmt_d (tm_mday t) @ [SPC] @
       fmt_0d 2 (tm_hour t) @ '':'' @ fmt_0d 2 (tm_min t)))
     else None)"

definition list_line :: "stat \<Rightarrow> string \<Rightarrow> string \<Rightarrow> string" where
  "list_line st date base = [get_modechar (st_mode st)] @ ''rwxrwxrwx '' @ dec (st_nlink st) @ [SPC] @
     dec (st_uid st) @ [SPC] @ dec (st_gid st) @ [SPC] @ fmt_d (st_size st) @ [SPC] @ date @ [SPC] @
     base @ CRLF"

text \<open>
  \<open>snprintf\<close> returns the length of the whole text, and that many bytes of the buffer are sent: past the
  end of the buffer that is undefined.
\<close>

definition send_filestat ::
  "'o os \<Rightarrow> string \<Rightarrow> string \<Rightarrow> int \<Rightarrow> 'o world \<Rightarrow> (int \<times> 'o world) option" where
  "send_filestat os cwd vpath fd w = do {
     (r, w) \<leftarrow> vfs_stat os cwd vpath w;
     (case r of
        Inl _ \<Rightarrow> Some (FTP_FAIL, w)
      | Inr st \<Rightarrow> do {
          t \<leftarrow> convert_time (st_mtime st);
          date \<leftarrow> list_date t;
          let text = list_line st date (find_basename vpath);
          let len = length text;
          if STAT_BUFFER_SIZE < len then None
          else do {
            (n, w) \<leftarrow> sendall os fd (take len (take (STAT_BUFFER_SIZE - 1) text @ [NUL])) w;
            Some (if n \<noteq> -1 then FTP_SUCCESS
              else if w_errno w = EPIPE \<or> w_errno w = ECONNRESET then FTP_ABOR else FTP_ERROR, w) } }) }"

definition list_file :: "'o os \<Rightarrow> string \<Rightarrow> 'o world \<Rightarrow> (int \<times> 'o world) option" where
  "list_file os filepath w = send_filestat os (w_cwd w) filepath (data_sock (w_conn w)) w"

subsection \<open>A directory\<close>

definition hidden :: "string \<Rightarrow> bool" where
  "hidden name \<longleftrightarrow> (case name of [] \<Rightarrow> False | c # _ \<Rightarrow> c = CHR ''.'')"

partial_function (option) read_entries ::
  "'o os \<Rightarrow> int \<Rightarrow> bool \<Rightarrow> 'o world \<Rightarrow> (unit \<times> 'o world) option" where
  "read_entries os drv opt_a w = (case os_query (sys_readdir os drv) w of
       (None, w) \<Rightarrow> Some ((), w)
     | (Some d_name, w) \<Rightarrow> let name = cstr d_name in
         if hidden name \<and> \<not> opt_a then read_entries os drv opt_a w
         else (case send_filestat os (w_cwd w) name (data_sock (w_conn w)) w of
             None \<Rightarrow> None
           | Some (ret, w) \<Rightarrow>
               if ret \<noteq> FTP_SUCCESS \<and> ret \<noteq> FTP_FAIL then Some ((), w)
               else read_entries os drv opt_a w))"

declare read_entries.simps [code]

text \<open>
  The session's directory is changed for the listing and copied back from \<open>temp_path_buffer\<close>, unless the
  directory cannot be opened. The result of the last line sent is not looked at.
\<close>

definition list_directory :: "'o os \<Rightarrow> string \<Rightarrow> bool \<Rightarrow> 'o world \<Rightarrow> (int \<times> 'o world) option" where
  "list_directory os dirname opt_a w = do {
     (_, temp_path_buffer) \<leftarrow> strlcpy (replicate FTP_MAX_PATH NUL) (w_cwd w) FTP_MAX_PATH;
     (_, w) \<leftarrow> session_chdir dirname w;
     (r, w) \<leftarrow> vfs_opendir os (w_cwd w) ''.'' w;
     (case r of
        Inl _ \<Rightarrow> do { (_, w) \<leftarrow> vfs_failed os w; Some (FTP_ERROR, w) }
      | Inr drv \<Rightarrow> do {
          (_, w) \<leftarrow> read_entries os drv opt_a w;
          let w = vfs_closedir os drv w;
          (_, b) \<leftarrow> strlcpy (virt_path (w_session w)) (cstr temp_path_buffer) FTP_MAX_PATH;
          Some (FTP_SUCCESS, upd_session (\<lambda>s. s\<lparr>virt_path := b\<rparr>) w) }) }"

subsection \<open>The command\<close>

definition list_result :: "int \<Rightarrow> string" where
  "list_result ret = (if ret = FTP_SUCCESS then ''226 Listing sent OK''
     else if ret = FTP_ABOR then ''226 Listing aborted''
     else if ret = FTP_FAIL then ''550 Listing failed''
     else ''450 Error during write to data connection'')"

definition dolist :: "'o handler" where
  "dolist os w = do {
     (opt_a, argument, arg) \<leftarrow> parse_list_options (w_arg w);
     let w = upd_command (\<lambda>c. c\<lparr>c_arg := arg\<rparr>) w;
     let argument = (if argument = [] then ''.'' else argument);
     (r, w) \<leftarrow> vfs_stat os (w_cwd w) argument w;
     (case r of
        Inl _ \<Rightarrow> do { (_, w) \<leftarrow> vfs_failed os w; Some (FTP_SUCCESS, w) }
      | Inr statarg \<Rightarrow> do {
          (data, w) \<leftarrow> accept_data_conn os (w_conn w) w;
          let w = upd_conn (\<lambda>c. c\<lparr>data_sock := data\<rparr>) w;
          if data = -1 then Some (FTP_SUCCESS, w)
          else if data = -2 then Some (FTP_QUIT, w)
          else do {
            (_, w) \<leftarrow> say os ''125 Data connection ok, transferring listing'' w;
            (ret, w) \<leftarrow> (if S_ISDIR (st_mode statarg) then list_directory os argument opt_a w
                        else list_file os argument w);
            (_, w) \<leftarrow> say os (list_result ret) w;
            Some (FTP_SUCCESS, c_close os (data_sock (w_conn w)) w) } }) }"

subsection \<open>Frame\<close>

lemma send_filestat_vquiet [vframe]:
  assumes "send_filestat os cwd p d w = Some (r, w')" shows "vquiet w w'"
proof -
  obtain x u where s: "vfs_stat os cwd p w = Some (x, u)"
    using assms by (auto simp: send_filestat_def elim!: bind_SomeE)
  have "quiet u w'" using assms s
    by (auto simp: send_filestat_def Let_def split: sum.splits if_splits elim!: bind_SomeE dest!: sendall_quiet)
  with vfs_stat_vquiet [OF s] quiet_vquiet vquiet_trans show ?thesis by blast
qed

lemma read_entries_vquiet [vframe]:
  assumes "read_entries os drv a w = Some (r, w')" shows "vquiet w w'"
proof -
  have "vquiet w (snd (r, w'))"
  proof (rule read_entries.raw_induct [where P = "\<lambda>os drv a w x. vquiet w (snd x)", OF _ assms])
    fix f and os :: "'a os" and drv a and w :: "'a world" and x
    assume IH: "\<And>os drv a w x. f os drv a w = Some x \<Longrightarrow> vquiet w (snd x)"
      and eq: "(case os_query (sys_readdir os drv) w of (None, w) \<Rightarrow> Some ((), w)
        | (Some d_name, w) \<Rightarrow> let name = cstr d_name in
           if hidden name \<and> \<not> a then f os drv a w
           else (case send_filestat os (w_cwd w) name (data_sock (w_conn w)) w of
               None \<Rightarrow> None
             | Some (ret, w) \<Rightarrow> if ret \<noteq> FTP_SUCCESS \<and> ret \<noteq> FTP_FAIL then Some ((), w)
                 else f os drv a w)) = Some x"
    obtain e w1 where c: "os_query (sys_readdir os drv) w = (e, w1)" by force
    have q: "vquiet w w1" by (rule quiet_vquiet [OF os_query_quiet [OF c]])
    show "vquiet w (snd x)"
    proof (cases e)
      case (Some d_name)
      let ?name = "cstr d_name"
      show ?thesis
      proof (cases "hidden ?name \<and> \<not> a")
        case True
        with eq c Some have "f os drv a w1 = Some x" by (simp add: Let_def)
        with IH q vquiet_trans show ?thesis by blast
      next
        case False
        with eq c Some obtain ret w2 where s: "send_filestat os (w_cwd w1) ?name (data_sock (w_conn w1)) w1 = Some (ret, w2)"
          "(if ret \<noteq> FTP_SUCCESS \<and> ret \<noteq> FTP_FAIL then Some ((), w2) else f os drv a w2) = Some x"
          by (auto simp: Let_def split: option.splits)
        have "vquiet w w2" by (rule vquiet_trans [OF q send_filestat_vquiet [OF s(1)]])
        with s(2) vquiet_trans [OF _ IH [of os drv a w2 x]] show ?thesis
          by (cases "ret \<noteq> FTP_SUCCESS \<and> ret \<noteq> FTP_FAIL") auto
      qed
    qed (use eq c q in auto)
  qed
  then show ?thesis by simp
qed

lemma keeps_ls_prims [keeps_rules]:
  assumes "keeps w u"
  shows "within keeps w (read_entries os drv a u)" and "within keeps w (list_file os p u)"
  by (rule keeps_vquiet_prim [OF read_entries_vquiet assms], assumption)
     (rule keeps_vquiet_prim [OF _ assms], simp add: list_file_def send_filestat_vquiet)

text \<open>Copying a canonical path into a directory array.\<close>

lemma strlcpy_cwd:
  assumes "canonical p" and "length p < FTP_MAX_PATH" and "length b = FTP_MAX_PATH"
  obtains d where "strlcpy b p FTP_MAX_PATH = Some (length p, d)" and "length d = FTP_MAX_PATH" and "cstr d = p"
proof -
  have "p \<noteq> []" using canonical_absolute [OF assms(1)] by (auto simp: is_absolute_def)
  then show ?thesis
    using strlcpy_fits [of p FTP_MAX_PATH b] assms canonical_nul_free that by (metis order_refl)
qed

lemma session_cwd:
  assumes "session_ok w" shows "canonical (w_cwd w)" and "length (w_cwd w) < FTP_MAX_PATH"
  using session_okD(2) [OF assms] canonical_split by auto

lemma list_directory_within [keeps_rules]:
  assumes k: "keeps w u" and ok: "session_ok w" and p: "nul_free p"
  shows "within keeps w (list_directory os p a u)"
proof -
  have ok': "session_ok u" by (rule keepsD(1) [OF k ok])
  obtain d where d: "strlcpy (replicate FTP_MAX_PATH NUL) (w_cwd u) FTP_MAX_PATH = Some (length (w_cwd u), d)"
    "length d = FTP_MAX_PATH" "cstr d = w_cwd u"
    using strlcpy_cwd [OF session_cwd [OF ok'], of "replicate FTP_MAX_PATH NUL"] by auto
  have restore: "within keeps w (do { (_, b) \<leftarrow> strlcpy (virt_path (w_session v)) (cstr d) FTP_MAX_PATH;
      Some (FTP_SUCCESS, upd_session (\<lambda>s. s\<lparr>virt_path := b\<rparr>) v) })" if v: "keeps w v" for v
  proof -
    note l = session_okD(1) [OF keepsD(1) [OF v ok]]
    obtain b where b: "strlcpy (virt_path (w_session v)) (w_cwd u) FTP_MAX_PATH = Some (length (w_cwd u), b)"
      "length b = FTP_MAX_PATH" "cstr b = w_cwd u"
      by (rule strlcpy_cwd [OF session_cwd [OF ok'] l])
    then show ?thesis
      using keeps_upd_cwd [OF v b(2)] session_cwd(1) [OF ok'] by (simp add: d(3) within_def)
  qed
  show ?thesis
    unfolding list_directory_def Let_def d(1)
    by (auto intro!: keeps_intros keeps_rules k ok p restore)
qed

lemma dolist_within:
  assumes ok: "session_ok w" shows "within keeps w (dolist os w)"
  unfolding dolist_def Let_def
  by (rule keeps.w_pure)
     (auto simp: parse_list_options_def intro!: keeps_intros keeps_rules ok split: prod.splits elim!: bind_SomeE)

interpretation dolist: session_handler dolist
  by unfold_locales (rule dolist_within)

end
