(* ===== verification/Ftp_Command.thy ===== *)
theory Ftp_Command
  imports Ftp_Ls
begin

text \<open>
  \<open>command.c\<close> and the table of \<open>core.c\<close>: the pool of command handlers, its sorting and searching, and
  the dispatch of a command line. \<open>qsort\<close> and \<open>bsearch\<close> are modelled as the algorithms on lists they
  promise, an insertion sort and a bisection, with the program's comparison functions; their laws are
  proved once for any comparator.
\<close>

record 'o cmd_handler =
  cmd_name :: string
  cmd_fun :: "'o handler"
  needs_login :: bool
  needs_data :: bool
  needs_arg :: bool

text \<open>The pool: the array up to \<open>num_commands\<close>, null or allocated, and its capacity.\<close>

record 'o cmd_pool =
  pool_cmds :: "'o cmd_handler list option"
  pool_size :: nat

definition empty_pool :: "'o cmd_pool" where
  "empty_pool = \<lparr>pool_cmds = None, pool_size = 0\<rparr>"

definition SIZEOF_CMD_HANDLER :: nat where "SIZEOF_CMD_HANDLER = 24"

definition init_command_pool :: "'o os \<Rightarrow> 'o world \<Rightarrow> (int \<times> 'o cmd_pool) \<times> 'o world" where
  "init_command_pool os w = (case c_malloc os (16 * SIZEOF_CMD_HANDLER) w of
       (False, w) \<Rightarrow> ((FTP_ERROR, \<lparr>pool_cmds = None, pool_size = 0\<rparr>), w)
     | (True, w) \<Rightarrow> ((FTP_SUCCESS, \<lparr>pool_cmds = Some [], pool_size = 16\<rparr>), w))"

definition destroy_command_pool :: "'o cmd_pool \<Rightarrow> 'o cmd_pool" where
  "destroy_command_pool p = empty_pool"

definition compare_commands :: "'o cmd_handler \<Rightarrow> 'o cmd_handler \<Rightarrow> int" where
  "compare_commands cmd1 cmd2 = strcasecmp (cmd_name cmd1) (cmd_name cmd2)"

definition compare_key_to_cmd :: "string \<Rightarrow> 'o cmd_handler \<Rightarrow> int" where
  "compare_key_to_cmd key cmd = strcasecmp key (cmd_name cmd)"

text \<open>\<open>memcpy\<close> into a null or too small array is undefined.\<close>

definition add_command ::
  "'o os \<Rightarrow> 'o cmd_handler \<Rightarrow> 'o cmd_pool \<Rightarrow> 'o world \<Rightarrow> ((int \<times> 'o cmd_pool) \<times> 'o world) option" where
  "add_command os new_cmd p w = (let this_cmd = (case pool_cmds p of None \<Rightarrow> 0 | Some cs \<Rightarrow> length cs) in
     case (if this_cmd \<ge> pool_size p
           then (case c_malloc os (pool_size p * 2 * SIZEOF_CMD_HANDLER) w of
               (False, w) \<Rightarrow> (False, \<lparr>pool_cmds = None, pool_size = pool_size p * 2\<rparr>, w)
             | (True, w) \<Rightarrow> (True, \<lparr>pool_cmds = Some (case pool_cmds p of None \<Rightarrow> [] | Some cs \<Rightarrow> cs),
                   pool_size = pool_size p * 2\<rparr>, w))
           else (True, p, w)) of
       (False, p, w) \<Rightarrow> Some ((FTP_ERROR, p), w)
     | (True, p, w) \<Rightarrow> (case pool_cmds p of
           None \<Rightarrow> None
         | Some cs \<Rightarrow>
             if this_cmd < pool_size p
             then Some ((FTP_SUCCESS, p\<lparr>pool_cmds := Some (cs @ [new_cmd])\<rparr>), w) else None))"

fun add_commands ::
  "'o os \<Rightarrow> 'o cmd_handler list \<Rightarrow> 'o cmd_pool \<Rightarrow> 'o world \<Rightarrow> ((int \<times> 'o cmd_pool) \<times> 'o world) option" where
  "add_commands os [] p w = Some ((FTP_SUCCESS, p), w)"
| "add_commands os (c # cs) p w = do {
     ((ret, p), w) \<leftarrow> add_command os c p w;
     if ret \<noteq> FTP_SUCCESS then Some ((FTP_ERROR, p), w) else add_commands os cs p w }"

subsection \<open>Sorting and searching\<close>

fun insort_cmp :: "('e \<Rightarrow> 'e \<Rightarrow> int) \<Rightarrow> 'e \<Rightarrow> 'e list \<Rightarrow> 'e list" where
  "insort_cmp cmp x [] = [x]"
| "insort_cmp cmp x (y # ys) = (if cmp x y \<le> 0 then x # y # ys else y # insort_cmp cmp x ys)"

definition qsort :: "('e \<Rightarrow> 'e \<Rightarrow> int) \<Rightarrow> 'e list \<Rightarrow> 'e list" where
  "qsort cmp xs = foldr (insort_cmp cmp) xs []"

text \<open>Bisection of the positions from \<open>l\<close> to before \<open>u\<close>.\<close>

function bsearch_from :: "('q \<Rightarrow> 'e \<Rightarrow> int) \<Rightarrow> 'q \<Rightarrow> 'e list \<Rightarrow> nat \<Rightarrow> nat \<Rightarrow> 'e option" where
  "bsearch_from cmp key xs l u =
     (if l < u
      then (let idx = (l + u) div 2; r = cmp key (xs ! idx)
        in if r < 0 then bsearch_from cmp key xs l idx
           else if r > 0 then bsearch_from cmp key xs (Suc idx) u
           else Some (xs ! idx))
      else None)"
  by pat_completeness auto
termination
  by (relation "measure (\<lambda>(_, _, _, l, u). u - l)") auto

declare bsearch_from.simps [simp del]

definition bsearch :: "('q \<Rightarrow> 'e \<Rightarrow> int) \<Rightarrow> 'q \<Rightarrow> 'e list \<Rightarrow> 'e option" where
  "bsearch cmp key xs = bsearch_from cmp key xs 0 (length xs)"

context comparator
begin

text \<open>Bisection finds the matching entry of a strictly sorted array, and only then fails.\<close>

lemma bsearch_from_result:
  assumes sorted: "sorted_wrt (<) (map ekey xs)" and "u \<le> length xs"
  shows "case bsearch_from cmp key xs l u of
      Some e \<Rightarrow> e \<in> set xs \<and> cmp key e = 0
    | None \<Rightarrow> \<forall>i. l \<le> i \<and> i < u \<longrightarrow> cmp key (xs ! i) \<noteq> 0"
  using assms(2)
proof (induction "u - l" arbitrary: l u rule: less_induct)
  case less
  show ?case
  proof (cases "l < u")
    case True
    define m where "m = (l + u) div 2"
    have m: "l \<le> m" "m < u" "m < length xs" using True less.prems by (auto simp: m_def)
    have ord: "i < j \<Longrightarrow> j < length xs \<Longrightarrow> ekey (xs ! i) < ekey (xs ! j)" for i j
      using sorted by (auto simp: sorted_wrt_iff_nth_less)
    consider (lt) "cmp key (xs ! m) < 0" | (gt) "0 < cmp key (xs ! m)" | (eq) "cmp key (xs ! m) = 0"
      by linarith
    then show ?thesis
    proof cases
      case lt
      have right: "cmp key (xs ! i) \<noteq> 0" if "m \<le> i" "i < u" for i
        using that lt ord [of m i] less.prems by (cases "i = m") (auto simp: cmp_neg cmp_zero)
      have "bsearch_from cmp key xs l u = bsearch_from cmp key xs l m"
        using True lt by (subst bsearch_from.simps) (simp add: Let_def m_def)
      moreover have "m - l < u - l" using m by simp
      ultimately show ?thesis
        using less.hyps [of m l] m right by (auto split: option.splits) (metis not_less)
    next
      case gt
      have left: "cmp key (xs ! i) \<noteq> 0" if "l \<le> i" "i \<le> m" for i
        using that gt ord [of i m] m by (cases "i = m") (auto simp: cmp_pos cmp_zero)
      have "bsearch_from cmp key xs l u = bsearch_from cmp key xs (Suc m) u"
        using True gt by (subst bsearch_from.simps) (simp add: Let_def m_def)
      moreover have "u - Suc m < u - l" using m by simp
      ultimately show ?thesis
        using less.hyps [of u "Suc m"] less.prems m left
        by (auto split: option.splits) (metis not_less_eq_eq)
    next
      case eq
      then have "bsearch_from cmp key xs l u = Some (xs ! m)"
        using True by (subst bsearch_from.simps) (simp add: Let_def m_def)
      with eq m(3) show ?thesis by simp
    qed
  next
    case False
    then have "bsearch_from cmp key xs l u = None" by (subst bsearch_from.simps) simp
    with False show ?thesis by simp
  qed
qed

lemma bsearch_Some:
  "sorted_wrt (<) (map ekey xs) \<Longrightarrow> bsearch cmp key xs = Some e \<Longrightarrow> e \<in> set xs \<and> cmp key e = 0"
  using bsearch_from_result [where xs = xs and u = "length xs" and l = 0, of key] by (simp add: bsearch_def)

lemma bsearch_None:
  "sorted_wrt (<) (map ekey xs) \<Longrightarrow> bsearch cmp key xs = None \<Longrightarrow> e \<in> set xs \<Longrightarrow> cmp key e \<noteq> 0"
  using bsearch_from_result [where xs = xs and u = "length xs" and l = 0, of key] by (auto simp: bsearch_def in_set_conv_nth)

end

text \<open>A comparison of entries with entries, for sorting.\<close>

locale entry_comparator = comparator cmp key key
  for cmp :: "'e \<Rightarrow> 'e \<Rightarrow> int" and key :: "'e \<Rightarrow> 'k::linorder"
begin

lemma set_insort_cmp [simp]: "set (insort_cmp cmp x xs) = insert x (set xs)"
  by (induction xs) auto

lemma distinct_insort_cmp:
  "key x \<notin> key ` set xs \<Longrightarrow> distinct (map key xs) \<Longrightarrow> distinct (map key (insort_cmp cmp x xs))"
  by (induction xs) auto

lemma sorted_insort_cmp: "sorted (map key xs) \<Longrightarrow> sorted (map key (insort_cmp cmp x xs))"
proof (induction xs)
  case (Cons y ys)
  show ?case
  proof (cases "cmp x y \<le> 0")
    case True
    with Cons.prems show ?thesis by (auto simp: cmp_le)
  next
    case False
    then have "key y \<le> key x" using cmp_le [of x y] by simp
    with False Cons show ?thesis by auto
  qed
qed simp

lemma set_qsort [simp]: "set (qsort cmp xs) = set xs"
  unfolding qsort_def by (induction xs) auto

lemma sorted_qsort: "sorted (map key (qsort cmp xs))"
  unfolding qsort_def by (induction xs) (auto intro: sorted_insort_cmp)

lemma distinct_qsort: "distinct (map key xs) \<Longrightarrow> distinct (map key (qsort cmp xs))"
proof (induction xs)
  case (Cons x xs)
  have "qsort cmp (x # xs) = insort_cmp cmp x (qsort cmp xs)" by (simp add: qsort_def)
  with Cons show ?case by (simp add: distinct_insort_cmp)
qed (simp add: qsort_def)

lemma strict_qsort: "distinct (map key xs) \<Longrightarrow> sorted_wrt (<) (map key (qsort cmp xs))"
  using sorted_qsort [of xs] distinct_qsort [of xs] by (simp add: strict_sorted_iff)

end

interpretation key_to_cmd: comparator compare_key_to_cmd casekey "\<lambda>c. casekey (cmd_name c)"
  by unfold_locales (simp_all add: compare_key_to_cmd_def strcasecmp_neg_iff strcasecmp_zero_iff)

interpretation cmd_order: entry_comparator compare_commands "\<lambda>c. casekey (cmd_name c)"
  by unfold_locales (simp_all add: compare_commands_def strcasecmp_neg_iff strcasecmp_zero_iff)

subsection \<open>The table and the dispatch\<close>

definition core_command_list :: "'o cmd_handler list" where
  "core_command_list = [
     \<lparr>cmd_name = ''ABOR'', cmd_fun = doabor, needs_login = True, needs_data = False, needs_arg = False\<rparr>,
     \<lparr>cmd_name = ''ACCT'', cmd_fun = doacct, needs_login = True, needs_data = False, needs_arg = False\<rparr>,
     \<lparr>cmd_name = ''ALLO'', cmd_fun = doallo, needs_login = True, needs_data = False, needs_arg = False\<rparr>,
     \<lparr>cmd_name = ''CDUP'', cmd_fun = docdup, needs_login = True, needs_data = False, needs_arg = False\<rparr>,
     \<lparr>cmd_name = ''CLNT'', cmd_fun = doclnt, needs_login = True, needs_data = False, needs_arg = False\<rparr>,
     \<lparr>cmd_name = ''CWD'', cmd_fun = docwd, needs_login = True, needs_data = False, needs_arg = True\<rparr>,
     \<lparr>cmd_name = ''FEAT'', cmd_fun = dofeat, needs_login = False, needs_data = False, needs_arg = False\<rparr>,
     \<lparr>cmd_name = ''LIST'', cmd_fun = dolist, needs_login = True, needs_data = True, needs_arg = False\<rparr>,
     \<lparr>cmd_name = ''MDTM'', cmd_fun = domdtm, needs_login = True, needs_data = False, needs_arg = True\<rparr>,
     \<lparr>cmd_name = ''MKD'', cmd_fun = domkd, needs_login = True, needs_data = False, needs_arg = True\<rparr>,
     \<lparr>cmd_name = ''NOOP'', cmd_fun = donoop, needs_login = False, needs_data = False, needs_arg = False\<rparr>,
     \<lparr>cmd_name = ''OPTS'', cmd_fun = doopts, needs_login = False, needs_data = False, needs_arg = False\<rparr>,
     \<lparr>cmd_name = ''PASS'', cmd_fun = dopass, needs_login = False, needs_data = False, needs_arg = False\<rparr>,
     \<lparr>cmd_name = ''PASV'', cmd_fun = dopasv, needs_login = True, needs_data = False, needs_arg = False\<rparr>,
     \<lparr>cmd_name = ''PWD'', cmd_fun = dopwd, needs_login = True, needs_data = False, needs_arg = False\<rparr>,
     \<lparr>cmd_name = ''QUIT'', cmd_fun = doquit, needs_login = False, needs_data = False, needs_arg = False\<rparr>,
     \<lparr>cmd_name = ''REST'', cmd_fun = dorest, needs_login = True, needs_data = False, needs_arg = True\<rparr>,
     \<lparr>cmd_name = ''DELE'', cmd_fun = dodele, needs_login = True, needs_data = False, needs_arg = True\<rparr>,
     \<lparr>cmd_name = ''RETR'', cmd_fun = doretr, needs_login = True, needs_data = True, needs_arg = True\<rparr>,
     \<lparr>cmd_name = ''RMD'', cmd_fun = dormd, needs_login = True, needs_data = False, needs_arg = True\<rparr>,
     \<lparr>cmd_name = ''SIZE'', cmd_fun = dosize, needs_login = True, needs_data = False, needs_arg = True\<rparr>,
     \<lparr>cmd_name = ''SYST'', cmd_fun = dosyst, needs_login = False, needs_data = False, needs_arg = False\<rparr>,
     \<lparr>cmd_name = ''TYPE'', cmd_fun = dotype, needs_login = True, needs_data = False, needs_arg = True\<rparr>,
     \<lparr>cmd_name = ''USER'', cmd_fun = douser, needs_login = False, needs_data = False, needs_arg = False\<rparr>,
     \<lparr>cmd_name = ''STOR'', cmd_fun = dostor, needs_login = True, needs_data = True, needs_arg = True\<rparr>]"

definition add_command_list ::
  "'o os \<Rightarrow> 'o cmd_handler list \<Rightarrow> 'o cmd_pool \<Rightarrow> 'o world \<Rightarrow> ((int \<times> 'o cmd_pool) \<times> 'o world) option" where
  "add_command_list os command_list p w = do {
     ((ret, p), w) \<leftarrow> add_commands os command_list p w;
     if ret \<noteq> FTP_SUCCESS then Some ((FTP_ERROR, p), w)
     else Some ((FTP_SUCCESS, p\<lparr>pool_cmds := map_option (qsort compare_commands) (pool_cmds p)\<rparr>), w) }"

definition init_core_commands ::
  "'o os \<Rightarrow> 'o cmd_pool \<Rightarrow> 'o world \<Rightarrow> ((int \<times> 'o cmd_pool) \<times> 'o world) option" where
  "init_core_commands os p w = add_command_list os core_command_list p w"

definition pre_command :: "'o os \<Rightarrow> 'o cmd_handler \<Rightarrow> 'o world \<Rightarrow> (int \<times> 'o world) option" where
  "pre_command os cmd w =
     (if needs_login cmd \<and> \<not> logged_in (w_login w)
      then do { (_, w) \<leftarrow> say os ''530 You're not logged in'' w; Some (FTP_ERROR, w) }
      else if needs_data cmd \<and> pasv_sock (w_conn w) = -1
      then do { (_, w) \<leftarrow> say os ''425 Cannot open data connection'' w; Some (FTP_ERROR, w) }
      else if needs_arg cmd \<and> w_arg w = []
      then do { (_, w) \<leftarrow> say os ''501 Missing argument'' w; Some (FTP_ERROR, w) }
      else Some (FTP_SUCCESS, w))"

definition find_command :: "'o cmd_pool \<Rightarrow> string \<Rightarrow> 'o cmd_handler option" where
  "find_command p key = bsearch compare_key_to_cmd key (case pool_cmds p of None \<Rightarrow> [] | Some cs \<Rightarrow> cs)"

definition do_cmd :: "'o cmd_pool \<Rightarrow> 'o handler" where
  "do_cmd p os w = (case find_command p (cstr (c_line (w_command w))) of
       None \<Rightarrow> do { (_, w) \<leftarrow> say os ''500 ?'' w; Some (FTP_SUCCESS, w) }
     | Some cmd_def \<Rightarrow> do {
         (ret, w) \<leftarrow> pre_command os cmd_def w;
         if ret \<noteq> FTP_SUCCESS then Some (FTP_SUCCESS, w) else cmd_fun cmd_def os w })"

subsection \<open>The pool at run time\<close>

definition core_pool :: "nat \<Rightarrow> 'o cmd_pool" where
  "core_pool n = \<lparr>pool_cmds = Some (qsort compare_commands core_command_list), pool_size = n\<rparr>"

lemma core_names_distinct: "distinct (map (\<lambda>c. casekey (cmd_name c)) core_command_list)"
  by (simp add: core_command_list_def casekey_def tolower_def byte_of_def)

interpretation core: searched_table "find_command (core_pool n)" core_command_list
    "\<lambda>key c. casekey key = casekey (cmd_name c)" for n
proof
  note sorted = cmd_order.strict_qsort [OF core_names_distinct]
  fix q :: string and e e' :: "'a cmd_handler"
  show "e \<in> set core_command_list \<and> casekey q = casekey (cmd_name e)"
    if "find_command (core_pool n) q = Some e"
    using key_to_cmd.bsearch_Some [OF sorted] that
    by (auto simp: find_command_def core_pool_def key_to_cmd.cmp_zero)
  show "casekey q \<noteq> casekey (cmd_name e)"
    if "find_command (core_pool n) q = (None :: 'a cmd_handler option)" "e \<in> set core_command_list"
    using key_to_cmd.bsearch_None [OF sorted, of q e] that
    by (simp add: find_command_def core_pool_def key_to_cmd.cmp_zero)
  show "e = e'" if "e \<in> set core_command_list" "e' \<in> set core_command_list"
    "casekey q = casekey (cmd_name e)" "casekey q = casekey (cmd_name e')"
    using core_names_distinct that by (auto simp: distinct_map dest: inj_onD)
qed

lemma find_command_find:
  "find_command (core_pool n) key = find (\<lambda>c. strcasecmp key (cmd_name c) = 0) core_command_list"
proof (cases "find_command (core_pool n) key :: 'a cmd_handler option")
  case None
  then have "\<forall>c \<in> set core_command_list. casekey key \<noteq> casekey (cmd_name (c :: 'a cmd_handler))"
    by (simp add: core.search_None_iff)
  with None show ?thesis by (simp add: find_None_iff strcasecmp_zero_iff eq_commute [of None])
next
  case (Some e)
  then have e: "e \<in> set core_command_list" "casekey key = casekey (cmd_name e)"
    by (simp_all add: core.search_iff)
  then have "find (\<lambda>c. strcasecmp key (cmd_name c) = 0) (core_command_list :: 'a cmd_handler list) \<noteq> None"
    by (auto simp: find_None_iff strcasecmp_zero_iff)
  then obtain d :: "'a cmd_handler"
    where d: "find (\<lambda>c. strcasecmp key (cmd_name c) = 0) core_command_list = Some d" by blast
  then have "d \<in> set core_command_list" "casekey key = casekey (cmd_name d)"
    by (auto simp: find_Some_iff strcasecmp_zero_iff)
  with e have "d = e" by (intro core.matches_unique [of d e key])
  with Some d show ?thesis by simp
qed

lemma core_handlers:
  "\<forall>c \<in> set (core_command_list :: 'o cmd_handler list). session_handler (cmd_fun c)"
  by (simp add: core_command_list_def doabor.session_handler_axioms doacct.session_handler_axioms
      doallo.session_handler_axioms docdup.session_handler_axioms doclnt.session_handler_axioms
      docwd.session_handler_axioms dofeat.session_handler_axioms dolist.session_handler_axioms
      domdtm.session_handler_axioms domkd.session_handler_axioms donoop.session_handler_axioms
      doopts.session_handler_axioms dopass.session_handler_axioms dopasv.session_handler_axioms
      dopwd.session_handler_axioms doquit.session_handler_axioms dorest.session_handler_axioms
      dodele.session_handler_axioms doretr.session_handler_axioms dormd.session_handler_axioms
      dosize.session_handler_axioms dosyst.session_handler_axioms dotype.session_handler_axioms
      douser.session_handler_axioms dostor.session_handler_axioms)

lemma pre_command_within [keeps_rules]: "keeps w u \<Longrightarrow> within keeps w (pre_command os c u)"
  by (auto simp: pre_command_def intro!: keeps_intros keeps_rules)

lemma do_cmd_within:
  assumes mem: "mem_ok os" and ok: "session_ok w" shows "within keeps w (do_cmd (core_pool n) os w)"
proof (cases "find_command (core_pool n) (cstr (c_line (w_command w))) :: 'a cmd_handler option")
  case (Some c)
  then have "c \<in> set core_command_list" by (simp add: core.search_iff)
  then have "session_handler (cmd_fun c)" using core_handlers by blast
  then have h: "within keeps v (cmd_fun c os v)" if "session_ok v" for v
    using that mem by (simp add: session_handler_def)
  have "within keeps w (cmd_fun c os v)" if "keeps w v" for v
    using keeps.w_step [OF h [OF keepsD(1) [OF that ok]] that] .
  with Some show ?thesis by (auto simp: do_cmd_def intro!: keeps_intros keeps_rules)
qed (auto simp: do_cmd_def intro!: keeps_intros keeps_rules)

text \<open>The dispatcher itself fulfils the contract of a handler.\<close>

interpretation do_cmd: session_handler "do_cmd (core_pool n)" for n
  by unfold_locales (rule do_cmd_within)

subsection \<open>Replies do not touch files\<close>

lemma sendall_loop_net:
  assumes "sendall_loop os fd b n w = Some x" and "os_net os' = os_net os"
  shows "sendall_loop os' fd b n w = Some x"
proof -
  have "os_net os' = os_net os \<longrightarrow> sendall_loop os' fd b n w = Some x"
  proof (rule sendall_loop.raw_induct
      [where P = "\<lambda>os fd b n w x. os_net os' = os_net os \<longrightarrow> sendall_loop os' fd b n w = Some x", OF _ assms(1)])
    fix f and os :: "'a os" and fd b n and w :: "'a world" and x
    assume IH: "\<And>os fd b n w x. f os fd b n w = Some x \<Longrightarrow>
        os_net os' = os_net os \<longrightarrow> sendall_loop os' fd b n w = Some x"
      and eq: "(if \<not> n < length b then Some (int n, w)
         else case os_call (sys_send os fd (drop n b)) w of
            (Inl e, w) \<Rightarrow> if e = EINTR then f os fd b n w else Some (-1, w)
          | (Inr k, w) \<Rightarrow> f os fd b (n + k)
              (w\<lparr>w_out := (w_out w)(fd := w_out w fd @ take k (drop n b))\<rparr>)) = Some x"
    show "os_net os' = os_net os \<longrightarrow> sendall_loop os' fd b n w = Some x"
      using eq IH by (subst sendall_loop.simps) (auto split: if_splits sum.splits prod.splits)
  qed
  with assms(2) show ?thesis by blast
qed

lemma writev_loop_io:
  assumes "writev_loop os fd b w = Some x" and "os_io os' = os_io os"
  shows "writev_loop os' fd b w = Some x"
proof -
  have "os_io os' = os_io os \<longrightarrow> writev_loop os' fd b w = Some x"
  proof (rule writev_loop.raw_induct
      [where P = "\<lambda>os fd b w x. os_io os' = os_io os \<longrightarrow> writev_loop os' fd b w = Some x", OF _ assms(1)])
    fix f and os :: "'a os" and fd b and w :: "'a world" and x
    assume IH: "\<And>os fd b w x. f os fd b w = Some x \<Longrightarrow> os_io os' = os_io os \<longrightarrow> writev_loop os' fd b w = Some x"
      and eq: "(case os_call (sys_writev os fd b) w of
            (Inl e, w) \<Rightarrow> if e = EINTR then f os fd b w else Some (FTP_ERROR, w)
          | (Inr n, w) \<Rightarrow> Some (FTP_SUCCESS,
              w\<lparr>w_out := (w_out w)(fd := w_out w fd @ take n (concat b))\<rparr>)) = Some x"
    show "os_io os' = os_io os \<longrightarrow> writev_loop os' fd b w = Some x"
      using eq IH by (subst writev_loop.simps) (auto split: if_splits sum.splits prod.splits)
  qed
  with assms(2) show ?thesis by blast
qed

lemma other_files [simp]:
  "sendall_loop (os\<lparr>os_fs := fs\<rparr>) fd b n w = sendall_loop os fd b n w"
  "writev_loop (os\<lparr>os_fs := fs\<rparr>) fd iov w = writev_loop os fd iov w"
proof -
  have "sendall_loop (os\<lparr>os_fs := fs\<rparr>) fd b n w = Some x \<longleftrightarrow> sendall_loop os fd b n w = Some x" for x
    using sendall_loop_net [of os fd b n w x "os\<lparr>os_fs := fs\<rparr>"] sendall_loop_net [of "os\<lparr>os_fs := fs\<rparr>" fd b n w x os]
    by auto
  then show "sendall_loop (os\<lparr>os_fs := fs\<rparr>) fd b n w = sendall_loop os fd b n w"
    by (metis option.exhaust)
  have "writev_loop (os\<lparr>os_fs := fs\<rparr>) fd iov w = Some x \<longleftrightarrow> writev_loop os fd iov w = Some x" for x
    using writev_loop_io [of os fd iov w x "os\<lparr>os_fs := fs\<rparr>"] writev_loop_io [of "os\<lparr>os_fs := fs\<rparr>" fd iov w x os]
    by auto
  then show "writev_loop (os\<lparr>os_fs := fs\<rparr>) fd iov w = writev_loop os fd iov w"
    by (metis option.exhaust)
qed

lemma other_files_calls [simp]:
  "reply (os\<lparr>os_fs := fs\<rparr>) con msg w = reply os con msg w"
  "reply_format (os\<lparr>os_fs := fs\<rparr>) con msg w = reply_format os con msg w"
  "say (os\<lparr>os_fs := fs\<rparr>) msg w = say os msg w"
  "c_malloc (os\<lparr>os_fs := fs\<rparr>) n w = c_malloc os n w"
  "send_state (os\<lparr>os_fs := fs\<rparr>) t w = send_state os t w"
  "init_state_pool (os\<lparr>os_fs := fs\<rparr>) w = init_state_pool os w"
  "init_vfs_pool (os\<lparr>os_fs := fs\<rparr>) d w = init_vfs_pool os d w"
proof -
  show r: "reply (os\<lparr>os_fs := fs\<rparr>) con msg w = reply os con msg w" for con msg w
    by (simp add: reply_def sendall_def)
  then show "say (os\<lparr>os_fs := fs\<rparr>) msg w = say os msg w"
    "reply_format (os\<lparr>os_fs := fs\<rparr>) con msg w = reply_format os con msg w"
    by (simp_all add: say_def reply_format_def cong: option.case_cong)
  show m: "c_malloc (os\<lparr>os_fs := fs\<rparr>) n w = c_malloc os n w" for n w by (simp add: c_malloc_def)
  then show "init_state_pool (os\<lparr>os_fs := fs\<rparr>) w = init_state_pool os w"
    "init_vfs_pool (os\<lparr>os_fs := fs\<rparr>) d w = init_vfs_pool os d w"
    by (simp_all add: init_state_pool_def init_vfs_pool_def Let_def cong: option.case_cong if_cong)
  show "send_state (os\<lparr>os_fs := fs\<rparr>) t w = send_state os t w" 
    by (simp add: send_state_def Let_def cong: option.case_cong if_cong)
qed

lemma open_handlers:
  assumes "c \<in> set core_command_list" and "\<not> needs_login c"
  shows "cmd_fun c (os\<lparr>os_fs := fs\<rparr>) w = cmd_fun c os w"
  using assms
  by (auto simp: core_command_list_def dofeat_def donoop_def doopts_def doquit_def dosyst_def douser_def
      dopass_def login_user_def Let_def cong: if_cong option.case_cong cptr.case_cong sum.case_cong)

lemma pre_command_then:
  "(pre_command os c w \<bind> (\<lambda>(ret, w). if ret \<noteq> FTP_SUCCESS then Some (FTP_SUCCESS, w) else h w)) =
     (if needs_login c \<and> \<not> logged_in (w_login w)
      then do { (_, w) \<leftarrow> say os ''530 You're not logged in'' w; Some (FTP_SUCCESS, w) }
      else if needs_data c \<and> pasv_sock (w_conn w) = -1
      then do { (_, w) \<leftarrow> say os ''425 Cannot open data connection'' w; Some (FTP_SUCCESS, w) }
      else if needs_arg c \<and> w_arg w = []
      then do { (_, w) \<leftarrow> say os ''501 Missing argument'' w; Some (FTP_SUCCESS, w) }
      else h w)"
  by (auto simp: pre_command_def split: Option.bind_splits)

lemma add_commands_ok:
  assumes mem: "mem_ok os" and "pool_cmds p = Some ds" and "0 < pool_size p" and "length ds \<le> pool_size p"
  shows "\<exists>n. add_commands os cs p w = Some ((FTP_SUCCESS, \<lparr>pool_cmds = Some (ds @ cs), pool_size = n\<rparr>), w)"
  using assms(2-)
proof (induction cs arbitrary: p ds)
  case Nil
  then show ?case by (intro exI [of _ "pool_size p"]) simp
next
  case (Cons c cs)
  define p' where "p' = \<lparr>pool_cmds = Some (ds @ [c]),
    pool_size = (if length ds \<ge> pool_size p then pool_size p * 2 else pool_size p)\<rparr>"
  have "add_command os c p w = Some ((FTP_SUCCESS, p'), w)"
    using Cons.prems mem by (cases p) (auto simp: add_command_def p'_def Let_def)
  moreover have "pool_cmds p' = Some (ds @ [c])" "0 < pool_size p'" "length (ds @ [c]) \<le> pool_size p'"
    using Cons.prems by (auto simp: p'_def)
  ultimately show ?case using Cons.IH [of p' "ds @ [c]"] by simp
qed

subsection \<open>Properties\<close>

text \<open>C29. Startup fills the table: with memory available, \<open>init_command_pool\<close> and \<open>init_core_commands\<close>
  succeed, although the pool starts smaller than the table, and leave the sorted table.\<close>

theorem init_core_commands_ready:
  assumes "mem_ok os"
  shows "\<exists>p n. init_command_pool os w = ((FTP_SUCCESS, p), w)
    \<and> init_core_commands os p w = Some ((FTP_SUCCESS, core_pool n), w)"
proof -
  let ?p = "\<lparr>pool_cmds = Some [], pool_size = 16\<rparr> :: 'a cmd_pool"
  obtain n where "add_commands os core_command_list ?p w
      = Some ((FTP_SUCCESS, \<lparr>pool_cmds = Some core_command_list, pool_size = n\<rparr>), w)"
    using add_commands_ok [OF assms, of ?p "[]" core_command_list w] by auto
  then have "init_core_commands os ?p w = Some ((FTP_SUCCESS, core_pool n), w)"
    by (simp add: init_core_commands_def add_command_list_def core_pool_def)
  moreover have "init_command_pool os w = ((FTP_SUCCESS, ?p), w)"
    using assms by (simp add: init_command_pool_def)
  ultimately show ?thesis by blast
qed

theorem init_core_commands_ready_witness:
  "\<exists>p n. init_command_pool idle_os idle_world = ((FTP_SUCCESS, p), idle_world)
    \<and> init_core_commands idle_os p idle_world = Some ((FTP_SUCCESS, core_pool n), idle_world)"
  by (rule init_core_commands_ready) simp

text \<open>C11. The dispatcher, with its sorted pool and bisection, does what a linear search of the table of
  \<open>core.c\<close> for the command word, ignoring case, would do: an unknown word is answered with 500, a
  command whose conditions fail with the reply of the first one that does, and any other runs its
  handler.\<close>

theorem do_cmd_dispatch:
  "do_cmd (core_pool n) os w =
    (case find (\<lambda>c. strcasecmp (cstr (c_line (w_command w))) (cmd_name c) = 0) core_command_list of
       None \<Rightarrow> do { (_, w) \<leftarrow> reply os (w_conn w) (''500 ?'' @ CRLF) w; Some (FTP_SUCCESS, w) }
     | Some c \<Rightarrow>
         if needs_login c \<and> \<not> logged_in (w_login w)
         then do { (_, w) \<leftarrow> reply os (w_conn w) (''530 You're not logged in'' @ CRLF) w; Some (FTP_SUCCESS, w) }
         else if needs_data c \<and> pasv_sock (w_conn w) = -1
         then do { (_, w) \<leftarrow> reply os (w_conn w) (''425 Cannot open data connection'' @ CRLF) w; Some (FTP_SUCCESS, w) }
         else if needs_arg c \<and> w_arg w = []
         then do { (_, w) \<leftarrow> reply os (w_conn w) (''501 Missing argument'' @ CRLF) w; Some (FTP_SUCCESS, w) }
         else cmd_fun c os w)"
  by (simp add: do_cmd_def find_command_find pre_command_then say_def split: option.split)

text \<open>C14. Every command preserves the session: from a well-formed session any command line leads to a
  well-formed one (canonical working directory, buffers at their size, a logged-in session with its
  file system), never logs a client out, and never changes the root directory of a logged-in client,
  the configuration or the connection.\<close>

theorem do_cmd_invariant:
  assumes "mem_ok os" and "session_ok w" and "do_cmd (core_pool n) os w = Some (r, w')"
  shows "session_ok w' \<and> w_config w' = w_config w \<and> wires w' = wires w
    \<and> (logged_in (w_login w) \<longrightarrow> logged_in (w_login w') \<and> vfs_root w' = vfs_root w)"
  using do_cmd.handler_ok [OF assms] by (auto dest: keepsD)

definition line_world :: "string \<Rightarrow> unit world" where
  "line_world s = upd_command (\<lambda>c. c\<lparr>c_line := s @ NUL # replicate (COMMAND_BUFFER_SIZE - length s - 1) NUL\<rparr>) idle_world"

lemma line_world_sel [simp]:
  "w_login (line_world s) = login idle_session" "w_conn (line_world s) = conn idle_session"
  "w_arg (line_world s) = ''''" "w_out (line_world s) = (\<lambda>_. [])"
  by (simp_all add: line_world_def upd_command_def upd_session_def idle_session_def idle_world_at_def)

lemma line_world_line: "nul_free s \<Longrightarrow> cstr (c_line (w_command (line_world s))) = s"
  by (simp add: line_world_def upd_command_def upd_session_def)

lemma line_world_ok: "length s < COMMAND_BUFFER_SIZE \<Longrightarrow> session_ok (line_world s)"
proof -
  assume s: "length s < COMMAND_BUFFER_SIZE"
  have p: "cstr ((replicate FTP_MAX_PATH NUL)[0 := SLASH]) = ''/''"
    by (simp add: FTP_MAX_PATH_def cstr_def numeral_eq_Suc)
  have "canonical ''/''" unfolding canonical_def
    by (intro conjI exI [of _ "[]"]) (simp_all add: render_def FTP_MAX_PATH_def)
  with s p show ?thesis
    by (simp add: line_world_def upd_command_def upd_session_def session_ok_def paths_ok_def command_ok_def
        idle_session_def reply_pool_ok_def vfs_inv_def state_inv_def vfs_ok_def idle_world_at_def
        FTP_MAX_NAME_def cstr_def nul_free_def)
qed

theorem do_cmd_invariant_witness:
  "\<exists>w'. do_cmd (core_pool 32) idle_os (line_world ''noop'') = Some (FTP_SUCCESS, w')
    \<and> w_out w' 4 = ''200 Zzz'' @ CRLF \<and> session_ok w'"
proof -
  have f: "find_command (core_pool 32) ''noop'' = Some \<lparr>cmd_name = ''NOOP'', cmd_fun = donoop,
      needs_login = False, needs_data = False, needs_arg = False\<rparr>"
    by (simp add: find_command_find core_command_list_def strcasecmp_zero_iff casekey_def tolower_def byte_of_def)
  have "cstr (c_line (w_command (line_world ''noop''))) = ''noop''"
    by (rule line_world_line) (simp add: nul_free_def)
  then have d: "do_cmd (core_pool 32) idle_os (line_world ''noop'')
      = Some (FTP_SUCCESS, emit 4 (''200 Zzz'' @ CRLF) (line_world ''noop''))"
    by (simp add: do_cmd_def f pre_command_def donoop_def say_def reply_ok)
  have "session_ok (line_world ''noop'')" by (rule line_world_ok) (simp add: COMMAND_BUFFER_SIZE_def)
  then show ?thesis using do_cmd_invariant [OF idle_os_mem _ d] d by simp
qed

text \<open>C22. Without a login no command reaches a file: on two systems that differ only in their file system
  calls, every command line of a session that is not logged in has the same effect.\<close>

theorem do_cmd_no_files:
  assumes "\<not> logged_in (w_login w)"
  shows "do_cmd (core_pool n) (os\<lparr>os_fs := fs\<rparr>) w = do_cmd (core_pool n) os w"
proof (cases "find_command (core_pool n) (cstr (c_line (w_command w))) :: 'a cmd_handler option")
  case (Some c)
  then have c: "c \<in> set core_command_list" by (simp add: core.search_iff)
  show ?thesis
  proof (cases "needs_login c")
    case True
    with Some assms show ?thesis by (simp add: do_cmd_def pre_command_then)
  next
    case False
    with Some open_handlers [OF c False] show ?thesis
      by (simp add: do_cmd_def pre_command_then)
  qed
qed (simp add: do_cmd_def)

theorem do_cmd_no_files_witness:
  "do_cmd (core_pool 32) (idle_os\<lparr>os_fs := os_fs outside_fs\<rparr>) (line_world ''RETR'')
    = do_cmd (core_pool 32) idle_os (line_world ''RETR'')"
  by (rule do_cmd_no_files) (simp add: idle_session_def)

end
