(* ===== verification/Ftp_Server.thy ===== *)
theory Ftp_Server
  imports Ftp_Command
begin

text \<open>
  \<open>server.c\<close>: a session from the accepted connection to its end. The control connection is a stream of
  bytes that arrives in pieces; \<open>read_cmd\<close> collects it in the line buffer, \<open>parse_cmd\<close> cuts the first
  line into a command word and an argument, and \<open>remove_cmd\<close> moves the rest to the front. The loops end
  when the client or a signal ends them: not returning is \<open>None\<close>.

  The contents of a fresh array are indeterminate in C; they are zero here, and the properties show
  that nothing depends on bytes that have not been received. The string \<open>arg\<close> points into the line in C;
  here it is a copy, and handlers that shorten it in place write only to the line being removed.
\<close>

subsection \<open>Creating and destroying a session\<close>

definition SIZEOF_SESSION :: nat where "SIZEOF_SESSION = 176"

text \<open>The \<open>user\<close> of a fresh session is never written.\<close>

definition fresh_session :: "int \<Rightarrow> int \<Rightarrow> in_addr \<Rightarrow> in_addr \<Rightarrow> ftp_session" where
  "fresh_session fd write_pipe client host = \<lparr>
     conn = \<lparr>master_pipe = write_pipe, sock = fd, pasv_sock = -1, data_sock = -1,
       host_addr = host, client_addr = client\<rparr>,
     command = \<lparr>c_line = replicate COMMAND_BUFFER_SIZE NUL, c_line_len = COMMAND_BUFFER_SIZE,
       c_dirty_len = 0, c_arg = '''', c_len = 0\<rparr>,
     login = \<lparr>logged_in = False, anonymous = False, user = Indeterminate\<rparr>,
     info = \<lparr>total_down = 0, total_up = 0, xfer_len = 0, probe_len = 0, xfer_status = FTP_SUCCESS,
       xfer_start = \<lparr>tv_sec = 0, tv_usec = 0\<rparr>, xfer_probe = \<lparr>tv_sec = 0, tv_usec = 0\<rparr>\<rparr>,
     virt_path = (replicate FTP_MAX_PATH NUL)[0 := SLASH],
     filename = replicate FTP_MAX_NAME NUL, restart_pos = 0\<rparr>"

definition new_session :: "'o os \<Rightarrow> int \<Rightarrow> int \<Rightarrow> 'o world \<Rightarrow> ftp_session option \<times> 'o world" where
  "new_session os fd write_pipe w = (case c_malloc os SIZEOF_SESSION w of
       (False, w) \<Rightarrow> (None, w)
     | (True, w) \<Rightarrow> (case os_call (sys_getpeername os fd) w of
           (Inl _, w) \<Rightarrow> (None, w)
         | (Inr client, w) \<Rightarrow> (case os_call (sys_getsockname os fd) w of
               (Inl _, w) \<Rightarrow> (None, w)
             | (Inr (host, _), w) \<Rightarrow> (case c_malloc os COMMAND_BUFFER_SIZE w of
                   (False, w) \<Rightarrow> (None, w)
                 | (True, w) \<Rightarrow> (case c_malloc os FTP_MAX_PATH w of
                       (False, w) \<Rightarrow> (None, w)
                     | (True, w) \<Rightarrow> (case c_malloc os FTP_MAX_NAME w of
                           (False, w) \<Rightarrow> (None, w)
                         | (True, w) \<Rightarrow> (Some (fresh_session fd write_pipe client host), w)))))))"

text \<open>\<open>free\<close> of an indeterminate pointer is undefined.\<close>

definition destroy_session :: "'o os \<Rightarrow> 'o world \<Rightarrow> 'o world option" where
  "destroy_session os w = (let
     w = (if pasv_sock (w_conn w) \<noteq> -1 then c_close os (pasv_sock (w_conn w)) w else w)
   in case user (w_login w) of Indeterminate \<Rightarrow> None | _ \<Rightarrow> Some w)"

subsection \<open>Reading a command\<close>

definition memchr :: "buf \<Rightarrow> char \<Rightarrow> nat \<Rightarrow> nat option" where
  "memchr b c n = (let i = length (takeWhile (\<lambda>x. x \<noteq> c) (take n b))
     in if i < length (take n b) then Some i else None)"

text \<open>The result and the bytes received.\<close>

definition read_poll :: "'o os \<Rightarrow> int \<Rightarrow> nat \<Rightarrow> 'o world \<Rightarrow> (int \<times> char list) \<times> 'o world" where
  "read_poll os fd mx w = (case os_call (sys_poll os fd (cfg_idle_timeout (w_config w))) w of
       (Inl e, w) \<Rightarrow> (case (if e = EINTR then server_handle_signal os w else (FTP_SUCCESS, w)) of
           (sig, w) \<Rightarrow> ((if sig = FTP_QUIT then 0 else -1, []), w))
     | (Inr n, w) \<Rightarrow>
         if n = 0 then ((0, []), w)
         else (case os_call (sys_recv os fd mx) w of
             (Inl e, w) \<Rightarrow> (case (if e = EINTR then server_handle_signal os w else (FTP_SUCCESS, w)) of
                 (sig, w) \<Rightarrow> ((if sig = FTP_QUIT \<or> e = ECONNRESET then 0 else -1, []), w))
           | (Inr bs, w) \<Rightarrow> ((int (length bs), bs), w)))"

partial_function (option) read_cmd :: "'o os \<Rightarrow> 'o world \<Rightarrow> (int \<times> 'o world) option" where
  "read_cmd os w =
     (if memchr (c_line (w_command w)) LF (c_dirty_len (w_command w)) \<noteq> None then Some (FTP_SUCCESS, w)
      else (case read_poll os (sock (w_conn w)) (c_line_len (w_command w) - c_dirty_len (w_command w)) w of
          ((len, bs), w) \<Rightarrow>
            if len = 0 then Some (FTP_QUIT, w)
            else if len = -1
            then (if w_errno w = EINTR
                  then (case server_handle_signal os w of (sig, w) \<Rightarrow>
                    if sig = FTP_QUIT then Some (FTP_QUIT, w) else read_cmd os w)
                  else Some (FTP_ERROR, w))
            else (case blit (c_line (w_command w)) (c_dirty_len (w_command w)) bs of
                None \<Rightarrow> None
              | Some b \<Rightarrow>
                  (let w = upd_command (\<lambda>c. c\<lparr>c_line := b, c_dirty_len := c_dirty_len c + length bs\<rparr>) w
                   in if c_dirty_len (w_command w) \<ge> c_line_len (w_command w)
                      then do { (_, w) \<leftarrow> say os ''421 Command line too long'' w; Some (FTP_QUIT, w) }
                      else read_cmd os w))))"

declare read_cmd.simps [code]

subsection \<open>Parsing and removing it\<close>

definition cut_cr :: "buf \<Rightarrow> nat \<Rightarrow> buf" where
  "cut_cr b bufend = (if bufend \<noteq> 0 \<and> b ! (bufend - 1) = CR then b[bufend - 1 := NUL] else b)"

definition parse_cmd :: "'o world \<Rightarrow> int \<times> 'o world" where
  "parse_cmd w = (let b = c_line (w_command w) in
     case memchr b LF (c_line_len (w_command w)) of
       None \<Rightarrow> (FTP_ERROR, w)
     | Some bufend \<Rightarrow>
         (let b = cut_cr (b[bufend := NUL]) bufend;
              cmdend = memchr (cstr b) SPC (length (cstr b));
              (b, argument) = (case cmdend of Some i \<Rightarrow> (b[i := NUL], i + 1) | None \<Rightarrow> (b, bufend));
              arg = dropWhile isspace (cstr (drop argument b))
          in (FTP_SUCCESS, upd_command (\<lambda>c. c\<lparr>c_line := b, c_len := bufend + 1, c_arg := arg\<rparr>) w)))"

definition remove_cmd :: "'o world \<Rightarrow> int \<times> 'o world" where
  "remove_cmd w = (let c = w_command w in
     if c_len c = c_dirty_len c then (FTP_SUCCESS, upd_command (\<lambda>c. c\<lparr>c_dirty_len := 0\<rparr>) w)
     else (FTP_SUCCESS, upd_command (\<lambda>c. c\<lparr>
       c_line := drop (c_len c) (take (c_line_len c) (c_line c)) @ drop (c_line_len c - c_len c) (c_line c),
       c_dirty_len := (if c_len c \<le> c_dirty_len c then c_dirty_len c - c_len c
                       else 2 ^ 64 + c_dirty_len c - c_len c)\<rparr>) w))"

subsection \<open>The main loop\<close>

partial_function (option) serve :: "'o cmd_pool \<Rightarrow> 'o os \<Rightarrow> 'o world \<Rightarrow> (int \<times> 'o world) option" where
  "serve p os w = (case read_cmd os w of
       None \<Rightarrow> None
     | Some (ret, w) \<Rightarrow>
         if ret \<noteq> FTP_SUCCESS then Some (ret, w)
         else (case parse_cmd w of (ret, w) \<Rightarrow>
           if ret \<noteq> FTP_SUCCESS then Some (ret, w)
           else (case do_cmd p os w of
               None \<Rightarrow> None
             | Some (ret, w) \<Rightarrow>
                 if ret \<noteq> FTP_SUCCESS then Some (ret, w)
                 else (case remove_cmd w of (ret, w) \<Rightarrow>
                   if ret \<noteq> FTP_SUCCESS then Some (ret, w) else serve p os w))))"

declare serve.simps [code]

definition ftp_main :: "'o cmd_pool \<Rightarrow> 'o os \<Rightarrow> int \<Rightarrow> int \<Rightarrow> 'o world \<Rightarrow> (int \<times> 'o world) option" where
  "ftp_main p os fd write_pipe w = (case init_reply_pool os w of (ret, w) \<Rightarrow>
     if ret \<noteq> FTP_SUCCESS then Some (1, w)
     else (case new_session os fd write_pipe w of
         (None, w) \<Rightarrow> Some (1, destroy_reply_pool w)
       | (Some session, w) \<Rightarrow> do {
           let w = w\<lparr>w_session := session\<rparr>;
           (_, w) \<leftarrow> say os ''220 Welcome'' w;
           (_, w) \<leftarrow> serve p os w;
           (_, w) \<leftarrow> say os ''421 Goodbye!'' w;
           w \<leftarrow> destroy_session os (destroy_reply_pool (destroy_vfs_pool (destroy_state_pool w)));
           Some (1, w) }))"

subsection \<open>What one round of the loop keeps\<close>

text \<open>As \<open>keeps\<close>, but the line buffer moves.\<close>

definition served :: "'o world \<Rightarrow> 'o world \<Rightarrow> bool" where
  "served w w' \<longleftrightarrow> (session_ok w \<longrightarrow> session_ok w') \<and> w_config w' = w_config w
     \<and> fst (wires w') = fst (wires w)
     \<and> (logged_in (w_login w) \<longrightarrow> logged_in (w_login w') \<and> vfs_root w' = vfs_root w)"

lemma served_refl [simp]: "served w w"
  by (simp add: served_def)

lemma served_trans: "served u v \<Longrightarrow> served v w \<Longrightarrow> served u w"
  by (simp add: served_def)

interpretation served: frame_relation served
  by unfold_locales (auto intro: served_trans)

lemma keeps_served: "keeps w w' \<Longrightarrow> served w w'"
  by (simp add: keeps_def served_def)

lemma quiet_served: "quiet w w' \<Longrightarrow> served w w'"
  by (rule keeps_served [OF quiet_keeps])

lemma served_upd_command:
  "(session_ok w \<Longrightarrow> command_ok (f (w_command w))) \<Longrightarrow> served w (upd_command f w)"
  by (simp add: served_def session_ok_def paths_ok_def wires_def upd_command_def upd_session_def
      vfs_inv_def state_inv_def vfs_ok_def state_pool_ok_def reply_pool_ok_def vfs_root_def)

lemma session_command: "session_ok w \<Longrightarrow> command_ok (w_command w)"
  by (simp add: session_ok_def)

lemma read_poll_quiet [frame]:
  assumes "read_poll os fd n w = (r, w')" shows "quiet w w'"
proof -
  obtain x w1 where p: "os_call (sys_poll os fd (cfg_idle_timeout (w_config w))) w = (x, w1)" by force
  have q: "quiet w w1" by (rule os_call_quiet [OF p])
  have sig: "quiet u v" if "(if e = EINTR then server_handle_signal os u else (FTP_SUCCESS, u)) = (s, v)" for e u v s
    using that by (auto split: if_splits dest: server_handle_signal_quiet)
  show ?thesis
  proof (cases x)
    case (Inl e)
    with assms p have "quiet w1 w'" by (auto simp: read_poll_def split: prod.splits intro: sig)
    with q show ?thesis by (rule quiet_trans)
  next
    case (Inr k)
    obtain y w2 where r: "os_call (sys_recv os fd n) w1 = (y, w2)" by force
    have "quiet w1 w'"
    proof (cases "k = 0")
      case False
      have "quiet w2 w'" using assms p Inr r False
        by (cases y) (auto simp: read_poll_def split: prod.splits intro: sig)
      with os_call_quiet [OF r] show ?thesis by (rule quiet_trans)
    qed (use assms p Inr in \<open>simp add: read_poll_def\<close>)
    with q show ?thesis by (rule quiet_trans)
  qed
qed

text \<open>A command that was read has its newline among the received bytes.\<close>

definition has_line :: "'o world \<Rightarrow> bool" where
  "has_line w \<longleftrightarrow> memchr (c_line (w_command w)) LF (c_dirty_len (w_command w)) \<noteq> None"

lemma read_cmd_served_line:
  assumes "read_cmd os w = Some (r, w')"
  shows "served w w' \<and> (r = FTP_SUCCESS \<longrightarrow> has_line w')"
proof -
  have "served w (snd (r, w')) \<and> (fst (r, w') = FTP_SUCCESS \<longrightarrow> has_line (snd (r, w')))"
  proof (rule read_cmd.raw_induct
      [where P = "\<lambda>os w x. served w (snd x) \<and> (fst x = FTP_SUCCESS \<longrightarrow> has_line (snd x))", OF _ assms])
    fix f and os :: "'a os" and w :: "'a world" and x
    assume IH: "\<And>os w x. f os w = Some x \<Longrightarrow> served w (snd x) \<and> (fst x = FTP_SUCCESS \<longrightarrow> has_line (snd x))"
      and eq: "(if memchr (c_line (w_command w)) LF (c_dirty_len (w_command w)) \<noteq> None then Some (FTP_SUCCESS, w)
        else (case read_poll os (sock (w_conn w)) (c_line_len (w_command w) - c_dirty_len (w_command w)) w of
          ((len, bs), w) \<Rightarrow>
            if len = 0 then Some (FTP_QUIT, w)
            else if len = -1
            then (if w_errno w = EINTR
                  then (case server_handle_signal os w of (sig, w) \<Rightarrow>
                    if sig = FTP_QUIT then Some (FTP_QUIT, w) else f os w)
                  else Some (FTP_ERROR, w))
            else (case blit (c_line (w_command w)) (c_dirty_len (w_command w)) bs of
                None \<Rightarrow> None
              | Some b \<Rightarrow>
                  (let w = upd_command (\<lambda>c. c\<lparr>c_line := b, c_dirty_len := c_dirty_len c + length bs\<rparr>) w
                   in if c_dirty_len (w_command w) \<ge> c_line_len (w_command w)
                      then do { (_, w) \<leftarrow> say os ''421 Command line too long'' w; Some (FTP_QUIT, w) }
                      else f os w)))) = Some x"
    obtain len bs w1 where p: "read_poll os (sock (w_conn w)) (c_line_len (w_command w) - c_dirty_len (w_command w)) w
        = ((len, bs), w1)" by (metis surj_pair)
    obtain sig w2 where h: "server_handle_signal os w1 = (sig, w2)" by force
    have q1: "served w w1" by (rule quiet_served [OF read_poll_quiet [OF p]])
    have q2: "served w w2" by (rule served_trans [OF q1 quiet_served [OF server_handle_signal_quiet [OF h]]])
    show "served w (snd x) \<and> (fst x = FTP_SUCCESS \<longrightarrow> has_line (snd x))"
    proof (cases "memchr (c_line (w_command w)) LF (c_dirty_len (w_command w)) = None")
      case none: True
      show ?thesis
      proof (cases "len = 0 \<or> len = -1")
        case True
        show ?thesis
        proof (cases "len = -1 \<and> w_errno w1 = EINTR")
          case sig: True
          with eq none p h have "(if sig = FTP_QUIT then Some (FTP_QUIT, w2) else f os w2) = Some x" by simp
          with served_trans [OF q2, of "snd x"] IH [of os w2 x] q2 show ?thesis by (cases "sig = FTP_QUIT") auto
        next
          case False
          with True eq none p have "snd x = w1 \<and> fst x \<noteq> FTP_SUCCESS" by auto
          with q1 show ?thesis by simp
        qed
      next
        case False
        obtain b where b: "blit (c_line (w_command w1)) (c_dirty_len (w_command w1)) bs = Some b"
          using eq none p False by (cases "blit (c_line (w_command w1)) (c_dirty_len (w_command w1)) bs") auto
        let ?v = "upd_command (\<lambda>c. c\<lparr>c_line := b, c_dirty_len := c_dirty_len c + length bs\<rparr>) w1"
        have v: "served w ?v"
          by (rule served_trans [OF q1 served_upd_command])
             (use b in \<open>auto simp: command_ok_def blit_Some_iff dest!: session_command\<close>)
        have e: "(if c_dirty_len (w_command ?v) \<ge> c_line_len (w_command ?v)
            then do { (_, w) \<leftarrow> say os ''421 Command line too long'' ?v; Some (FTP_QUIT, w) }
            else f os ?v) = Some x"
          using eq none p False b by (simp add: Let_def)
        have "served ?v (snd x) \<and> (fst x = FTP_SUCCESS \<longrightarrow> has_line (snd x))"
        proof (cases "c_dirty_len (w_command ?v) \<ge> c_line_len (w_command ?v)")
          case True
          with e obtain n u where "say os ''421 Command line too long'' ?v = Some (n, u)" "x = (FTP_QUIT, u)"
            by (auto elim!: bind_SomeE)
          then show ?thesis by (auto simp: say_def dest!: reply_quiet intro: quiet_served)
        next
          case False
          with e have "f os ?v = Some x" by simp
          then show ?thesis by (rule IH)
        qed
        with served_trans [OF v] show ?thesis by blast
      qed
    qed (use eq in \<open>auto simp: has_line_def\<close>)
  qed
  then show ?thesis by simp
qed

lemmas read_cmd_served = conjunct1 [OF read_cmd_served_line]
lemmas read_cmd_newline = mp [OF conjunct2 [OF read_cmd_served_line] refl]

lemma memchr_Some:
  assumes "memchr b c n = Some i"
  shows "i < n" and "i < length b" and "b ! i = c" and "\<And>j. j < i \<Longrightarrow> b ! j \<noteq> c"
proof -
  have i: "i = length (takeWhile (\<lambda>x. x \<noteq> c) (take n b))" "i < length (take n b)"
    using assms by (auto simp: memchr_def Let_def split: if_splits)
  then show "i < n" "i < length b" by simp_all
  show "b ! i = c" using i nth_length_takeWhile [of "\<lambda>x. x \<noteq> c" "take n b"] by simp
  show "b ! j \<noteq> c" if "j < i" for j
  proof -
    have "takeWhile (\<lambda>x. x \<noteq> c) (take n b) ! j = take n b ! j" using that i by (intro takeWhile_nth) simp
    moreover have "takeWhile (\<lambda>x. x \<noteq> c) (take n b) ! j \<in> set (takeWhile (\<lambda>x. x \<noteq> c) (take n b))"
      using that i by (intro nth_mem) simp
    ultimately show ?thesis using that i by (auto dest: set_takeWhileD)
  qed
qed

lemma memchr_None: "memchr b c n = None \<longleftrightarrow> c \<notin> set (take n b)"
proof -
  have "length (takeWhile (\<lambda>x. x \<noteq> c) xs) < length xs \<longleftrightarrow> c \<in> set xs" for xs
    by (induction xs) auto
  from this [of "take n b"] show ?thesis by (auto simp: memchr_def Let_def simp del: length_take)
qed

lemma nul_free_dropWhile [simp]: "nul_free s \<Longrightarrow> nul_free (dropWhile P s)"
  by (auto simp: nul_free_def dest: set_dropWhileD)

lemma parse_cmd_served: "parse_cmd w = (r, w') \<Longrightarrow> served w w'"
  by (auto simp: parse_cmd_def Let_def cut_cr_def case_prod_beta command_ok_def Suc_le_eq
      split: option.splits intro!: served_upd_command dest!: session_command memchr_Some(1))

lemma remove_cmd_served:
  assumes "remove_cmd w = (r, w')" and "c_len (w_command w) \<le> c_dirty_len (w_command w)"
  shows "served w w'"
  using assms
  by (auto simp: remove_cmd_def Let_def command_ok_def
      split: if_splits intro!: served_upd_command dest!: session_command)

lemma memchr_first:
  assumes "memchr b c n = Some i" and "n \<le> m" shows "memchr b c m = Some i"
proof -
  note m = memchr_Some [OF assms(1)]
  have "c \<in> set (take m b)" using m(1-3) assms(2) by (auto simp: in_set_conv_nth)
  then obtain k where k: "memchr b c m = Some k" using memchr_None by fastforce
  have "k = i" using memchr_Some [OF k] m by (metis nat_neq_iff)
  with k show ?thesis by simp
qed

lemma parse_cmd_len:
  assumes "parse_cmd w = (FTP_SUCCESS, w')"
    and "has_line w" and "c_dirty_len (w_command w) \<le> c_line_len (w_command w)"
  shows "c_len (w_command w') \<le> c_dirty_len (w_command w')"
proof -
  obtain i where i: "memchr (c_line (w_command w)) LF (c_dirty_len (w_command w)) = Some i" using assms(2) unfolding has_line_def by blast
  have "memchr (c_line (w_command w)) LF (c_line_len (w_command w)) = Some i"
    by (rule memchr_first [OF i assms(3)])
  then have "c_len (w_command w') = i + 1" "c_dirty_len (w_command w') = c_dirty_len (w_command w)"
    using assms(1) by (auto simp: parse_cmd_def Let_def case_prod_beta upd_command_def upd_session_def)
  with memchr_Some(1) [OF i] show ?thesis by simp
qed

subsection \<open>Sessions as runs of a step relation\<close>

text \<open>One round of the loop that goes on: the state at its top before and after.\<close>

inductive session_step :: "'o cmd_pool \<Rightarrow> 'o os \<Rightarrow> 'o world \<Rightarrow> 'o world \<Rightarrow> bool" for p os where
  round: "read_cmd os w = Some (FTP_SUCCESS, w1) \<Longrightarrow> parse_cmd w1 = (FTP_SUCCESS, w2) \<Longrightarrow>
    do_cmd p os w2 = Some (FTP_SUCCESS, w3) \<Longrightarrow> remove_cmd w3 = (FTP_SUCCESS, w4) \<Longrightarrow> session_step p os w w4"

inductive_cases session_stepE: "session_step p os w w'"

lemma session_step_served:
  assumes mem: "mem_ok os" and ok: "session_ok w" and step: "session_step (core_pool n) os w w'"
  shows "served w w'"
  using step
proof (cases rule: session_step.cases)
  case (round w1 w2 w3)
  have s1: "served w w1" by (rule read_cmd_served [OF round(1)])
  have s2: "served w w2" by (rule served_trans [OF s1 parse_cmd_served [OF round(2)]])
  have ok1: "session_ok w1" and ok2: "session_ok w2" using s1 s2 ok by (simp_all add: served_def)
  have k: "keeps w2 w3" by (rule do_cmd.handler_ok(2) [OF mem ok2 round(3)])
  have "c_dirty_len (w_command w1) \<le> c_line_len (w_command w1)"
    using session_command [OF ok1] by (simp add: command_ok_def)
  then have "c_len (w_command w2) \<le> c_dirty_len (w_command w2)"
    by (rule parse_cmd_len [OF round(2) read_cmd_newline [OF round(1)]])
  then have "c_len (w_command w3) \<le> c_dirty_len (w_command w3)"
    using keepsD(3) [OF k] by (simp add: wires_def)
  then have "served w3 w'" by (rule remove_cmd_served [OF round(4)])
  with s2 keeps_served [OF k] show ?thesis by (blast intro: served_trans)
qed

interpretation session: step_invariant "session_step (core_pool n) os" "\<lambda>w. mem_ok os \<and> session_ok w" for n os
  by unfold_locales (auto dest: session_step_served simp: served_def)

interpretation login: step_invariant "session_step (core_pool n) os"
    "\<lambda>w. mem_ok os \<and> session_ok w \<and> logged_in (w_login w) \<and> vfs_root w = root" for n os root
  by unfold_locales (auto dest: session_step_served simp: served_def)

subsection \<open>The command line as a stream\<close>

text \<open>
  A system that delivers the client's bytes in order, in pieces of any size: a poll finds the socket
  readable and \<open>recv\<close> takes at least one byte while there are any.
\<close>

definition delivers :: "'o os \<Rightarrow> int \<Rightarrow> ('o \<Rightarrow> char list) \<Rightarrow> bool" where
  "delivers os fd incoming \<longleftrightarrow>
     (\<forall>t s. \<exists>n s'. sys_poll os fd t s = (Inr n, s') \<and> 0 < n \<and> incoming s' = incoming s)
   \<and> (\<forall>n s. 0 < n \<and> incoming s \<noteq> [] \<longrightarrow> (\<exists>k s'. 0 < k \<and> k \<le> n \<and> k \<le> length (incoming s)
        \<and> sys_recv os fd n s = (Inr (take k (incoming s)), s') \<and> incoming s' = drop k (incoming s)))"

text \<open>The bytes not yet taken as commands: those in the line buffer, then those still to arrive.\<close>

definition pending :: "('o \<Rightarrow> char list) \<Rightarrow> 'o world \<Rightarrow> char list" where
  "pending incoming w = take (c_dirty_len (w_command w)) (c_line (w_command w)) @ incoming (w_os w)"

text \<open>What collecting and parsing a line leaves alone.\<close>

definition line_only :: "'o world \<Rightarrow> 'o world \<Rightarrow> bool" where
  "line_only w w' \<longleftrightarrow> w_out w' = w_out w \<and> w_conn w' = w_conn w \<and> w_login w' = w_login w
     \<and> w_config w' = w_config w \<and> w_reply_pool w' = w_reply_pool w \<and> w_cwd w' = w_cwd w"

lemma line_only_refl [simp]: "line_only w w"
  by (simp add: line_only_def)

lemma line_only_trans: "line_only u v \<Longrightarrow> line_only v w \<Longrightarrow> line_only u w"
  by (simp add: line_only_def)

lemma line_only_command: "line_only w (upd_command f w)"
  by (simp add: line_only_def upd_command_def upd_session_def)

lemma read_poll_delivers:
  assumes d: "delivers os fd incoming" and n: "0 < n" and ne: "incoming (w_os w) \<noteq> []"
  obtains k w' where "read_poll os fd n w = ((int k, take k (incoming (w_os w))), w')"
    and "0 < k" and "k \<le> n" and "k \<le> length (incoming (w_os w))"
    and "incoming (w_os w') = drop k (incoming (w_os w))" and "w_session w' = w_session w" and "line_only w w'"
proof -
  obtain m s1 where p: "sys_poll os fd (cfg_idle_timeout (w_config w)) (w_os w) = (Inr m, s1)" "0 < m"
    "incoming s1 = incoming (w_os w)" using d unfolding delivers_def by meson
  obtain k s2 where r: "0 < k" "k \<le> n" "k \<le> length (incoming s1)"
    "sys_recv os fd n s1 = (Inr (take k (incoming s1)), s2)" "incoming s2 = drop k (incoming s1)"
    using d n ne p(3) unfolding delivers_def by metis
  show thesis
    by (rule that [of k "w\<lparr>w_os := s2\<rparr>"]) (use p r in \<open>simp_all add: read_poll_def os_call_def line_only_def min_absorb2\<close>)
qed

lemma has_line_prefix:
  "c_dirty_len (w_command w) \<le> length (c_line (w_command w)) \<Longrightarrow>
     has_line w \<longleftrightarrow> LF \<in> set (take (c_dirty_len (w_command w)) (c_line (w_command w)))"
  using memchr_None [of "c_line (w_command w)" LF "c_dirty_len (w_command w)"] by (auto simp: has_line_def)

lemma read_cmd_stream:
  assumes d: "delivers os (sock (w_conn w)) incoming" and "command_ok (w_command w)"
    and "LF \<in> set (pending incoming w)" and "length (pending incoming w) < COMMAND_BUFFER_SIZE"
  shows "\<exists>w'. read_cmd os w = Some (FTP_SUCCESS, w') \<and> has_line w' \<and> command_ok (w_command w')
    \<and> pending incoming w' = pending incoming w \<and> line_only w w'"
  using assms
proof (induction "length (incoming (w_os w))" arbitrary: w rule: less_induct)
  case less
  let ?c = "w_command w"
  note ok = less.prems(2) [unfolded command_ok_def]
  show ?case
  proof (cases "has_line w")
    case True
    then have "read_cmd os w = Some (FTP_SUCCESS, w)" by (simp add: read_cmd.simps has_line_def)
    with True less.prems show ?thesis using line_only_refl by blast
  next
    case False
    then have "LF \<notin> set (take (c_dirty_len ?c) (c_line ?c))" using has_line_prefix [of w] ok by simp
    then have ne: "incoming (w_os w) \<noteq> []" using less.prems(3) by (auto simp: pending_def)
    have room: "c_dirty_len ?c + length (incoming (w_os w)) < COMMAND_BUFFER_SIZE"
      using less.prems(4) ok by (simp add: pending_def)
    have "0 < c_line_len ?c - c_dirty_len ?c" using room ok by simp
    then obtain k w1 where r: "read_poll os (sock (w_conn w)) (c_line_len ?c - c_dirty_len ?c) w
        = ((int k, take k (incoming (w_os w))), w1)" "0 < k" "k \<le> length (incoming (w_os w))"
      "incoming (w_os w1) = drop k (incoming (w_os w))" "w_session w1 = w_session w" "line_only w w1"
      using read_poll_delivers [OF less.prems(1) _ ne] by metis
    let ?bs = "take k (incoming (w_os w))"
    define b where "b = take (c_dirty_len ?c) (c_line ?c) @ ?bs @ drop (c_dirty_len ?c + k) (c_line ?c)"
    have b: "blit (c_line ?c) (c_dirty_len ?c) ?bs = Some b"
      using room ok r(3) by (simp add: blit_def b_def min_absorb2)
    have lb: "length b = COMMAND_BUFFER_SIZE" using length_blit [OF b] ok by simp
    define v where "v = upd_command (\<lambda>c. c\<lparr>c_line := b, c_dirty_len := c_dirty_len c + k\<rparr>) w1"
    have v: "w_command v = ?c\<lparr>c_line := b, c_dirty_len := c_dirty_len ?c + k\<rparr>" "w_os v = w_os w1" "w_conn v = w_conn w"
      using r(5) by (simp_all add: v_def upd_command_def upd_session_def)
    have step: "read_cmd os w = read_cmd os v"
      using False r b room ok v
      by (subst read_cmd.simps) (simp add: has_line_def Let_def min_absorb2 flip: v_def)
    have pend: "pending incoming v = pending incoming w"
      using ok room r(3,4) by (simp add: pending_def v b_def min_absorb2)
    have cok: "command_ok (w_command v)" using ok lb room r(3) by (simp add: command_ok_def v)
    have "length (incoming (w_os v)) < length (incoming (w_os w))" using r(2,3,4) v(2) ne by simp
    moreover have "line_only w v" unfolding v_def by (rule line_only_trans [OF r(6) line_only_command])
    ultimately show ?thesis
      using less.hyps [of v] less.prems cok pend v(3) step line_only_trans by fastforce
  qed
qed

text \<open>What a line means: the word before the first blank, and the argument after it without leading
  white space. A carriage return at the end of the line is not part of it.\<close>

definition line_text :: "string \<Rightarrow> string" where
  "line_text l = (if l \<noteq> [] \<and> last l = CR then butlast l else l)"

definition line_word :: "string \<Rightarrow> string" where
  "line_word l = takeWhile (\<lambda>c. c \<noteq> SPC) (line_text l)"

definition line_arg :: "string \<Rightarrow> string" where
  "line_arg l = dropWhile isspace (drop 1 (dropWhile (\<lambda>c. c \<noteq> SPC) (line_text l)))"

lemma takeWhile_before [simp]: "c \<notin> set u \<Longrightarrow> takeWhile (\<lambda>x. x \<noteq> c) (u @ c # r) = u"
  by (induction u) auto

lemma dropWhile_before [simp]: "c \<notin> set u \<Longrightarrow> dropWhile (\<lambda>x. x \<noteq> c) (u @ c # r) = c # r"
  by (induction u) auto

lemma takeWhile_absent: "c \<notin> set u \<Longrightarrow> takeWhile (\<lambda>x. x \<noteq> c) u = u \<and> dropWhile (\<lambda>x. x \<noteq> c) u = []"
  by (induction u) auto

lemma memchr_prefix: "c \<notin> set u \<Longrightarrow> length u < n \<Longrightarrow> memchr (u @ c # r) c n = Some (length u)"
proof -
  assume c: "c \<notin> set u" "length u < n"
  then have "take n (u @ c # r) = u @ c # take (n - Suc (length u)) r"
    by (simp add: take_Cons')
  with c show ?thesis by (simp add: memchr_def Let_def)
qed

lemma drop_next: "drop n xs = y # ys \<Longrightarrow> drop (n + 1) xs = ys"
  using drop_drop [of 1 n xs] by simp

lemma cut_cr_line:
  assumes "nul_free l"
  shows "\<exists>r'. cut_cr (l @ NUL # r) (length l) = line_text l @ NUL # r' \<and> nul_free (line_text l)
    \<and> drop (length l) (line_text l @ NUL # r') = NUL # r"
proof (cases "l \<noteq> [] \<and> last l = CR")
  case True
  then obtain t where t: "l = t @ [CR]" by (metis append_butlast_last_id)
  have "(t @ CR # NUL # r)[length t := NUL] = t @ NUL # NUL # r" by simp
  with t assms show ?thesis by (intro exI [of _ "NUL # r"]) (simp add: cut_cr_def line_text_def nth_append)
next
  case False
  have "cut_cr (l @ NUL # r) (length l) = l @ NUL # r"
  proof (cases l rule: rev_cases)
    case (snoc t c)
    with False show ?thesis by (simp add: cut_cr_def nth_append)
  qed (simp add: cut_cr_def)
  with False assms show ?thesis by (auto simp: line_text_def)
qed

lemma parse_cmd_line:
  assumes line: "c_line (w_command w) = l @ LF # r" and l: "LF \<notin> set l" "nul_free l"
    and len: "length l < c_line_len (w_command w)"
  shows "\<exists>b. parse_cmd w = (FTP_SUCCESS, upd_command (\<lambda>c. c\<lparr>c_line := b, c_len := length l + 1,
      c_arg := line_arg l\<rparr>) w) \<and> length b = length (c_line (w_command w))
    \<and> cstr b = line_word l \<and> drop (length l + 1) b = r"
proof -
  let ?t = "line_text l"
  have m: "memchr (c_line (w_command w)) LF (c_line_len (w_command w)) = Some (length l)"
    unfolding line by (rule memchr_prefix [OF l(1) len])
  have nl: "(l @ LF # r)[length l := NUL] = l @ NUL # r" by simp
  obtain r' where c: "cut_cr (l @ NUL # r) (length l) = ?t @ NUL # r'" "nul_free ?t"
    "drop (length l) (?t @ NUL # r') = NUL # r" using cut_cr_line [OF l(2)] by blast
  have s: "cstr (?t @ NUL # r') = ?t" using c(2) by simp
  have lenc: "length (cut_cr x n) = length x" for x n by (simp add: cut_cr_def)
  have tl: "length (?t @ NUL # r') = length (c_line (w_command w))"
    using lenc [of "l @ NUL # r" "length l"] c(1) line by simp
  show ?thesis
  proof (cases "SPC \<in> set ?t")
    case False
    then have "memchr ?t SPC (length ?t) = None" by (simp add: memchr_None)
    moreover have "line_word l = ?t" "line_arg l = []"
      using takeWhile_absent [OF False] by (simp_all add: line_word_def line_arg_def del: dropWhile_eq_Nil_conv takeWhile_eq_all_conv)
    moreover have "drop (length l + 1) (?t @ NUL # r') = r"
      by (rule drop_next [OF c(3)])
    ultimately show ?thesis
      using m nl c(1,3) s tl line
      by (intro exI [of _ "?t @ NUL # r'"]) (simp add: parse_cmd_def Let_def)
  next
    case True
    then obtain u v where v: "?t = u @ SPC # v" "SPC \<notin> set u" using split_list_first by metis
    define b where "b = (?t @ NUL # r')[length u := NUL]"
    have b: "b = u @ NUL # v @ NUL # r'" by (simp add: b_def v(1))
    have "memchr ?t SPC (length ?t) = Some (length u)"
      using memchr_prefix [OF v(2), of "length ?t" v] v(1) by simp
    then have p: "parse_cmd w = (FTP_SUCCESS, upd_command (\<lambda>c. c\<lparr>c_line := b, c_len := length l + 1,
        c_arg := dropWhile isspace (cstr (drop (length u + 1) b))\<rparr>) w)"
      using m nl c(1) s line by (simp add: parse_cmd_def Let_def b_def)
    have n: "nul_free u" "nul_free v" using c(2) v(1) by simp_all
    have "length ?t \<le> length l" by (simp add: line_text_def)
    then have "length u < length l + 1" using v(1) by simp
    then have "drop (length l + 1) b = drop (length l + 1) (?t @ NUL # r')"
      unfolding b_def by (rule drop_update_cancel)
    also have "\<dots> = r" by (rule drop_next [OF c(3)])
    finally have "drop (length l + 1) b = r" .
    moreover have "cstr b = line_word l" using n v by (simp add: b line_word_def)
    moreover have "dropWhile isspace (cstr (drop (length u + 1) b)) = line_arg l"
      using n v by (simp add: b line_arg_def)
    moreover have "length b = length (c_line (w_command w))" using tl by (simp add: b_def)
    ultimately show ?thesis using p by auto
  qed
qed

lemma first_split_eq: "u @ c # x = v @ c # y \<Longrightarrow> c \<notin> set u \<Longrightarrow> c \<notin> set v \<Longrightarrow> u = v \<and> x = y"
  by (metis append_eq_append_conv list.inject takeWhile_before)

lemma remove_cmd_pending:
  assumes "c_line (w_command w) = b" and "drop n b = m @ r" and "c_len (w_command w) = n"
    and "c_dirty_len (w_command w) = n + length m" and "c_line_len (w_command w) = length b"
  shows "pending incoming (snd (remove_cmd w)) = m @ incoming (w_os w)"
  using assms by (simp add: remove_cmd_def Let_def pending_def upd_command_def upd_session_def)

text \<open>Reading and parsing the first line: what is left of the received bytes is \<open>m\<close>.\<close>

lemma read_parse_line:
  assumes d: "delivers os (sock (w_conn w)) incoming" and ok: "command_ok (w_command w)"
    and p: "pending incoming w = l @ LF # rest" and l: "LF \<notin> set l" "nul_free l"
    and room: "length (pending incoming w) < COMMAND_BUFFER_SIZE"
  shows "\<exists>w1 w2 m r. read_cmd os w = Some (FTP_SUCCESS, w1) \<and> parse_cmd w1 = (FTP_SUCCESS, w2)
    \<and> cstr (c_line (w_command w2)) = line_word l \<and> w_arg w2 = line_arg l
    \<and> drop (length l + 1) (c_line (w_command w2)) = m @ r \<and> c_len (w_command w2) = length l + 1
    \<and> c_dirty_len (w_command w2) = length l + 1 + length m
    \<and> c_line_len (w_command w2) = length (c_line (w_command w2)) \<and> rest = m @ incoming (w_os w2) \<and> line_only w w2
    \<and> length (c_line (w_command w2)) = COMMAND_BUFFER_SIZE"
proof -
  have "LF \<in> set (pending incoming w)" using p by simp
  then obtain w1 where w1: "read_cmd os w = Some (FTP_SUCCESS, w1)" "has_line w1" "command_ok (w_command w1)"
    "pending incoming w1 = l @ LF # rest" "line_only w w1" using read_cmd_stream [OF d ok _ room] p by auto
  let ?c = "w_command w1"
  note ok1 = w1(3) [unfolded command_ok_def]
  have "LF \<in> set (take (c_dirty_len ?c) (c_line ?c))" using w1(2) has_line_prefix [of w1] ok1 by simp
  then obtain u m where um: "take (c_dirty_len ?c) (c_line ?c) = u @ LF # m" "LF \<notin> set u"
    using split_list_first by metis
  have "u @ LF # (m @ incoming (w_os w1)) = l @ LF # rest" using w1(4) um(1) by (simp add: pending_def)
  from first_split_eq [OF this um(2) l(1)] have u: "u = l" "rest = m @ incoming (w_os w1)" by simp_all
  have line: "c_line ?c = l @ LF # (m @ drop (c_dirty_len ?c) (c_line ?c))"
    using um(1) u(1) append_take_drop_id [of "c_dirty_len ?c" "c_line ?c"] by simp
  have dirty: "c_dirty_len ?c = length l + 1 + length m"
    using arg_cong [OF um(1), of length] u(1) ok1 by (simp add: min_absorb2)
  then have len: "length l < c_line_len ?c" using ok1 by simp
  obtain b where b: "parse_cmd w1 = (FTP_SUCCESS, upd_command (\<lambda>c. c\<lparr>c_line := b, c_len := length l + 1,
      c_arg := line_arg l\<rparr>) w1)" "length b = length (c_line ?c)" "cstr b = line_word l"
    "drop (length l + 1) b = m @ drop (c_dirty_len ?c) (c_line ?c)"
    using parse_cmd_line [OF line l len] by blast
  let ?w2 = "upd_command (\<lambda>c. c\<lparr>c_line := b, c_len := length l + 1, c_arg := line_arg l\<rparr>) w1"
  have "c_line_len ?c = length b" "length b = COMMAND_BUFFER_SIZE" using b(2) ok1 by simp_all
  then show ?thesis using w1(1) b(1,3,4) dirty u(2) line_only_trans [OF w1(5) line_only_command]
    by (intro exI [of _ w1] exI [of _ ?w2] exI [of _ m] exI [of _ "drop (c_dirty_len ?c) (c_line ?c)"])
       (simp add: upd_command_def upd_session_def)
qed

subsection \<open>Properties\<close>

text \<open>C10. Commands are the lines of the byte stream, however it is cut into packets: when the pending bytes
  begin with the line \<open>l\<close>, one round reads, whatever pieces \<open>recv\<close> delivers, exactly \<open>l\<close>: the word up to
  the first blank and the argument after it, a trailing carriage return dropped; and once a handler has
  run, removing the command leaves exactly the bytes after the line. (All pending bytes together must
  leave room in the buffer.)\<close>

theorem command_framing:
  assumes d: "delivers os (sock (w_conn w)) incoming" and ok: "command_ok (w_command w)"
    and p: "pending incoming w = l @ LF # rest" and l: "LF \<notin> set l" "nul_free l"
    and room: "length (pending incoming w) < COMMAND_BUFFER_SIZE"
  shows "\<exists>w1 w2. read_cmd os w = Some (FTP_SUCCESS, w1) \<and> parse_cmd w1 = (FTP_SUCCESS, w2)
    \<and> cstr (c_line (w_command w2)) = line_word l \<and> w_arg w2 = line_arg l
    \<and> (\<forall>w3. wires w3 = wires w2 \<and> incoming (w_os w3) = incoming (w_os w2) \<longrightarrow>
         pending incoming (snd (remove_cmd w3)) = rest)"
proof -
  obtain w1 w2 m r where r: "read_cmd os w = Some (FTP_SUCCESS, w1)" "parse_cmd w1 = (FTP_SUCCESS, w2)"
    "cstr (c_line (w_command w2)) = line_word l" "w_arg w2 = line_arg l"
    "drop (length l + 1) (c_line (w_command w2)) = m @ r" "c_len (w_command w2) = length l + 1"
    "c_dirty_len (w_command w2) = length l + 1 + length m"
    "c_line_len (w_command w2) = length (c_line (w_command w2))" "rest = m @ incoming (w_os w2)"
    using read_parse_line [OF assms] by blast
  have "pending incoming (snd (remove_cmd w3)) = rest"
    if "wires w3 = wires w2" "incoming (w_os w3) = incoming (w_os w2)" for w3 :: "'a world"
    using that r remove_cmd_pending [of w3 "c_line (w_command w2)" "length l + 1" m r incoming]
    by (simp add: wires_def)
  with r show ?thesis by blast
qed

definition trickle_os :: "char list os" where
  "trickle_os = idle_os\<lparr>os_net := idle_net
     \<lparr>net_poll := \<lambda>fd t s. (Inr 1, s), net_recv := \<lambda>fd n s. (Inr (take (min 1 n) s), drop (min 1 n) s)\<rparr>\<rparr>"

lemma trickle_delivers: "delivers trickle_os fd (\<lambda>s. s)"
  unfolding delivers_def
proof (intro conjI allI impI)
  fix n :: nat and s :: "char list"
  assume "0 < n \<and> s \<noteq> []"
  then show "\<exists>k s'. 0 < k \<and> k \<le> n \<and> k \<le> length s \<and> sys_recv trickle_os fd n s = (Inr (take k s), s') \<and> s' = drop k s"
    by (intro exI [of _ 1]) (cases s, auto simp: trickle_os_def idle_os_def idle_net_def)
qed (simp add: trickle_os_def idle_os_def idle_net_def)

text \<open>Byte by byte, with two more commands behind.\<close>

theorem command_framing_witness:
  "\<exists>w1 w2. read_cmd trickle_os (idle_world_at (''cwd  pub'' @ CRLF @ ''PWD'' @ [LF])) = Some (FTP_SUCCESS, w1)
    \<and> parse_cmd w1 = (FTP_SUCCESS, w2) \<and> cstr (c_line (w_command w2)) = ''cwd'' \<and> w_arg w2 = ''pub''
    \<and> (\<forall>w3. wires w3 = wires w2 \<and> w_os w3 = w_os w2 \<longrightarrow>
         pending (\<lambda>s. s) (snd (remove_cmd w3)) = ''PWD'' @ [LF])"
proof -
  let ?w = "idle_world_at (''cwd  pub'' @ CRLF @ ''PWD'' @ [LF])"
  have c: "command_ok (w_command ?w)" "pending (\<lambda>s. s) ?w = (''cwd  pub'' @ [CR]) @ LF # ''PWD'' @ [LF]"
    by (simp_all add: command_ok_def idle_session_def pending_def)
  have l: "line_word (''cwd  pub'' @ [CR]) = ''cwd''" "line_arg (''cwd  pub'' @ [CR]) = ''pub''"
    by (simp_all add: line_word_def line_arg_def line_text_def isspace_def)
  show ?thesis
    using command_framing [OF trickle_delivers c(1,2)] l c(2)
    by (simp add: COMMAND_BUFFER_SIZE_def nul_free_def)
qed

lemma fresh_session_ok:
  assumes "reply_pool_ok w" and "w_vfs w = None" and "w_state_pool w = None"
  shows "session_ok (w\<lparr>w_session := fresh_session fd pipe c h\<rparr>)"
  using assms canonical_root cstr_root
  by (simp add: session_ok_def paths_ok_def command_ok_def fresh_session_def vfs_inv_def state_inv_def
      reply_pool_ok_def FTP_MAX_NAME_def)

text \<open>C21. Every state at the top of the main loop is well-formed: whatever commands a new session has been
  sent, its working directory is a canonical path, its buffers have their sizes, its argument is a C
  string, and it is logged in only with a file system and a state buffer.\<close>

theorem session_reachable_ok:
  assumes "mem_ok os" and "reply_pool_ok w" and "w_vfs w = None" and "w_state_pool w = None"
    and "(session_step (core_pool n) os)\<^sup>*\<^sup>* (w\<lparr>w_session := fresh_session fd pipe client host\<rparr>) w'"
  shows "session_ok w'"
  using session.reachable_inv [OF assms(5)] assms(1) fresh_session_ok [OF assms(2-4)] by simp

definition new_world :: "'o \<Rightarrow> 'o world" where
  "new_world s = (idle_world_at s)\<lparr>w_vfs := None, w_session := fresh_session 4 5 [] []\<rparr>"

lemma trickle_ok: "sends_ok trickle_os" "mem_ok trickle_os"
  by (simp_all add: sends_ok_def mem_ok_def trickle_os_def idle_os_def idle_net_def idle_proc_def)

lemma noop_step:
  assumes c: "command_ok (w_command w)" "pending (\<lambda>s. s) w = (''NOOP'' @ [CR]) @ LF # []"
  shows "\<exists>w'. session_step (core_pool 32) trickle_os w w'"
proof -
  obtain w1 w2 where r: "read_cmd trickle_os w = Some (FTP_SUCCESS, w1)" "parse_cmd w1 = (FTP_SUCCESS, w2)"
    "cstr (c_line (w_command w2)) = ''NOOP''"
    using read_parse_line [OF trickle_delivers c] c(2)
    by (auto simp: COMMAND_BUFFER_SIZE_def nul_free_def line_word_def line_text_def)
  have f: "find_command (core_pool 32) ''NOOP'' = Some \<lparr>cmd_name = ''NOOP'', cmd_fun = donoop,
      needs_login = False, needs_data = False, needs_arg = False\<rparr>"
    by (simp add: find_command_find core_command_list_def strcasecmp_zero_iff casekey_def tolower_def byte_of_def)
  obtain w3 where w3: "do_cmd (core_pool 32) trickle_os w2 = Some (FTP_SUCCESS, w3)"
    by (simp add: do_cmd_def f r(3) pre_command_def donoop_def say_def reply_ok [OF trickle_ok(1)])
  have "remove_cmd w3 = (FTP_SUCCESS, snd (remove_cmd w3))" by (simp add: remove_cmd_def Let_def)
  from session_step.round [OF r(1,2) w3 this] show ?thesis by blast
qed

theorem session_reachable_ok_witness:
  "\<exists>w'. session_step (core_pool 32) trickle_os (new_world (''NOOP'' @ CRLF)) w' \<and> session_ok w'"
proof -
  have "command_ok (w_command (new_world (''NOOP'' @ CRLF)))"
    "pending (\<lambda>s. s) (new_world (''NOOP'' @ CRLF)) = (''NOOP'' @ [CR]) @ LF # []"
    by (simp_all add: new_world_def fresh_session_def command_ok_def pending_def)
  then obtain w' where step: "session_step (core_pool 32) trickle_os (new_world (''NOOP'' @ CRLF)) w'"
    using noop_step by blast
  have "session_ok w'"
  proof (rule session_reachable_ok [OF trickle_ok(2)])
    show "(session_step (core_pool 32) trickle_os)\<^sup>*\<^sup>*
      ((idle_world_at (''NOOP'' @ CRLF))\<lparr>w_vfs := None, w_session := fresh_session 4 5 [] []\<rparr>) w'"
      using step by (simp add: new_world_def r_into_rtranclp)
  qed (simp_all add: reply_pool_ok_def idle_world_at_def)
  with step show ?thesis by blast
qed

text \<open>C17. A login is final: once a session is logged in, no further commands log it out or change the
  directory its file system is confined to, and its working directory stays canonical below it.\<close>

theorem login_final:
  assumes "mem_ok os" and "session_ok w" and "logged_in (w_login w)"
    and "(session_step (core_pool n) os)\<^sup>*\<^sup>* w w'"
  shows "logged_in (w_login w') \<and> vfs_root w' = vfs_root w \<and> vfs_ok w' \<and> canonical (w_cwd w')"
  using login.reachable_inv [OF assms(4), of "vfs_root w"] assms(1-3) session_okD(2,8) by blast

text \<open>A session that is logged in and sends one more command, byte by byte.\<close>

definition member_at :: "'o \<Rightarrow> 'o world" where
  "member_at s = some_state_pool (upd_login (\<lambda>l. l\<lparr>logged_in := True\<rparr>) (idle_world_at s))"

lemma member_at_sel [simp]:
  "logged_in (w_login (member_at s))" "vfs_root (member_at s) = ''/srv''" "w_command (member_at s) = command idle_session"
  "w_os (member_at s) = s"
  by (simp_all add: member_at_def some_state_pool_def upd_login_def upd_session_def vfs_root_def idle_world_at_def)

lemma member_at_ok: "session_ok (member_at s)"
  using canonical_root cstr_root
  by (simp add: member_at_def some_state_pool_def idle_world_at_def idle_session_def upd_login_def upd_session_def
      session_ok_def paths_ok_def command_ok_def reply_pool_ok_def vfs_inv_def state_inv_def vfs_ok_def state_pool_ok_def
      FTP_MAX_NAME_def nul_free_def)

theorem login_final_witness:
  "\<exists>w'. session_step (core_pool 32) trickle_os (member_at (''NOOP'' @ CRLF)) w' \<and> logged_in (w_login w')
    \<and> vfs_root w' = ''/srv'' \<and> vfs_ok w' \<and> canonical (w_cwd w')"
proof -
  let ?w = "member_at (''NOOP'' @ CRLF)"
  have "command_ok (w_command ?w)" "pending (\<lambda>s. s) ?w = (''NOOP'' @ [CR]) @ LF # []"
    by (simp_all add: idle_session_def command_ok_def pending_def)
  then obtain w' where step: "session_step (core_pool 32) trickle_os ?w w'" using noop_step by blast
  have "logged_in (w_login w') \<and> vfs_root w' = vfs_root ?w \<and> vfs_ok w' \<and> canonical (w_cwd w')"
    by (rule login_final [OF trickle_ok(2) member_at_ok, where n = 32]) (use step in \<open>simp_all add: r_into_rtranclp\<close>)
  with step show ?thesis by auto
qed

lemma read_cmd_timeout:
  assumes "\<And>t s. \<exists>s'. sys_poll os (sock (w_conn w)) t s = (Inr 0, s')" and "\<not> has_line w"
  obtains w' where "read_cmd os w = Some (FTP_QUIT, w')" and "w_session w' = w_session w"
proof -
  obtain s' where p: "sys_poll os (sock (w_conn w)) (cfg_idle_timeout (w_config w)) (w_os w) = (Inr 0, s')"
    using assms(1) by blast
  show thesis
    by (rule that [of "w\<lparr>w_os := s'\<rparr>"])
       (use p assms(2) in \<open>simp_all add: read_cmd.simps read_poll_def os_call_def has_line_def\<close>)
qed

text \<open>C36. A client that goes away before its first USER makes the server free a pointer that was never
  written: when the connection times out at once, \<open>ftp_main\<close> has no defined result.\<close>

theorem ftp_main_without_user:
  assumes os: "sends_ok os" "mem_ok os" and timeout: "\<And>t s. \<exists>s'. sys_poll os fd t s = (Inr 0, s')"
    and peer: "\<And>s. \<exists>a s'. sys_getpeername os fd s = (Inr a, s')"
    and name: "\<And>s. \<exists>a s'. sys_getsockname os fd s = (Inr a, s')"
  shows "ftp_main p os fd pipe w = None"
proof -
  define w0 where "w0 = w\<lparr>w_reply_pool := Some (replicate RESPONSE_BUFFER_SIZE NUL)\<rparr>"
  have i: "init_reply_pool os w = (FTP_SUCCESS, w0)" using os(2) by (simp add: init_reply_pool_def w0_def)
  obtain a s1 where a: "sys_getpeername os fd (w_os w0) = (Inr a, s1)" using peer by blast
  obtain h s2 where h: "sys_getsockname os fd s1 = (Inr h, s2)" using name by blast
  define w1 where "w1 = w0\<lparr>w_os := s2\<rparr>"
  obtain h1 h2 where hh: "h = (h1, h2)" by force
  have n: "new_session os fd pipe w0 = (Some (fresh_session fd pipe a h1), w1)"
    using os(2) a h by (simp add: new_session_def os_call_def w1_def hh)
  define w2 where "w2 = emit fd (''220 Welcome'' @ CRLF) (w1\<lparr>w_session := fresh_session fd pipe a h1\<rparr>)"
  have s: "w_session w2 = fresh_session fd pipe a h1" by (simp add: w2_def)
  have c: "sock (w_conn w2) = fd" "\<not> has_line w2"
    by (simp_all add: s fresh_session_def has_line_def memchr_def)
  obtain w3 where w3: "read_cmd os w2 = Some (FTP_QUIT, w3)" "w_session w3 = w_session w2"
    using read_cmd_timeout [of os w2] timeout c by metis
  have "serve p os w2 = Some (FTP_QUIT, w3)" using w3(1) by (simp add: serve.simps)
  moreover have "say os ''220 Welcome'' (w1\<lparr>w_session := fresh_session fd pipe a h1\<rparr>)
      = Some (int (length (''220 Welcome'' @ CRLF)), w2)"
    by (simp add: say_def reply_ok [OF os(1)] w2_def fresh_session_def)
  moreover have "destroy_session os (destroy_reply_pool (destroy_vfs_pool (destroy_state_pool
      (emit fd m w3)))) = None" for m
    using w3(2) s by (simp add: destroy_session_def destroy_reply_pool_def destroy_vfs_pool_def
        destroy_state_pool_def fresh_session_def Let_def)
  moreover have "say os m w3 = Some (int (length (m @ CRLF)), emit fd (m @ CRLF) w3)" for m
    using w3(2) s by (simp add: say_def reply_ok [OF os(1)] fresh_session_def)
  ultimately show ?thesis by (simp add: ftp_main_def i n)
qed

theorem ftp_main_without_user_witness: "ftp_main (core_pool 32) idle_os 4 5 idle_world = None"
  by (rule ftp_main_without_user) (simp_all add: idle_os_def idle_net_def sends_ok_def mem_ok_def idle_proc_def)

text \<open>C37. Pipelined commands can end a session: when one \<open>recv\<close> fills the empty line buffer, the client is
  told that its command line is too long and disconnected, however short the lines are.\<close>

theorem read_cmd_full_buffer:
  assumes os: "sends_ok os" and poll: "\<And>t s. sys_poll os (sock (w_conn w)) t s = (Inr 1, s)"
    and recv: "sys_recv os (sock (w_conn w)) COMMAND_BUFFER_SIZE (w_os w) = (Inr bs, s')"
    and full: "length bs = COMMAND_BUFFER_SIZE" and ok: "command_ok (w_command w)"
    and empty: "c_dirty_len (w_command w) = 0"
  shows "\<exists>w'. read_cmd os w = Some (FTP_QUIT, w')
    \<and> w_out w' (sock (w_conn w)) = w_out w (sock (w_conn w)) @ ''421 Command line too long'' @ CRLF"
proof -
  note ok' = ok [unfolded command_ok_def]
  have r: "read_poll os (sock (w_conn w)) COMMAND_BUFFER_SIZE w
      = ((int COMMAND_BUFFER_SIZE, bs), w\<lparr>w_os := s'\<rparr>)"
    using poll recv full by (simp add: read_poll_def os_call_def)
  have b: "blit (c_line (w_command w)) 0 bs = Some bs" using full ok' by (simp add: blit_def)
  have "\<not> has_line w" using empty by (simp add: has_line_def memchr_def)
  then show ?thesis
    using r b full ok' empty
    by (subst read_cmd.simps)
       (simp add: has_line_def Let_def upd_command_def upd_session_def say_def reply_ok [OF os] COMMAND_BUFFER_SIZE_def)
qed

definition burst_os :: "char list os" where
  "burst_os = idle_os\<lparr>os_net := idle_net
     \<lparr>net_poll := \<lambda>fd t s. (Inr 1, s), net_recv := \<lambda>fd n s. (Inr (take n s), drop n s)\<rparr>\<rparr>"

theorem read_cmd_full_buffer_witness:
  "\<exists>w'. read_cmd burst_os (idle_world_at (concat (replicate 200 (''NOOP'' @ CRLF)))) = Some (FTP_QUIT, w')
    \<and> w_out w' 4 = ''421 Command line too long'' @ CRLF"
proof -
  let ?s = "concat (replicate 200 (''NOOP'' @ CRLF))"
  have l: "length ?s = 1200" by (simp add: length_concat sum_list_replicate)
  have "\<exists>w'. read_cmd burst_os (idle_world_at ?s) = Some (FTP_QUIT, w')
    \<and> w_out w' (sock (w_conn (idle_world_at ?s)))
      = w_out (idle_world_at ?s) (sock (w_conn (idle_world_at ?s))) @ ''421 Command line too long'' @ CRLF"
    by (rule read_cmd_full_buffer [where bs = "take COMMAND_BUFFER_SIZE ?s" and s' = "drop COMMAND_BUFFER_SIZE ?s"])
       (use l in \<open>simp_all add: burst_os_def idle_os_def idle_net_def sends_ok_def command_ok_def
         idle_session_def COMMAND_BUFFER_SIZE_def\<close>)
  then show ?thesis by simp
qed

end
