(* ===== verification/Ftp_Daemon.thy ===== *)
theory Ftp_Daemon
  imports Ftp_Server
begin

text \<open>
  \<open>daemon.c\<close>: the master process. Its state is the process state and the list of clients (without the
  head node). \<open>fork\<close> returns 0 in the child, whose process state it then is: a run of \<open>handle_client\<close>
  on that branch is the life of a session. The loop ends with a signal or an error: not returning is
  \<open>None\<close>, and so is a null pointer that is followed.
\<close>

definition SIZEOF_CHILD :: nat where "SIZEOF_CHILD = 1456"

subsection \<open>The listening socket\<close>

text \<open>The server socket and the two ends of the pipe, when all system calls succeed.\<close>

definition init_masterserver :: "'o os \<Rightarrow> 'o world \<Rightarrow> (int \<times> int \<times> int) option \<times> 'o world" where
  "init_masterserver os w = (case os_newfd (sys_socket os) w of
       (Inl _, w) \<Rightarrow> (None, w)
     | (Inr fd, w) \<Rightarrow>
         (let w = snd (os_call (sys_setsockopt os fd) w) in
          case os_call (sys_bind os fd (cfg_port (w_config w) mod 65536)) w of
            (Inl _, w) \<Rightarrow> (None, c_close os fd w)
          | (Inr _, w) \<Rightarrow> (case os_call (sys_listen os fd) w of
                (Inl _, w) \<Rightarrow> (None, c_close os fd w)
              | (Inr _, w) \<Rightarrow> (case os_call (sys_pipe os) w of
                    (Inl _, w) \<Rightarrow> (None, c_close os fd w)
                  | (Inr (rp, wp), w) \<Rightarrow>
                      (Some (fd, rp, wp), w\<lparr>w_fds := insert rp (insert wp (w_fds w))\<rparr>)))))"

subsection \<open>Admitting a client\<close>

definition pre_server :: "'o os \<Rightarrow> ftp_child list \<Rightarrow> int \<Rightarrow> 'o world \<Rightarrow> (int \<times> 'o world) option" where
  "pre_server os cs fd w = (let mx = cfg_max_clients (w_config w); cl_count = count_clients cs in
     if mx \<noteq> -1 \<and> cl_count \<ge> mx
     then do { (_, w) \<leftarrow> sendall os fd (''421 Too many clients'' @ CRLF) w; Some (FTP_ERROR, w) }
     else Some (FTP_SUCCESS, w))"

text \<open>From the fork on: the child serves the client, the parent adds it to the list.\<close>

definition fork_server ::
  "'o cmd_pool \<Rightarrow> 'o os \<Rightarrow> int \<Rightarrow> int \<times> int \<Rightarrow> ftp_child list \<Rightarrow> int \<Rightarrow> in_addr \<Rightarrow> 'o world
     \<Rightarrow> ((int \<times> ftp_child list) \<times> 'o world) option" where
  "fork_server p os server_sock pipefds cs client_sock addr w = (case os_call (sys_fork os) w of
       (Inl _, w) \<Rightarrow> Some ((FTP_SUCCESS, cs), c_close os client_sock w)
     | (Inr client_pid, w) \<Rightarrow>
         if client_pid = 0
         then do {
           (_, w) \<leftarrow> ftp_main p os client_sock (snd pipefds) (c_close os server_sock (c_close os (fst pipefds) w));
           Some ((FTP_QUIT, cs), c_close os client_sock w) }
         else (case new_client os client_pid addr (c_close os client_sock w) of
             (None, w) \<Rightarrow> Some ((FTP_ERROR, cs), w)
           | (Some client, w) \<Rightarrow> Some ((FTP_SUCCESS, add_client cs client), w)))"

definition handle_client ::
  "'o cmd_pool \<Rightarrow> 'o os \<Rightarrow> int \<Rightarrow> int \<times> int \<Rightarrow> ftp_child list \<Rightarrow> 'o world
     \<Rightarrow> ((int \<times> ftp_child list) \<times> 'o world) option" where
  "handle_client p os server_sock pipefds cs w = (case os_call (sys_accept os server_sock) w of
       (Inl e, w) \<Rightarrow> Some ((if e = EINTR then FTP_SUCCESS else FTP_ERROR, cs), w)
     | (Inr (client_sock, addr), w) \<Rightarrow> do {
         (ret, w) \<leftarrow> pre_server os cs client_sock (w\<lparr>w_fds := insert client_sock (w_fds w)\<rparr>);
         if ret \<noteq> FTP_SUCCESS then Some ((FTP_SUCCESS, cs), c_close os client_sock w)
         else fork_server p os server_sock pipefds cs client_sock addr w })"

subsection \<open>Signals\<close>

text \<open>The seconds a client was online, and the kilobytes it was sent: what \<open>log_stats\<close> logs.\<close>

definition log_stats :: "'o os \<Rightarrow> ftp_child \<Rightarrow> 'o world \<Rightarrow> (int \<times> 64 word) \<times> 'o world" where
  "log_stats os child w = (case os_query (sys_time os) w of (now, w) \<Rightarrow>
     ((to_int32 (now - ch_connected child), total_down (ch_xfer_info child) div 1024), w))"

text \<open>
  \<open>signal_flag &= !RECV_SIGCHLD\<close>: the operator is the logical one, so the whole flag becomes 0. One
  child is waited for, whatever the number that ended; its pid may be 0 or -1.
\<close>

definition daemon_handle_signal ::
  "'o os \<Rightarrow> ftp_child list \<Rightarrow> 'o world \<Rightarrow> ((int \<times> ftp_child list) \<times> 'o world) option" where
  "daemon_handle_signal os cs w = do {
     let w = deliver os w;
     (cs, w) \<leftarrow>
       (if and (w_signal_flag w) RECV_SIGCHLD \<noteq> 0
        then (let w = w\<lparr>w_signal_flag := and (w_signal_flag w) (if RECV_SIGCHLD = 0 then 1 else 0)\<rparr> in
          case os_query (sys_waitpid os) w of (deadchild, w) \<Rightarrow> do {
            (child, cs) \<leftarrow> remove_client cs deadchild;
            Some (cs, snd (log_stats os child w)) })
        else Some (cs, w));
     if w_signal_flag w \<noteq> 0 then Some ((FTP_QUIT, cs), w\<lparr>w_signal_flag := 0\<rparr>)
     else Some ((FTP_SUCCESS, cs), w) }"

subsection \<open>The loop\<close>

text \<open>What is done for the descriptors \<open>poll\<close> reports: first the server socket, then the pipe.\<close>

definition daemon_dispatch ::
  "'o cmd_pool \<Rightarrow> 'o os \<Rightarrow> int \<Rightarrow> int \<times> int \<Rightarrow> bool \<Rightarrow> bool \<Rightarrow> ftp_child list \<Rightarrow> 'o world
     \<Rightarrow> ((int \<times> ftp_child list) \<times> 'o world) option" where
  "daemon_dispatch p os server_sock pipefds client_in pipe_in cs w = do {
     ((ret, cs), w) \<leftarrow> (if client_in then handle_client p os server_sock pipefds cs w
                      else Some ((FTP_SUCCESS, cs), w));
     if ret \<noteq> FTP_SUCCESS then Some ((ret, cs), w)
     else if pipe_in then recv_state os (fst pipefds) cs w
     else Some ((FTP_SUCCESS, cs), w) }"

partial_function (option) daemon_loop ::
  "'o cmd_pool \<Rightarrow> 'o os \<Rightarrow> int \<Rightarrow> int \<times> int \<Rightarrow> ftp_child list \<Rightarrow> 'o world
     \<Rightarrow> ((int \<times> ftp_child list) \<times> 'o world) option" where
  "daemon_loop p os server_sock pipefds cs w = (case daemon_handle_signal os cs w of
       None \<Rightarrow> None
     | Some ((sig, cs), w) \<Rightarrow>
         if sig \<noteq> FTP_SUCCESS then Some ((FTP_SUCCESS, cs), w)
         else (case os_call (sys_poll2 os server_sock (fst pipefds)) w of
             (Inl e, w) \<Rightarrow>
               if e = EINTR then daemon_loop p os server_sock pipefds cs w else Some ((FTP_SUCCESS, cs), w)
           | (Inr (n, client_in, pipe_in), w) \<Rightarrow>
               if n = 0 then daemon_loop p os server_sock pipefds cs w
               else (case daemon_dispatch p os server_sock pipefds client_in pipe_in cs w of
                   None \<Rightarrow> None
                 | Some ((ret, cs), w) \<Rightarrow>
                     if ret \<noteq> FTP_SUCCESS then Some ((ret, cs), w)
                     else daemon_loop p os server_sock pipefds cs w)))"

declare daemon_loop.simps [code]

definition daemon_main ::
  "'o cmd_pool \<Rightarrow> 'o os \<Rightarrow> int \<Rightarrow> int \<times> int \<Rightarrow> 'o world \<Rightarrow> (int \<times> 'o world) option" where
  "daemon_main p os server_sock pipefds w = (case c_malloc os SIZEOF_CHILD w of
       (False, w) \<Rightarrow> Some (1, w)
     | (True, w) \<Rightarrow> do {
         ((ret, cs), w) \<leftarrow> daemon_loop p os server_sock pipefds [] w;
         let (_, w) = remove_all_clients os cs (ret \<noteq> FTP_QUIT) w;
         Some (0, w) })"

subsection \<open>What the master keeps\<close>

lemma daemon_handle_signal_keeps:
  assumes "daemon_handle_signal os cs w = Some ((r, cs'), w')"
  shows "quiet w w' \<and> (cs' = cs \<or> (\<exists>pid c. remove_client cs pid = Some (c, cs')))"
proof -
  let ?v = "deliver os w"
  have d: "quiet w ?v" by simp
  show ?thesis
  proof (cases "and (w_signal_flag ?v) RECV_SIGCHLD = 0")
    case True
    with assms have "cs' = cs" "quiet ?v w'" by (auto simp: daemon_handle_signal_def Let_def split: if_splits)
    with d show ?thesis by (blast intro: quiet_trans)
  next
    case False
    let ?u = "?v\<lparr>w_signal_flag := and (w_signal_flag ?v) (if RECV_SIGCHLD = 0 then 1 else 0)\<rparr>"
    obtain pid w1 where q: "os_query (sys_waitpid os) ?u = (pid, w1)" by force
    obtain c ds where r: "remove_client cs pid = Some (c, ds)"
      using assms False q by (auto simp: daemon_handle_signal_def Let_def elim!: bind_SomeE)
    define w2 where "w2 = snd (log_stats os c w1)"
    have q2: "quiet w1 w2"
      by (auto simp: w2_def log_stats_def case_prod_beta) (metis os_query_quiet prod.collapse)
    have e: "(if w_signal_flag w2 \<noteq> 0 then Some ((FTP_QUIT, ds), w2\<lparr>w_signal_flag := 0\<rparr>)
        else Some ((FTP_SUCCESS, ds), w2)) = Some ((r, cs'), w')"
      using assms False q r by (auto simp: daemon_handle_signal_def Let_def w2_def split: if_splits)
    then have "cs' = ds" "quiet w2 w'" by (auto split: if_splits)
    moreover have "quiet ?v w2" by (rule quiet_trans [OF quiet_trans [OF quiet_upd(3) os_query_quiet [OF q]] q2])
    ultimately show ?thesis using d r by (blast intro: quiet_trans)
  qed
qed

lemma read_into_quiet:
  assumes "read_into os fd n b w = Some (r, w')"
  shows "quiet w w' \<and> (\<forall>b'. r = Some b' \<longrightarrow> length b' = length b)"
proof (cases "os_call (sys_read os fd n) w")
  case (Pair x v)
  with assms os_call_quiet [OF Pair] show ?thesis
    by (cases x) (auto simp: read_into_def length_blit elim!: bind_SomeE)
qed

lemma op_recv_keeps:
  assumes "op \<in> set state_ops" and "op_recv op os fd c w = Some ((r, c'), w')"
  shows "quiet w w' \<and> (child_ok c \<longrightarrow> child_ok c') \<and> ch_pid c' = ch_pid c"
proof -
  consider "op_recv op = recv_login" | "op_recv op = recv_chdir" | "op_recv op = recv_xfer_start"
    | "op_recv op = recv_xfer" | "op_recv op = recv_xfer_stop"
    using assms(1) by (auto simp: state_ops_def)
  then show ?thesis
  proof cases
    case 5
    then obtain x v where v: "read_into os fd SIZEOF_XFER_INFO (put_xfer_info (ch_xfer_info c)) w = Some (x, v)"
      using assms(2) by (auto simp: recv_xfer_stop_def elim!: bind_SomeE)
    obtain t u where t: "os_query (sys_gettimeofday os) v = (t, u)" by force
    have "quiet w v" "quiet w u"
      using read_into_quiet [OF v] os_query_quiet [OF t] by (auto intro: quiet_trans)
    with 5 assms(2) v t show ?thesis
      by (auto simp: recv_xfer_stop_def child_ok_def Let_def split: option.splits elim!: bind_SomeE)
  qed (use assms(2) in \<open>auto simp: recv_login_def recv_chdir_def recv_xfer_start_def recv_xfer_def child_ok_def
      wr_Some_iff split: option.splits elim!: bind_SomeE dest!: read_into_quiet\<close>)
qed

lemma seek_blocks_quiet [frame]: "seek_blocks os fd n w = (r, w') \<Longrightarrow> quiet w w'"
proof (induction n arbitrary: w)
  case (Suc n)
  obtain x v where c: "os_call (sys_read os fd SEEK_BUFFER_SIZE) w = (x, v)" by force
  show ?case using Suc c quiet_trans [OF os_call_quiet [OF c]] by (cases x) auto
qed simp

lemma seek_pipe_quiet [frame]:
  assumes "seek_pipe os fd n w = (r, w')" shows "quiet w w'"
proof -
  obtain s v where b: "seek_blocks os fd (n div SEEK_BUFFER_SIZE) w = (s, v)" by force
  obtain x u where c: "os_call (sys_read os fd (n mod SEEK_BUFFER_SIZE)) v = (x, u)" by force
  show ?thesis
    using assms b c seek_blocks_quiet [OF b] quiet_trans [OF seek_blocks_quiet [OF b] os_call_quiet [OF c]]
    by (cases x) (auto simp: seek_pipe_def split: if_splits)
qed

lemma recv_state_keeps:
  assumes "recv_state os fd cs w = Some ((r, cs'), w')"
  shows "quiet w w' \<and> map ch_pid cs' = map ch_pid cs \<and> (list_all child_ok cs \<longrightarrow> list_all child_ok cs')"
proof -
  obtain x v where c: "os_call (sys_read os fd SIZEOF_STATE) w = (x, v)" by force
  note q = os_call_quiet [OF c]
  show ?thesis
  proof (cases x)
    case (Inr bs)
    let ?st = "get_state bs"
    show ?thesis
    proof (cases "length bs < SIZEOF_STATE \<or> st_magic ?st \<noteq> STATE_MAGIC \<or> find_state_op (st_type ?st) = (None :: 'a state_op option)")
      case True
      with assms c Inr q show ?thesis by (auto simp: recv_state_def Let_def split: if_splits)
    next
      case False
      then obtain op :: "'a state_op" where op: "find_state_op (st_type ?st) = Some op" by blast
      then have mem: "op \<in> set state_ops" by (simp add: states.search_iff)
      show ?thesis
      proof (cases "find_client cs (st_pid ?st)")
        case None
        obtain s u where s: "seek_pipe os fd (op_size op) v = (s, u)" by force
        with assms c Inr False op None quiet_trans [OF q seek_pipe_quiet [OF s]] show ?thesis
          by (simp add: recv_state_def Let_def)
      next
        case (Some i)
        obtain s child u where s: "op_recv op os fd (cs ! i) v = Some ((s, child), u)" "cs' = cs[i := child]" "w' = u"
          using assms c Inr False op Some by (auto simp: recv_state_def Let_def elim!: bind_SomeE)
        note k = op_recv_keeps [OF mem s(1)] and i = find_client_Some(1) [OF Some]
        have "map ch_pid cs' = map ch_pid cs" using k i by (simp add: s(2) map_update list_update_same_conv)
        moreover have "list_all child_ok cs'" if "list_all child_ok cs"
          using that k i by (auto simp: s(2) list_all_length nth_list_update)
        ultimately show ?thesis using k q s(3) by (blast intro: quiet_trans)
      qed
    qed
  qed (use assms c q in \<open>simp add: recv_state_def\<close>)
qed

lemma new_client_child:
  "new_client os pid a w = (Some c, w') \<Longrightarrow> ch_pid c = pid \<and> ch_client_addr c = a \<and> child_ok c"
  by (auto simp: new_client_def child_ok_def split: prod.splits bool.splits)

lemma fork_server_keeps:
  assumes "fork_server p os srv pipefds cs fd addr w = Some ((FTP_SUCCESS, cs'), w')"
  shows "quiet w w' \<and> (cs' = cs \<or> (\<exists>c. cs' = cs @ [c] \<and> child_ok c \<and> ch_client_addr c = addr))"
proof -
  obtain z f where f: "os_call (sys_fork os) w = (z, f)" by force
  have qc: "quiet w (c_close os fd f)" by (intro quiet_trans [OF os_call_quiet [OF f]]) simp
  show ?thesis
  proof (cases z)
    case (Inl _)
    with assms f qc show ?thesis by (simp add: fork_server_def)
  next
    case (Inr pid)
    have pid: "pid \<noteq> 0" using assms f Inr by (auto simp: fork_server_def elim!: bind_SomeE)
    obtain x v where n: "new_client os pid addr (c_close os fd f) = (x, v)" by force
    show ?thesis
    proof (cases x)
      case (Some c)
      with assms f Inr pid n have "w' = v" "cs' = cs @ [c]" by (simp_all add: fork_server_def)
      with new_client_child [of os pid addr _ c v] n Some quiet_trans [OF qc new_client_quiet [OF n]]
      show ?thesis by blast
    qed (use assms f Inr pid n in \<open>simp add: fork_server_def\<close>)
  qed
qed

lemma pre_server_result:
  assumes "pre_server os cs fd w = Some (ret, w')"
  shows "quiet w w' \<and> (ret = FTP_SUCCESS \<longleftrightarrow>
    cfg_max_clients (w_config w) = -1 \<or> int (length cs) < cfg_max_clients (w_config w))"
  using assms by (auto simp: pre_server_def Let_def split: if_splits elim!: bind_SomeE dest!: sendall_quiet)

lemma handle_client_keeps:
  assumes "handle_client p os srv pipefds cs w = Some ((FTP_SUCCESS, cs'), w')"
  shows "quiet w w' \<and> (cs' = cs \<or> (\<exists>c. cs' = cs @ [c] \<and> child_ok c
    \<and> (cfg_max_clients (w_config w) = -1 \<or> int (length cs) < cfg_max_clients (w_config w))))"
proof -
  obtain x v where a: "os_call (sys_accept os srv) w = (x, v)" by force
  note q = os_call_quiet [OF a]
  show ?thesis
  proof (cases x)
    case (Inl e)
    with assms a q show ?thesis by (auto simp: handle_client_def split: if_splits)
  next
    case (Inr y)
    obtain fd addr where y: "y = (fd, addr)" by force
    let ?v = "v\<lparr>w_fds := insert fd (w_fds v)\<rparr>"
    have qv: "quiet w ?v" by (rule quiet_trans [OF q]) simp
    obtain ret u where pre: "pre_server os cs fd ?v = Some (ret, u)"
      and e: "(if ret \<noteq> FTP_SUCCESS then Some ((FTP_SUCCESS, cs), c_close os fd u)
        else fork_server p os srv pipefds cs fd addr u) = Some ((FTP_SUCCESS, cs'), w')"
      using assms a Inr y by (auto simp: handle_client_def elim!: bind_SomeE)
    have qu: "quiet w u" using quiet_trans [OF qv] pre_server_result [OF pre] by blast
    show ?thesis
    proof (cases "ret = FTP_SUCCESS")
      case False
      with e have "cs' = cs" "w' = c_close os fd u" by simp_all
      with quiet_trans [OF qu] show ?thesis by simp
    next
      case True
      with e fork_server_keeps [of p os srv pipefds cs fd addr u cs' w'] quiet_trans [OF qu]
        pre_server_result [OF pre] quietD(2) [OF qv] show ?thesis by auto
    qed
  qed
qed

text \<open>The rounds of the loop that go on.\<close>

inductive master_step :: "'o cmd_pool \<Rightarrow> 'o os \<Rightarrow> int \<Rightarrow> int \<times> int
    \<Rightarrow> ftp_child list \<times> 'o world \<Rightarrow> ftp_child list \<times> 'o world \<Rightarrow> bool" for p os srv pipefds where
  idle: "daemon_handle_signal os cs w = Some ((FTP_SUCCESS, cs1), w1) \<Longrightarrow>
    os_call (sys_poll2 os srv (fst pipefds)) w1 = (r, w2) \<Longrightarrow>
    r = Inl EINTR \<or> (\<exists>a b. r = Inr (0, a, b)) \<Longrightarrow> master_step p os srv pipefds (cs, w) (cs1, w2)"
| event: "daemon_handle_signal os cs w = Some ((FTP_SUCCESS, cs1), w1) \<Longrightarrow>
    os_call (sys_poll2 os srv (fst pipefds)) w1 = (Inr (n, a, b), w2) \<Longrightarrow> n \<noteq> 0 \<Longrightarrow>
    daemon_dispatch p os srv pipefds a b cs1 w2 = Some ((FTP_SUCCESS, cs2), w3) \<Longrightarrow>
    master_step p os srv pipefds (cs, w) (cs2, w3)"

inductive_cases master_stepE: "master_step p os srv pipefds s t"

definition master_ok :: "int \<Rightarrow> ftp_child list \<times> 'o world \<Rightarrow> bool" where
  "master_ok mx s \<longleftrightarrow> cfg_max_clients (w_config (snd s)) = mx
     \<and> (mx = -1 \<or> int (length (fst s)) \<le> max 0 mx) \<and> list_all child_ok (fst s)"

lemma master_ok_quiet: "master_ok mx (cs, w) \<Longrightarrow> quiet w w' \<Longrightarrow> master_ok mx (cs, w')"
  by (simp add: master_ok_def quietD)

lemma master_ok_signal:
  assumes ok: "master_ok mx (cs, w)" and s: "daemon_handle_signal os cs w = Some ((r, cs'), w')"
  shows "master_ok mx (cs', w')"
proof -
  note k = daemon_handle_signal_keeps [OF s]
  consider "cs' = cs" | pid c where "remove_client cs pid = Some (c, cs')" using k by blast
  then have "length cs' \<le> length cs \<and> (list_all child_ok cs \<longrightarrow> list_all child_ok cs')"
    by cases (auto dest!: remove_client_Some)
  moreover have "w_config w' = w_config w" using k quietD(2) by blast
  ultimately show ?thesis using ok by (auto simp: master_ok_def)
qed

lemma master_ok_dispatch:
  assumes ok: "master_ok mx (cs, w)"
    and d: "daemon_dispatch p os srv pipefds a b cs w = Some ((FTP_SUCCESS, cs'), w')"
  shows "master_ok mx (cs', w')"
proof -
  obtain ret cs1 w1 where h: "(if a then handle_client p os srv pipefds cs w else Some ((FTP_SUCCESS, cs), w))
      = Some ((ret, cs1), w1)"
    "(if ret \<noteq> FTP_SUCCESS then Some ((ret, cs1), w1) else if b then recv_state os (fst pipefds) cs1 w1
      else Some ((FTP_SUCCESS, cs1), w1)) = Some ((FTP_SUCCESS, cs'), w')"
    using d by (auto simp: daemon_dispatch_def elim!: bind_SomeE)
  have ret: "ret = FTP_SUCCESS" using h(2) by (auto split: if_splits)
  have ok1: "master_ok mx (cs1, w1)"
  proof (cases a)
    case True
    have h1: "handle_client p os srv pipefds cs w = Some ((FTP_SUCCESS, cs1), w1)"
      using h(1) ret True by simp
    note k = handle_client_keeps [OF h1]
    have cfg: "w_config w1 = w_config w" using k quietD(2) by blast
    from k consider "cs1 = cs" | c where "cs1 = cs @ [c]" "child_ok c"
      "cfg_max_clients (w_config w) = -1 \<or> int (length cs) < cfg_max_clients (w_config w)" by blast
    then show ?thesis by cases (use ok cfg in \<open>auto simp: master_ok_def\<close>)
  qed (use h(1) ok in simp)
  show ?thesis
  proof (cases b)
    case True
    with h(2) ret have r: "recv_state os (fst pipefds) cs1 w1 = Some ((FTP_SUCCESS, cs'), w')" by simp
    note k = recv_state_keeps [OF r]
    have "length cs' = length cs1" using arg_cong [OF conjunct1 [OF conjunct2 [OF k]], of length] by simp
    moreover have "w_config w' = w_config w1" using k quietD(2) by blast
    ultimately show ?thesis using k ok1 by (simp add: master_ok_def)
  qed (use h(2) ret ok1 in simp)
qed

lemma master_step_ok:
  assumes "master_step p os srv pipefds s t" and ok: "master_ok mx s" shows "master_ok mx t"
  using assms(1)
proof cases
  case (idle cs w cs1 w1 r w2)
  show ?thesis
    unfolding idle(2)
    by (rule master_ok_quiet [OF master_ok_signal [OF ok [unfolded idle(1)] idle(3)] os_call_quiet [OF idle(4)]])
next
  case (event cs w cs1 w1 n a b w2 cs2 w3)
  show ?thesis
    unfolding event(2)
    by (rule master_ok_dispatch [OF master_ok_quiet [OF master_ok_signal [OF ok [unfolded event(1)] event(3)]
        os_call_quiet [OF event(4)]] event(6)])
qed

interpretation master: step_invariant "master_step p os srv pipefds" "master_ok mx" for p os srv pipefds mx
  by unfold_locales (rule master_step_ok)

subsection \<open>Properties\<close>

text \<open>C20. The limit on clients holds: whatever connections, messages and deaths the master sees from its
  start with an empty list, it never has more clients than \<open>MaxClients\<close> allows, and its records of them
  stay well-formed.\<close>

theorem clients_bounded:
  assumes "cfg_max_clients (w_config w) \<noteq> -1" and "(master_step p os srv pipefds)\<^sup>*\<^sup>* ([], w) (cs, w')"
  shows "int (length cs) \<le> max 0 (cfg_max_clients (w_config w)) \<and> list_all child_ok cs"
  using master.reachable_inv [OF assms(2), of "cfg_max_clients (w_config w)"] assms(1)
  by (simp add: master_ok_def)

definition one_client_os :: "unit os" where
  "one_client_os = idle_os\<lparr>os_net := idle_net\<lparr>net_poll2 := \<lambda>a b s. (Inr (1, True, False), s)\<rparr>\<rparr>"

definition one_client_world :: "unit world" where
  "one_client_world = idle_world\<lparr>w_config := zero_config\<lparr>cfg_max_clients := 1\<rparr>\<rparr>"

theorem clients_bounded_witness:
  "\<exists>cs w'. master_step (core_pool 32) one_client_os 3 (6, 7) ([], one_client_world) (cs, w') \<and> length cs = 1"
proof -
  let ?w = "one_client_world"
  have s: "daemon_handle_signal one_client_os [] ?w = Some ((FTP_SUCCESS, []), ?w)"
    by (simp add: daemon_handle_signal_def deliver_def os_query_def one_client_os_def one_client_world_def
        idle_os_def idle_proc_def idle_world_at_def)
  have p: "os_call (sys_poll2 one_client_os 3 (fst (6, 7))) ?w = (Inr (1, True, False), ?w)"
    by (simp add: os_call_def one_client_os_def one_client_world_def idle_world_at_def)
  obtain c w' where h: "handle_client (core_pool 32) one_client_os 3 (6, 7) [] ?w = Some ((FTP_SUCCESS, [c]), w')"
    by (simp add: handle_client_def pre_server_def fork_server_def new_client_def os_call_def os_query_def
        c_malloc_def c_close_def Let_def one_client_os_def one_client_world_def idle_os_def idle_proc_def
        idle_net_def idle_world_at_def)
  then have d: "daemon_dispatch (core_pool 32) one_client_os 3 (6, 7) True False [] ?w = Some ((FTP_SUCCESS, [c]), w')"
    by (simp add: daemon_dispatch_def)
  have step: "master_step (core_pool 32) one_client_os 3 (6, 7) ([], ?w) ([c], w')"
    by (rule master_step.event [OF s p _ d]) simp
  have "int (length [c]) \<le> max 0 (cfg_max_clients (w_config ?w)) \<and> list_all child_ok [c]"
    by (rule clients_bounded [OF _ r_into_rtranclp [where r = "master_step (core_pool 32) one_client_os 3 (6, 7)", OF step]])
       (simp add: one_client_world_def)
  with step show ?thesis by (intro exI [of _ "[c]"] exI [of _ w']) simp
qed

text \<open>C30. What the master makes of its signals: it ends exactly when some signal is pending and none of
  them is \<open>SIGCHLD\<close>. So any signal ends it, \<open>SIGPIPE\<close> from a refused client included, but a \<open>SIGTERM\<close> that
  arrives with the death of a child is forgotten.\<close>

theorem daemon_signal_decision:
  assumes "daemon_handle_signal os cs w = Some ((r, cs'), w')"
  shows "let flag = foldl signal_handler (w_signal_flag w) (fst (sys_signals os (w_os w))) in
    (r = FTP_QUIT \<longleftrightarrow> flag \<noteq> 0 \<and> and flag RECV_SIGCHLD = 0) \<and> (r \<noteq> FTP_QUIT \<longrightarrow> r = FTP_SUCCESS)
    \<and> w_signal_flag w' = 0"
proof -
  have f: "w_signal_flag (deliver os w) = foldl signal_handler (w_signal_flag w) (fst (sys_signals os (w_os w)))"
    by (simp add: deliver_def os_query_def case_prod_beta)
  show ?thesis
  proof (cases "and (w_signal_flag (deliver os w)) RECV_SIGCHLD = 0")
    case True
    with assms f show ?thesis by (auto simp: daemon_handle_signal_def Let_def split: if_splits)
  next
    case False
    have z: "RECV_SIGCHLD \<noteq> 0" by (simp add: RECV_SIGCHLD_def)
    have q: "w_signal_flag (snd (os_query g u)) = w_signal_flag u" for g and u :: "'a world"
      by (simp add: os_query_def case_prod_beta)
    have l: "w_signal_flag (snd (log_stats os c u)) = w_signal_flag u" for c u
      using q [of "sys_time os" u] by (simp add: log_stats_def case_prod_beta)
    from False assms z f show ?thesis
      by (auto simp: daemon_handle_signal_def Let_def case_prod_beta q l split: if_splits elim!: bind_SomeE)
  qed
qed

theorem daemon_signal_decision_witness:
  "\<exists>w'. daemon_handle_signal idle_os [some_child 0] (idle_world\<lparr>w_signal_flag := or RECV_SIGTERM RECV_SIGCHLD\<rparr>)
      = Some ((FTP_SUCCESS, []), w') \<and> w_signal_flag w' = 0"
proof -
  let ?w = "idle_world\<lparr>w_signal_flag := or RECV_SIGTERM RECV_SIGCHLD\<rparr>"
  obtain w' where d: "daemon_handle_signal idle_os [some_child 0] ?w = Some ((FTP_SUCCESS, []), w')"
    by (simp add: daemon_handle_signal_def deliver_def os_query_def log_stats_def idle_os_def idle_proc_def
        idle_world_at_def Let_def RECV_SIGTERM_def RECV_SIGCHLD_def)
  with daemon_signal_decision [OF d] show ?thesis by (simp add: Let_def)
qed

text \<open>C38. A child's signal without a known child is fatal: when \<open>SIGCHLD\<close> is delivered and \<open>waitpid\<close> names
  no process of the list (0, when the client was only stopped), \<open>remove_client\<close> runs off the end of the
  list and follows its null pointer.\<close>

theorem daemon_reaps_unknown:
  assumes "SIGCHLD \<in> set (fst (sys_signals os (w_os w)))" and "\<And>s. fst (sys_waitpid os s) \<notin> ch_pid ` set cs"
  shows "daemon_handle_signal os cs w = None"
proof -
  have bit: "and (foldl signal_handler f ss) RECV_SIGCHLD \<noteq> 0"
    if "SIGCHLD \<in> set ss \<or> and f RECV_SIGCHLD \<noteq> 0" for f ss
    using that
  proof (induction ss arbitrary: f)
    case (Cons s ss)
    have "and (signal_handler f s) RECV_SIGCHLD \<noteq> 0" if "s = SIGCHLD \<or> and f RECV_SIGCHLD \<noteq> 0"
      using that by (cases s) (auto simp: signal_handler_def bit.conj_disj_distrib2 or_eq_0_iff RECV_SIGCHLD_def)
    with Cons show ?case by auto
  qed simp
  have f: "w_signal_flag (deliver os w) = foldl signal_handler (w_signal_flag w) (fst (sys_signals os (w_os w)))"
    by (simp add: deliver_def os_query_def case_prod_beta)
  have "fst (os_query (sys_waitpid os) u) \<notin> ch_pid ` set cs" for u :: "'a world"
    using assms(2) by (simp add: os_query_def case_prod_beta)
  then have "remove_client cs (fst (os_query (sys_waitpid os) u)) = None" for u :: "'a world"
    by (simp add: remove_client_None)
  with bit assms(1) f show ?thesis by (simp add: daemon_handle_signal_def Let_def case_prod_beta)
qed

theorem daemon_reaps_unknown_witness:
  "daemon_handle_signal (idle_os\<lparr>os_proc := idle_proc\<lparr>proc_signals := \<lambda>s. ([SIGCHLD], s)\<rparr>\<rparr>) [some_child 7] idle_world = None"
  by (rule daemon_reaps_unknown) (simp_all add: idle_proc_def)

text \<open>A client too many is refused: when the list is full, the accepted connection is told so and closed,
  the list stays as it is, and the master goes on, whatever \<open>fork\<close> would do.\<close>

lemma handle_client_full:
  assumes "sends_ok os" and "cfg_max_clients (w_config w) \<noteq> -1"
    and "cfg_max_clients (w_config w) \<le> int (length cs)" and "sys_accept os srv (w_os w) = (Inr (fd, addr), s')"
  shows "\<exists>w'. handle_client p os srv pipefds cs w = Some ((FTP_SUCCESS, cs), w')
    \<and> w_out w' fd = w_out w fd @ ''421 Too many clients'' @ CRLF \<and> w_fds w' = w_fds w - {fd}"
proof -
  let ?v = "w\<lparr>w_os := s', w_fds := insert fd (w_fds w)\<rparr>"
  let ?u = "emit fd (''421 Too many clients'' @ CRLF) ?v"
  have "handle_client p os srv pipefds cs w = Some ((FTP_SUCCESS, cs), c_close os fd ?u)"
    using assms by (simp add: handle_client_def os_call_def pre_server_def Let_def sendall_ok)
  moreover have "w_out (c_close os fd u) = w_out u" "w_fds (c_close os fd u) = w_fds u - {fd}" for u :: "'a world"
    by (auto simp: c_close_def os_call_def Let_def split: prod.splits sum.splits)
  ultimately show ?thesis by simp
qed

lemma handle_client_full_example:
  "\<exists>w'. handle_client (core_pool 32) one_client_os 3 (6, 7) [some_child 2] one_client_world = Some ((FTP_SUCCESS, [some_child 2]), w')
    \<and> w_out w' 9 = w_out one_client_world 9 @ ''421 Too many clients'' @ CRLF \<and> w_fds w' = w_fds one_client_world - {9}"
  by (rule handle_client_full [where addr = "''''" and s' = "()"])
     (simp_all add: one_client_os_def one_client_world_def idle_os_def idle_net_def sends_ok_def)

end
