(* ===== verification/Ftp_Log.thy ===== *)
theory Ftp_Log
  imports Ftp_Config
begin

text \<open>
  \<open>log.c\<close>: where a message goes. The text of a message is its format after substitution; a message is
  modelled by the records it produces, since no other part of the program reads them.
\<close>

definition PROGNAME :: string where "PROGNAME = ''ftpd''"

text \<open>A call of \<open>vsyslog\<close> with its urgency, or a line on the standard error output.\<close>

datatype log_entry =
    Syslog int string
  | Stderr string

text \<open>The urgencies of \<open>syslog.h\<close>.\<close>

definition LOG_ERR :: int where "LOG_ERR = 3"
definition LOG_WARNING :: int where "LOG_WARNING = 4"
definition LOG_INFO :: int where "LOG_INFO = 6"
definition LOG_DEBUG :: int where "LOG_DEBUG = 7"

text \<open>What is written for a line on the standard error output by the process \<open>pid\<close>.\<close>

definition stderr_text :: "nat \<Rightarrow> string \<Rightarrow> string" where
  "stderr_text pid msg = PROGNAME @ ''['' @ dec pid @ '']: '' @ msg"

definition vlogger :: "ftp_config \<Rightarrow> bool \<Rightarrow> int \<Rightarrow> string \<Rightarrow> log_entry list" where
  "vlogger c syslog_enabled urgency msg =
     (if cfg_syslog c \<and> syslog_enabled then [Syslog urgency msg] else []) @ [Stderr msg]"

definition logger :: "ftp_config \<Rightarrow> bool \<Rightarrow> int \<Rightarrow> string \<Rightarrow> int \<times> log_entry list" where
  "logger c syslog_enabled urgency msg = (0, vlogger c syslog_enabled urgency msg)"

definition log_fatal :: "ftp_config \<Rightarrow> bool \<Rightarrow> string \<Rightarrow> int \<times> log_entry list" where
  "log_fatal c syslog_enabled msg = (0, vlogger c syslog_enabled LOG_ERR msg)"

definition log_warn :: "ftp_config \<Rightarrow> bool \<Rightarrow> string \<Rightarrow> int \<times> log_entry list" where
  "log_warn c syslog_enabled msg = (0, vlogger c syslog_enabled LOG_WARNING msg)"

definition log_info :: "ftp_config \<Rightarrow> bool \<Rightarrow> string \<Rightarrow> int \<times> log_entry list" where
  "log_info c syslog_enabled msg = (0, vlogger c syslog_enabled LOG_INFO msg)"

definition log_dbg :: "ftp_config \<Rightarrow> bool \<Rightarrow> string \<Rightarrow> int \<times> log_entry list" where
  "log_dbg c syslog_enabled msg =
     (if \<not> cfg_debug c then (1, []) else (0, vlogger c syslog_enabled LOG_DEBUG msg))"

text \<open>The result, \<open>syslog_enabled\<close> afterwards, and what is logged.\<close>

definition start_log :: "ftp_config \<Rightarrow> bool \<Rightarrow> int \<times> bool \<times> log_entry list" where
  "start_log c syslog_enabled = (let en = (if cfg_syslog c then True else syslog_enabled)
     in (FTP_SUCCESS, en, snd (log_dbg c en (''Starting log'' @ [LF]))))"

text \<open>From \<open>start_log\<close> on, a message that is not for debugging goes to the system log exactly when the
  configuration asks for it, and always to the standard error output.\<close>

lemma started_log_entries:
  assumes "start_log c False = (r, en, es)"
    and "f \<in> {log_fatal, log_warn, log_info}"
  shows "(\<exists>u. Syslog u msg \<in> set (snd (f c en msg))) \<longleftrightarrow> cfg_syslog c"
    and "last (snd (f c en msg)) = Stderr msg"
  using assms by (auto simp: start_log_def Let_def log_fatal_def log_warn_def log_info_def vlogger_def split: if_splits)

end
