(* ===== verification/Ftp_Startup.thy ===== *)
theory Ftp_Startup
  imports Ftp_Daemon Ftp_Log
begin

text \<open>
  \<open>main.c\<close>, with \<open>start_log\<close> of \<open>log.c\<close>: reading the arguments and the configuration, the initialisations
  in their order, the daemon, and the way out. What \<open>getopt\<close> returns, one result after the other, is a
  parameter, and so is what the system calls on a configuration file of a given name return.
\<close>

datatype getopt_result =
    Opt_c string
  | Opt_d
  | Opt_n
  | Opt_missing char
  | Opt_unknown char

definition DEFAULT_CFG_PATH :: string where "DEFAULT_CFG_PATH = ''ftp.conf''"

text \<open>The return value, the path of the configuration file and the configuration.\<close>

fun parse_args :: "getopt_result list \<Rightarrow> string \<Rightarrow> ftp_config \<Rightarrow> int \<times> string \<times> ftp_config" where
  "parse_args [] config_path c = (0, config_path, c)"
| "parse_args (Opt_c optarg # opts) config_path c = parse_args opts optarg c"
| "parse_args (Opt_d # opts) config_path c = parse_args opts config_path (c\<lparr>cfg_debug := True\<rparr>)"
| "parse_args (Opt_n # opts) config_path c = parse_args opts config_path c"
| "parse_args (Opt_missing _ # opts) config_path c = (1, config_path, c)"
| "parse_args (Opt_unknown _ # opts) config_path c = (1, config_path, c)"

subsection \<open>Signals\<close>

text \<open>The return value and the signals that now have \<open>signal_handler\<close>; 10 is \<open>SIGUSR1\<close>.\<close>

definition init_signals :: "int \<times> signal list" where
  "init_signals = (0, [SIGINT, SIGTERM, SIGHUP, SIGPIPE, SIGCHLD, SIGOTHER 10])"

subsection \<open>The program\<close>

text \<open>From the accepted configuration on.\<close>

definition run_server :: "'o os \<Rightarrow> 'o world \<Rightarrow> (int \<times> 'o world) option" where
  "run_server os w = (case init_command_pool os w of ((ret, p), w) \<Rightarrow>
     if ret \<noteq> FTP_SUCCESS then Some (1, w)
     else do {
       ((ret, p), w) \<leftarrow> init_core_commands os p w;
       if ret \<noteq> FTP_SUCCESS then Some (1, w)
       else (case init_masterserver os w of
           (None, w) \<Rightarrow> Some (1, w)
         | (Some (server_socket, pipefds), w) \<Rightarrow> do {
             (ret, w) \<leftarrow> daemon_main p os server_socket pipefds w;
             let w = c_close os server_socket w;
             Some (ret, w\<lparr>w_config := snd (unload_config (w_config w))\<rparr>) }) })"

definition main ::
  "'o os \<Rightarrow> (nat \<Rightarrow> bool) \<Rightarrow> (string \<Rightarrow> config_file) \<Rightarrow> getopt_result list \<Rightarrow> 'o world \<Rightarrow> (int \<times> 'o world) option" where
  "main os mem files opts w = (case parse_args opts DEFAULT_CFG_PATH (load_defaults (w_config w)) of
       (ret, config_path, c) \<Rightarrow>
         if ret \<noteq> 0 then Some (1, w\<lparr>w_config := c\<rparr>)
         else do {
           (ret, c) \<leftarrow> load_config mem (files config_path) c;
           let w = w\<lparr>w_config := c\<rparr>;
           if ret \<noteq> FTP_SUCCESS then Some (1, w)
           else if fst init_signals \<noteq> 0 then Some (1, w)
           else if fst (start_log c False) \<noteq> FTP_SUCCESS then Some (1, w)
           else run_server os w })"

subsection \<open>Properties\<close>

text \<open>C26. The server runs only on a configuration it has accepted: on bad arguments, an unreadable file or a
  rejected one \<open>main\<close> returns 1 before its first system call; otherwise it runs on a configuration within
  its bounds (or, for an empty file, on the defaults of \<open>load_defaults\<close> and the arguments).\<close>

theorem main_accepts:
  assumes "main os mem files opts w = Some (r, w')"
  shows "(\<exists>c. r = 1 \<and> w' = w\<lparr>w_config := c\<rparr>)
    \<or> (\<exists>path c0 c. parse_args opts DEFAULT_CFG_PATH (load_defaults (w_config w)) = (0, path, c0)
        \<and> run_server os (w\<lparr>w_config := c\<rparr>) = Some (r, w')
        \<and> (config_ok c \<or> c = c0 \<and> (\<exists>reg. cf_stat (files path) = Some (reg, 0))))"
proof -
  obtain ret path c0 where a: "parse_args opts DEFAULT_CFG_PATH (load_defaults (w_config w)) = (ret, path, c0)"
    by (metis prod_cases3)
  show ?thesis
  proof (cases "ret = 0")
    case True
    obtain s c where l: "load_config mem (files path) c0 = Some (s, c)"
      using assms a True by (auto simp: main_def elim!: bind_SomeE)
    show ?thesis
    proof (cases "s = FTP_SUCCESS")
      case ok: True
      obtain reg n where st: "cf_stat (files path) = Some (reg, n)"
        using l ok by (auto simp: load_config_def split: if_splits option.splits)
      have run: "run_server os (w\<lparr>w_config := c\<rparr>) = Some (r, w')" using assms a True l ok by (simp add: main_def init_signals_def start_log_def Let_def)
      show ?thesis
      proof (cases "n = 0")
        case z: True
        with l ok st have "c = c0" by (auto simp: load_config_def split: if_splits)
        with run a True st z show ?thesis by auto
      next
        case False
        with load_config_ok [OF _ st] l ok have "config_ok c" by simp
        with run a True show ?thesis by auto
      qed
    qed (use assms a True l in \<open>auto simp: main_def\<close>)
  qed (use assms a in \<open>auto simp: main_def\<close>)
qed

theorem main_accepts_witness:
  "main idle_os (\<lambda>_. True) (\<lambda>_. \<lparr>cf_open = False, cf_stat = None, cf_mmap = None\<rparr>) [Opt_d] idle_world
    = Some (1, idle_world\<lparr>w_config := (load_defaults zero_config)\<lparr>cfg_debug := True\<rparr>\<rparr>)
   \<and> (\<exists>c. idle_world\<lparr>w_config := (load_defaults zero_config)\<lparr>cfg_debug := True\<rparr>\<rparr> = idle_world\<lparr>w_config := c\<rparr>)"
proof -
  let ?f = "\<lambda>_. \<lparr>cf_open = False, cf_stat = None, cf_mmap = None\<rparr>"
  let ?w = "idle_world\<lparr>w_config := (load_defaults zero_config)\<lparr>cfg_debug := True\<rparr>\<rparr>"
  have m: "main idle_os (\<lambda>_. True) ?f [Opt_d] idle_world = Some (1, ?w)"
    by (simp add: main_def load_config_def idle_world_at_def)
  from main_accepts [OF m] m show ?thesis by auto
qed

end
