(* ===== verification/Ftp_Confine.thy ===== *)
theory Ftp_Confine
  imports Ftp_Server
begin

text \<open>
  Confinement of whole sessions. The first part shows that what a session does apart from the operations
  of \<open>vfs.c\<close> does not depend on the file system at all; the second lifts the confinement of these
  operations to the handlers, the dispatcher and the main loop: the rest of a logged-in session is the
  same on two systems that agree below its root directory.
\<close>

subsection \<open>What does not depend on the file system\<close>

text \<open>It is enough that results are preserved by every change of the file system calls.\<close>

lemma fs_irrelevant:
  assumes "\<And>os fs x y. f os x = Some y \<Longrightarrow> f (os\<lparr>os_fs := fs\<rparr>) x = Some y"
  shows "f (os\<lparr>os_fs := fs\<rparr>) x = f os x"
proof (cases "f os x")
  case None
  have "f (os\<lparr>os_fs := fs\<rparr>) x \<noteq> Some y" for y
    using assms [of "os\<lparr>os_fs := fs\<rparr>" x y "os_fs os"] None by auto
  then have "f (os\<lparr>os_fs := fs\<rparr>) x = None" by (metis option.exhaust)
  with None show ?thesis by simp
qed (simp add: assms)

named_theorems no_fs

lemmas branch_congs = if_cong option.case_cong sum.case_cong prod.case_cong bool.case_cong

lemma nanosleep_no_fs [no_fs]: "nanosleep_loop (os\<lparr>os_fs := fs\<rparr>) t w = nanosleep_loop os t w"
proof -
  have "nanosleep_loop (os\<lparr>os_fs := fs\<rparr>) t w = Some y" if "nanosleep_loop os t w = Some y"
    for os :: "'a os" and fs t w y
  proof -
    have "\<forall>fs. nanosleep_loop (os\<lparr>os_fs := fs\<rparr>) t w = Some y"
    proof (rule nanosleep_loop.raw_induct [where P = "\<lambda>os t w y. \<forall>fs. nanosleep_loop (os\<lparr>os_fs := fs\<rparr>) t w = Some y", OF _ that])
      fix f and os :: "'a os" and t and w y :: "'a world"
      assume IH: "\<And>os t w y. f os t w = Some y \<Longrightarrow> \<forall>fs. nanosleep_loop (os\<lparr>os_fs := fs\<rparr>) t w = Some y"
        and eq: "(case os_query (sys_nanosleep os t) w of (None, w) \<Rightarrow> Some w | (Some rem, w) \<Rightarrow> f os rem w) = Some y"
      show "\<forall>fs. nanosleep_loop (os\<lparr>os_fs := fs\<rparr>) t w = Some y"
        using eq by (subst nanosleep_loop.simps) (auto dest: IH split: prod.splits option.splits)
    qed
    then show ?thesis by blast
  qed
  then show ?thesis using fs_irrelevant [where f = "\<lambda>os (t, w). nanosleep_loop os t w" and x = "(t, w)"] by auto
qed

lemma calls_no_fs [no_fs]:
  "server_handle_signal (os\<lparr>os_fs := fs\<rparr>) w = server_handle_signal os w"
  "deliver (os\<lparr>os_fs := fs\<rparr>) w = deliver os w"
  "sayf (os\<lparr>os_fs := fs\<rparr>) msg w = sayf os msg w"
  "vfs_failed (os\<lparr>os_fs := fs\<rparr>) w = vfs_failed os w"
  "c_close (os\<lparr>os_fs := fs\<rparr>) fd w = c_close os fd w"
  "vfs_close (os\<lparr>os_fs := fs\<rparr>) fd w = vfs_close os fd w"
  "start_transfer (os\<lparr>os_fs := fs\<rparr>) w = start_transfer os w"
  "transfer_reply (os\<lparr>os_fs := fs\<rparr>) r w = transfer_reply os r w"
  "lseek_opt (os\<lparr>os_fs := fs\<rparr>) fd off w = lseek_opt os fd off w"
  "begin_transfer (os\<lparr>os_fs := fs\<rparr>) w = begin_transfer os w"
  "sendall (os\<lparr>os_fs := fs\<rparr>) fd msg w = sendall os fd msg w"
  by (simp_all add: server_handle_signal_def deliver_def sayf_def vfs_failed_def failed_vfs_reply_def
      c_close_def vfs_close_def start_transfer_def transfer_reply_def lseek_opt_def begin_transfer_def
      sendall_def Let_def cong: branch_congs)

lemma accept_data_conn_no_fs [no_fs]: "accept_data_conn (os\<lparr>os_fs := fs\<rparr>) con w = accept_data_conn os con w"
  by (simp add: accept_data_conn_def no_fs cong: branch_congs)

lemma splice_stream_no_fs [no_fs]:
  "splice_stream (os\<lparr>os_fs := fs\<rparr>) out oo inp io n w = splice_stream os out oo inp io n w"
  by (simp add: splice_stream_def no_fs Let_def cong: branch_congs)

lemma throttle_no_fs [no_fs]: "throttle_pause (os\<lparr>os_fs := fs\<rparr>) w = throttle_pause os w"
proof -
  have "throttle_report (os\<lparr>os_fs := fs\<rparr>) d w = throttle_report os d w"
    "throttle_sleep (os\<lparr>os_fs := fs\<rparr>) n d w = throttle_sleep os n d w" for n d w
    by (simp_all add: throttle_report_def throttle_sleep_def no_fs cong: branch_congs)
  then show ?thesis by (simp add: throttle_pause_def Let_def cong: branch_congs)
qed

lemma splice_retry_no_fs [no_fs]:
  "splice_retry (os\<lparr>os_fs := fs\<rparr>) out inp off n w = splice_retry os out inp off n w"
proof -
  have "splice_retry (os\<lparr>os_fs := fs\<rparr>) out inp off n w = Some y" if "splice_retry os out inp off n w = Some y"
    for os :: "'a os" and fs out inp off n w y
  proof -
    have "\<forall>fs. splice_retry (os\<lparr>os_fs := fs\<rparr>) out inp off n w = Some y"
    proof (rule splice_retry.raw_induct
        [where P = "\<lambda>os out inp off n w y. \<forall>fs. splice_retry (os\<lparr>os_fs := fs\<rparr>) out inp off n w = Some y", OF _ that])
      fix f and os :: "'a os" and out inp off n and w :: "'a world" and y
      assume IH: "\<And>os out inp off n w y. f os out inp off n w = Some y \<Longrightarrow>
          \<forall>fs. splice_retry (os\<lparr>os_fs := fs\<rparr>) out inp off n w = Some y"
        and eq: "(case splice_stream os out None inp (Some off) n w of ((ret, _, off'), w) \<Rightarrow>
          if ret \<noteq> -1 then Some (Inr ret, w)
          else if w_errno w = EINTR
          then (case server_handle_signal os w of (sig, w) \<Rightarrow>
                 if sig \<noteq> FTP_SUCCESS then Some (Inl FTP_QUIT, w)
                 else f os out inp (case off' of None \<Rightarrow> off | Some o' \<Rightarrow> o') n w)
          else Some (Inl (splice_failed (w_errno w)), w)) = Some y"
      show "\<forall>fs. splice_retry (os\<lparr>os_fs := fs\<rparr>) out inp off n w = Some y"
        using eq by (subst splice_retry.simps) (auto simp: no_fs dest: IH split: prod.splits if_splits)
    qed
    then show ?thesis by blast
  qed
  then show ?thesis
    using fs_irrelevant [where f = "\<lambda>os (out, inp, off, n, w). splice_retry os out inp off n w"
        and x = "(out, inp, off, n, w)"] by auto
qed

lemma transfer_file_no_fs [no_fs]:
  "transfer_file (os\<lparr>os_fs := fs\<rparr>) data inp off n w = transfer_file os data inp off n w"
proof -
  have "transfer_blocks (os\<lparr>os_fs := fs\<rparr>) data inp off i k w = transfer_blocks os data inp off i k w" for i k w
    by (induction k arbitrary: i w) (simp_all add: no_fs Let_def cong: branch_congs)
  then show ?thesis by (simp add: transfer_file_def no_fs Let_def cong: branch_congs)
qed

lemma store_file_no_fs [no_fs]: "store_file (os\<lparr>os_fs := fs\<rparr>) out data w = store_file os out data w"
proof -
  have "store_loop (os\<lparr>os_fs := fs\<rparr>) out data off w = Some y" if "store_loop os out data off w = Some y"
    for os :: "'a os" and fs out data off w y
  proof -
    have "\<forall>fs. store_loop (os\<lparr>os_fs := fs\<rparr>) out data off w = Some y"
    proof (rule store_loop.raw_induct
        [where P = "\<lambda>os out data off w y. \<forall>fs. store_loop (os\<lparr>os_fs := fs\<rparr>) out data off w = Some y", OF _ that])
      fix f and os :: "'a os" and out data off and w :: "'a world" and y
      assume IH: "\<And>os out data off w y. f os out data off w = Some y \<Longrightarrow>
          \<forall>fs. store_loop (os\<lparr>os_fs := fs\<rparr>) out data off w = Some y"
        and eq: "(case splice_stream os out (Some off) data None (nat XFER_BLOCK_SIZE) w of
          ((ret, off', _), w) \<Rightarrow>
            let offset = (case off' of None \<Rightarrow> off | Some o' \<Rightarrow> o')
            in if ret = 0 then Some (FTP_SUCCESS, w)
               else if ret = -1
               then (if w_errno w = EINTR
                     then (case server_handle_signal os w of (sig, w) \<Rightarrow>
                       if sig \<noteq> FTP_SUCCESS then Some (FTP_QUIT, w) else f os out data offset w)
                     else Some (splice_failed (w_errno w), w))
               else (case throttle_pause os (upd_info (\<lambda>x. x\<lparr>probe_len := probe_len x + of_int ret,
                         xfer_len := xfer_len x + of_int ret\<rparr>) w) of
                   None \<Rightarrow> None
                 | Some (_, w) \<Rightarrow>
                     (let w = deliver os w
                      in if w_signal_flag w \<noteq> 0
                         then (case server_handle_signal os w of (sig, w) \<Rightarrow>
                           if sig \<noteq> FTP_SUCCESS then Some (FTP_QUIT, w) else f os out data offset w)
                         else f os out data offset w))) = Some y"
      show "\<forall>fs. store_loop (os\<lparr>os_fs := fs\<rparr>) out data off w = Some y"
        using eq by (subst store_loop.simps) (auto simp: no_fs Let_def dest: IH split: prod.splits option.splits if_splits)
    qed
    then show ?thesis by blast
  qed
  then have "store_loop (os\<lparr>os_fs := fs\<rparr>) out data off w = store_loop os out data off w" for off w
    using fs_irrelevant [where f = "\<lambda>os (out, data, off, w). store_loop os out data off w" and x = "(out, data, off, w)"]
    by auto
  then show ?thesis by (simp add: store_file_def no_fs Let_def)
qed

lemma read_cmd_no_fs [no_fs]: "read_cmd (os\<lparr>os_fs := fs\<rparr>) w = read_cmd os w"
proof -
  have poll: "read_poll (os\<lparr>os_fs := fs\<rparr>) fd n w = read_poll os fd n w" for os :: "'a os" and fs fd n w
    by (simp add: read_poll_def no_fs cong: branch_congs)
  have "read_cmd (os\<lparr>os_fs := fs\<rparr>) w = Some y" if "read_cmd os w = Some y" for os :: "'a os" and fs w y
  proof -
    have "\<forall>fs. read_cmd (os\<lparr>os_fs := fs\<rparr>) w = Some y"
    proof (rule read_cmd.raw_induct [where P = "\<lambda>os w y. \<forall>fs. read_cmd (os\<lparr>os_fs := fs\<rparr>) w = Some y", OF _ that])
      fix f and os :: "'a os" and w :: "'a world" and y
      assume IH: "\<And>os w y. f os w = Some y \<Longrightarrow> \<forall>fs. read_cmd (os\<lparr>os_fs := fs\<rparr>) w = Some y"
        and eq: "(if memchr (c_line (w_command w)) LF (c_dirty_len (w_command w)) \<noteq> None then Some (FTP_SUCCESS, w)
          else (case read_poll os (sock (w_conn w)) (c_line_len (w_command w) - c_dirty_len (w_command w)) w of
            ((len, bs), w) \<Rightarrow>
              if len = 0 then Some (FTP_QUIT, w)
              else if len = -1
              then (if w_errno w = EINTR
                    then (case server_handle_signal os w of (sig, w) \<Rightarrow>
                      if sig = FTP_QUIT then Some (FTP_QUIT, w) else f os w)
                    else Some (FTP_ERROR, w))
              else (case blit (c_line (w_command w)) (c_dirty_len (w_command w)) bs of
                  None \<Rightarrow> None
                | Some b \<Rightarrow>
                    (let w = upd_command (\<lambda>c. c\<lparr>c_line := b, c_dirty_len := c_dirty_len c + length bs\<rparr>) w
                     in if c_dirty_len (w_command w) \<ge> c_line_len (w_command w)
                        then do { (_, w) \<leftarrow> say os ''421 Command line too long'' w; Some (FTP_QUIT, w) }
                        else f os w)))) = Some y"
      show "\<forall>fs. read_cmd (os\<lparr>os_fs := fs\<rparr>) w = Some y"
        using eq by (subst read_cmd.simps) (auto simp: no_fs poll Let_def dest: IH split: prod.splits option.splits if_splits)
    qed
    then show ?thesis by blast
  qed
  then show ?thesis using fs_irrelevant [where f = read_cmd and x = w] by blast
qed

subsection \<open>Handlers\<close>

text \<open>A logged-in session on a system that may be exchanged for one that agrees below its root directory.\<close>

definition agrees :: "'o os_fs \<Rightarrow> 'o os \<Rightarrow> 'o world \<Rightarrow> bool" where
  "agrees fs os w \<longleftrightarrow> session_ok w \<and> logged_in (w_login w) \<and> same_below (vfs_root w) os (os\<lparr>os_fs := fs\<rparr>)"

lemma agrees_keeps: "agrees fs os w \<Longrightarrow> keeps w u \<Longrightarrow> agrees fs os u"
  by (simp add: agrees_def keeps_def)

lemma agrees_within: "agrees fs os w \<Longrightarrow> within keeps w m \<Longrightarrow> m = Some (r, u) \<Longrightarrow> agrees fs os u"
  by (rule agrees_keeps) (auto simp: within_def)

lemma agrees_vquiet: "agrees fs os w \<Longrightarrow> vquiet w u \<Longrightarrow> agrees fs os u"
  by (rule agrees_keeps [OF _ vquiet_keeps])

lemma agrees_vfs:
  assumes a: "agrees fs os w" and p: "nul_free p"
  shows "vfs_stat (os\<lparr>os_fs := fs\<rparr>) (w_cwd w) p w = vfs_stat os (w_cwd w) p w"
    and "vfs_open (os\<lparr>os_fs := fs\<rparr>) (w_cwd w) p w = vfs_open os (w_cwd w) p w"
    and "vfs_creat (os\<lparr>os_fs := fs\<rparr>) (w_cwd w) p m w = vfs_creat os (w_cwd w) p m w"
    and "vfs_mkdir (os\<lparr>os_fs := fs\<rparr>) (w_cwd w) p m w = vfs_mkdir os (w_cwd w) p m w"
    and "vfs_rmdir (os\<lparr>os_fs := fs\<rparr>) (w_cwd w) p w = vfs_rmdir os (w_cwd w) p w"
    and "vfs_unlink (os\<lparr>os_fs := fs\<rparr>) (w_cwd w) p w = vfs_unlink os (w_cwd w) p w"
    and "vfs_opendir (os\<lparr>os_fs := fs\<rparr>) (w_cwd w) p w = vfs_opendir os (w_cwd w) p w"
  using vfs_same_below [of w os "os\<lparr>os_fs := fs\<rparr>" "w_cwd w" p] a p session_okD(2,8) [of w]
  by (simp_all add: agrees_def)

lemma agrees_arg: "agrees fs os w \<Longrightarrow> nul_free (w_arg w)"
  by (simp add: agrees_def)

text \<open>Two computations are the same when their parts are.\<close>

lemma bind_same:
  assumes "x = y" and "\<And>r u. y = Some (r, u) \<Longrightarrow> f r u = g r u"
  shows "(x \<bind> (\<lambda>(r, u). f r u)) = (y \<bind> (\<lambda>(r, u). g r u))"
  using assms by (cases y) auto

lemma if_same: "(c \<Longrightarrow> x = x') \<Longrightarrow> (\<not> c \<Longrightarrow> y = y') \<Longrightarrow> (if c then x else y) = (if c then x' else y')"
  by simp

lemma sum_same: "(\<And>e. x = Inl e \<Longrightarrow> f e = f' e) \<Longrightarrow> (\<And>v. x = Inr v \<Longrightarrow> g v = g' v) \<Longrightarrow>
    (case x of Inl e \<Rightarrow> f e | Inr v \<Rightarrow> g v) = (case x of Inl e \<Rightarrow> f' e | Inr v \<Rightarrow> g' v)"
  by (cases x) simp_all

text \<open>Handlers with one path operation, on their argument.\<close>

lemma simple_handlers_agree:
  assumes "agrees fs os w"
  shows "docwd (os\<lparr>os_fs := fs\<rparr>) w = docwd os w" and "domkd (os\<lparr>os_fs := fs\<rparr>) w = domkd os w"
    and "dormd (os\<lparr>os_fs := fs\<rparr>) w = dormd os w" and "dodele (os\<lparr>os_fs := fs\<rparr>) w = dodele os w"
    and "dosize (os\<lparr>os_fs := fs\<rparr>) w = dosize os w" and "domdtm (os\<lparr>os_fs := fs\<rparr>) w = domdtm os w"
  by (simp_all add: docwd_def domkd_def dormd_def dodele_def dosize_def domdtm_def no_fs
      agrees_vfs [OF assms agrees_arg [OF assms]] cong: branch_congs)

lemma docdup_agrees:
  assumes "agrees fs os w" shows "docdup (os\<lparr>os_fs := fs\<rparr>) w = docdup os w"
proof -
  have "keeps w (upd_command (\<lambda>c. c\<lparr>c_arg := ''..''\<rparr>) w)" by (intro keeps_upd_arg) (simp_all add: nul_free_def)
  then show ?thesis unfolding docdup_def by (rule simple_handlers_agree(1) [OF agrees_keeps [OF assms]])
qed

lemma set_filename_agrees: "agrees fs os w \<Longrightarrow> set_filename (w_arg w) w = Some (n, u) \<Longrightarrow> agrees fs os u"
  by (rule agrees_within [OF _ set_filename_within]) (auto simp: agrees_def)

lemma doretr_agrees:
  assumes a: "agrees fs os w" shows "doretr (os\<lparr>os_fs := fs\<rparr>) w = doretr os w"
  unfolding doretr_def Let_def
proof (rule bind_same [OF refl], goal_cases)
  case (1 n u)
  note u = set_filename_agrees [OF a 1]
  note stat = agrees_vfs(1) [OF u agrees_arg [OF a]]
  have opn: "vfs_open (os\<lparr>os_fs := fs\<rparr>) (w_cwd v) (w_arg w) v = vfs_open os (w_cwd v) (w_arg w) v"
    if "vfs_stat os (w_cwd u) (w_arg w) u = Some (r, v)" for r v
    by (rule agrees_vfs(2) [OF agrees_vquiet [OF u vfs_stat_vquiet [OF that]] agrees_arg [OF a]])
  have send: "retr_transfer (os\<lparr>os_fs := fs\<rparr>) fd d off k v = retr_transfer os fd d off k v" for fd d off k v
    by (simp add: retr_transfer_def no_fs Let_def)
  show ?case
    by (intro if_same bind_same sum_same stat) (simp_all add: no_fs opn send cong: branch_congs)
qed

lemma dostor_agrees:
  assumes a: "agrees fs os w" shows "dostor (os\<lparr>os_fs := fs\<rparr>) w = dostor os w"
  unfolding dostor_def Let_def
proof (rule bind_same [OF refl], goal_cases)
  case (1 n u)
  note creat = agrees_vfs(3) [OF set_filename_agrees [OF a 1] agrees_arg [OF a]]
  have recv: "stor_transfer (os\<lparr>os_fs := fs\<rparr>) fd d v = stor_transfer os fd d v" for fd d v
    by (simp add: stor_transfer_def no_fs Let_def)
  show ?case by (simp add: creat no_fs recv cong: branch_congs)
qed

subsection \<open>Listings\<close>

lemma agrees_swap: "agrees fs os w \<Longrightarrow> agrees (os_fs os) (os\<lparr>os_fs := fs\<rparr>) w"
  by (auto simp: agrees_def same_below_def)

text \<open>As \<open>fs_irrelevant\<close>, for the states in which the two systems agree.\<close>

lemma agrees_same:
  assumes "\<And>fs os w y. agrees fs os w \<Longrightarrow> f os w = Some y \<Longrightarrow> f (os\<lparr>os_fs := fs\<rparr>) w = Some y"
    and "agrees fs os w"
  shows "f (os\<lparr>os_fs := fs\<rparr>) w = f os w"
proof (cases "f os w")
  case None
  have "f (os\<lparr>os_fs := fs\<rparr>) w \<noteq> Some y" for y
    using assms(1) [OF agrees_swap [OF assms(2)], of y] None by auto
  then have "f (os\<lparr>os_fs := fs\<rparr>) w = None" by (metis option.exhaust)
  with None show ?thesis by simp
qed (simp add: assms)

lemma send_filestat_agrees:
  assumes "agrees fs os w" and "nul_free p"
  shows "send_filestat (os\<lparr>os_fs := fs\<rparr>) (w_cwd w) p d w = send_filestat os (w_cwd w) p d w"
  by (simp add: send_filestat_def agrees_vfs [OF assms] no_fs Let_def cong: branch_congs)

lemma agrees_dir: "agrees fs os w \<Longrightarrow> fs_readdir fs = sys_readdir os \<and> fs_closedir fs = sys_closedir os"
  by (simp add: agrees_def same_below_def)

lemma read_entries_agrees:
  assumes "agrees fs os w" shows "read_entries (os\<lparr>os_fs := fs\<rparr>) drv opt w = read_entries os drv opt w"
proof (rule agrees_same [where f = "\<lambda>os w. read_entries os drv opt w", OF _ assms])
  fix fs and os :: "'a os" and w y assume a: "agrees fs os w" and r: "read_entries os drv opt w = Some y"
  have "\<forall>fs. agrees fs os w \<longrightarrow> read_entries (os\<lparr>os_fs := fs\<rparr>) drv opt w = Some y"
  proof (rule read_entries.raw_induct
      [where P = "\<lambda>os drv opt w y. \<forall>fs. agrees fs os w \<longrightarrow> read_entries (os\<lparr>os_fs := fs\<rparr>) drv opt w = Some y", OF _ r])
    fix f and os :: "'a os" and drv opt and w :: "'a world" and y
    assume IH: "\<And>os drv opt w y. f os drv opt w = Some y \<Longrightarrow>
        \<forall>fs. agrees fs os w \<longrightarrow> read_entries (os\<lparr>os_fs := fs\<rparr>) drv opt w = Some y"
      and eq: "(case os_query (sys_readdir os drv) w of (None, w) \<Rightarrow> Some ((), w)
        | (Some d_name, w) \<Rightarrow> let name = cstr d_name in
           if hidden name \<and> \<not> opt then f os drv opt w
           else (case send_filestat os (w_cwd w) name (data_sock (w_conn w)) w of
               None \<Rightarrow> None
             | Some (ret, w) \<Rightarrow> if ret \<noteq> FTP_SUCCESS \<and> ret \<noteq> FTP_FAIL then Some ((), w)
                 else f os drv opt w)) = Some y"
    show "\<forall>fs. agrees fs os w \<longrightarrow> read_entries (os\<lparr>os_fs := fs\<rparr>) drv opt w = Some y"
    proof (intro allI impI)
      fix fs assume a: "agrees fs os w"
      obtain e w1 where c: "os_query (sys_readdir os drv) w = (e, w1)" by force
      have a1: "agrees fs os w1" by (rule agrees_vquiet [OF a quiet_vquiet [OF os_query_quiet [OF c]]])
      have s: "send_filestat (os\<lparr>os_fs := fs\<rparr>) (w_cwd w1) (cstr n) d w1 = send_filestat os (w_cwd w1) (cstr n) d w1"
        for n d by (rule send_filestat_agrees [OF a1]) simp
      have a2: "agrees fs os w2" if "send_filestat os (w_cwd w1) n d w1 = Some (r, w2)" for n d r w2
        by (rule agrees_vquiet [OF a1 send_filestat_vquiet [OF that]])
      have IH': "read_entries (os\<lparr>os_fs := fs\<rparr>) drv o' v = Some y"
        if "f os drv o' v = Some y" "agrees fs os v" for o' v
        using IH that by blast
      show "read_entries (os\<lparr>os_fs := fs\<rparr>) drv opt w = Some y"
        using eq agrees_dir [OF a] c
        by (subst read_entries.simps)
           (auto simp: s Let_def intro: IH' a1 a2 split: option.splits if_splits)
    qed
  qed
  with a show "read_entries (os\<lparr>os_fs := fs\<rparr>) drv opt w = Some y" by blast
qed

lemma list_directory_agrees:
  assumes a: "agrees fs os w" and p: "nul_free p"
  shows "list_directory (os\<lparr>os_fs := fs\<rparr>) p opt w = list_directory os p opt w"
  unfolding list_directory_def Let_def
proof ((rule bind_same [OF refl])+, goal_cases)
  case (1 _ b r u)
  have u: "agrees fs os u" by (rule agrees_within [OF a session_chdir_within 1(2)])
    (use a p in \<open>simp_all add: agrees_def\<close>)
  have dot: "nul_free ''.''" by (simp add: nul_free_def)
  have rd: "read_entries (os\<lparr>os_fs := fs\<rparr>) d opt v = read_entries os d opt v"
    if "vfs_opendir os (w_cwd u) ''.'' u = Some (x, v)" for x v d
    by (rule read_entries_agrees [OF agrees_vquiet [OF u vfs_opendir_vquiet [OF that]]])
  have cl: "vfs_closedir (os\<lparr>os_fs := fs\<rparr>) d v = vfs_closedir os d v" for d v
    using agrees_dir [OF a] by (simp add: vfs_closedir_def)
  show ?case
    by (intro bind_same sum_same agrees_vfs(7) [OF u dot]) (simp_all add: no_fs rd cl)
qed

lemma dolist_agrees:
  assumes a: "agrees fs os w" shows "dolist (os\<lparr>os_fs := fs\<rparr>) w = dolist os w"
proof (cases "parse_list_options (w_arg w)")
  case (Some x)
  obtain opt argument arg where x: "x = (opt, argument, arg)" by (cases x)
  let ?p = "if argument = [] then ''.'' else argument" and ?u = "upd_command (\<lambda>c. c\<lparr>c_arg := arg\<rparr>) w"
  have nf: "nul_free arg" "nul_free ?p"
  proof -
    have "nul_free ''.''" by (simp add: nul_free_def)
    then show "nul_free arg" "nul_free ?p"
      using Some x by (auto simp: parse_list_options_def elim!: bind_SomeE split: prod.splits)
  qed
  have u: "agrees fs os ?u" by (rule agrees_keeps [OF a keeps_upd_arg [OF keeps_refl nf(1)]])
  have l: "list_directory (os\<lparr>os_fs := fs\<rparr>) ?p opt y = list_directory os ?p opt y"
      "list_file (os\<lparr>os_fs := fs\<rparr>) ?p y = list_file os ?p y" if y: "agrees fs os y" for y
    by (rule list_directory_agrees [OF y nf(2)])
       (simp only: list_file_def send_filestat_agrees [OF y nf(2)])
  have y: "agrees fs os y" if "vfs_stat os (w_cwd ?u) ?p ?u = Some (r, v)"
      "accept_data_conn os (w_conn v) v = Some (d, x)"
      "say os m (upd_conn (\<lambda>c. c\<lparr>data_sock := d\<rparr>) x) = Some (k, y)" for r v d x m k y
  proof -
    have "keeps ?u v" by (rule vquiet_keeps [OF vfs_stat_vquiet [OF that(1)]])
    then have "keeps ?u x" by (rule keeps_then_quiet [OF _ accept_data_conn_quiet [OF that(2)]])
    then have "keeps ?u (upd_conn (\<lambda>c. c\<lparr>data_sock := d\<rparr>) x)" by (rule keeps_upd_socks(2))
    then have "within keeps ?u (say os m (upd_conn (\<lambda>c. c\<lparr>data_sock := d\<rparr>) x))" by (rule keeps_says(1))
    from agrees_within [OF u this that(3)] show ?thesis .
  qed
  show ?thesis
    unfolding dolist_def Let_def Some x bind.bind_lunit prod.case
    by (intro if_same bind_same sum_same agrees_vfs(1) [OF u nf(2)]) (simp_all add: no_fs l y)
qed (simp add: dolist_def)

subsection \<open>Dispatcher and main loop\<close>

lemma dopasv_no_fs: "dopasv (os\<lparr>os_fs := fs\<rparr>) w = dopasv os w"
proof -
  have "bind_ports (os\<lparr>os_fs := fs\<rparr>) fd p n w = bind_ports os fd p n w" for fd p n w
    by (induction n arbitrary: p w) (simp_all cong: branch_congs)
  then have "pasv_listen (os\<lparr>os_fs := fs\<rparr>) fd w = pasv_listen os fd w" for fd w
    by (simp add: pasv_listen_def Let_def cong: branch_congs)
  then show ?thesis by (simp add: dopasv_def Let_def no_fs cong: branch_congs)
qed

lemma handler_agrees:
  assumes "c \<in> set core_command_list" and "agrees fs os w"
  shows "cmd_fun c (os\<lparr>os_fs := fs\<rparr>) w = cmd_fun c os w"
proof (cases "needs_login c")
  case True
  have plain: "doabor (os\<lparr>os_fs := fs\<rparr>) w = doabor os w" "doacct (os\<lparr>os_fs := fs\<rparr>) w = doacct os w"
    "doallo (os\<lparr>os_fs := fs\<rparr>) w = doallo os w" "doclnt (os\<lparr>os_fs := fs\<rparr>) w = doclnt os w"
    "dopwd (os\<lparr>os_fs := fs\<rparr>) w = dopwd os w" "dotype (os\<lparr>os_fs := fs\<rparr>) w = dotype os w"
    "dorest (os\<lparr>os_fs := fs\<rparr>) w = dorest os w"
    by (simp_all add: doabor_def doacct_def doallo_def doclnt_def dopwd_def dotype_def dorest_def
        no_fs Let_def cong: branch_congs)
  note a = assms(2)
  have "list_all (\<lambda>c. needs_login c \<longrightarrow> cmd_fun c (os\<lparr>os_fs := fs\<rparr>) w = cmd_fun c os w) core_command_list"
    by (simp add: core_command_list_def plain simple_handlers_agree [OF a] docdup_agrees [OF a] doretr_agrees [OF a]
        dostor_agrees [OF a] dolist_agrees [OF a] dopasv_no_fs)
  with assms(1) True show ?thesis by (simp add: list_all_iff)
qed (use open_handlers [OF assms(1)] in simp)

lemma do_cmd_agrees:
  assumes "agrees fs os w"
  shows "do_cmd (core_pool n) (os\<lparr>os_fs := fs\<rparr>) w = do_cmd (core_pool n) os w"
proof (cases "find_command (core_pool n) (cstr (c_line (w_command w))) :: 'a cmd_handler option")
  case (Some c)
  then have "c \<in> set core_command_list" by (simp add: core.search_iff)
  with Some handler_agrees [OF _ assms] show ?thesis by (simp add: do_cmd_def pre_command_then)
qed (simp add: do_cmd_def)

text \<open>One round of the loop leads to a state in which the systems still agree.\<close>

lemma parse_agrees:
  assumes a: "agrees fs os w" and r: "read_cmd os w = Some (r, w1)" and p: "parse_cmd w1 = (s, w2)"
  shows "agrees fs os w2"
proof -
  have "served w w2" by (rule served_trans [OF read_cmd_served [OF r] parse_cmd_served [OF p]])
  with a show ?thesis by (simp add: agrees_def served_def)
qed

lemma step_agrees:
  assumes "mem_ok os" and "agrees fs os w" and "session_step (core_pool n) os w w'"
  shows "agrees fs os w'"
  using session_step_served [OF assms(1) _ assms(3)] assms(2) by (simp add: agrees_def served_def)

lemma serve_agrees:
  assumes mem: "mem_ok os" and a: "agrees fs os w" and s: "serve (core_pool n) os w = Some y"
  shows "serve (core_pool n) (os\<lparr>os_fs := fs\<rparr>) w = Some y"
proof -
  have "(core_pool n :: 'a cmd_pool) = core_pool n \<longrightarrow> mem_ok os \<longrightarrow> agrees fs os w \<longrightarrow> serve (core_pool n) (os\<lparr>os_fs := fs\<rparr>) w = Some y"
  proof (rule serve.raw_induct [where P = "\<lambda>p os w y. p = core_pool n \<longrightarrow> mem_ok os \<longrightarrow> agrees fs os w \<longrightarrow>
      serve (core_pool n) (os\<lparr>os_fs := fs\<rparr>) w = Some y", OF _ s])
    fix f and p :: "'a cmd_pool" and os :: "'a os" and w :: "'a world" and y
    assume IH: "\<And>p os w y. f p os w = Some y \<Longrightarrow> p = core_pool n \<longrightarrow> mem_ok os \<longrightarrow> agrees fs os w \<longrightarrow>
        serve (core_pool n) (os\<lparr>os_fs := fs\<rparr>) w = Some y"
      and eq: "(case read_cmd os w of
         None \<Rightarrow> None
       | Some (ret, w) \<Rightarrow>
           if ret \<noteq> FTP_SUCCESS then Some (ret, w)
           else (case parse_cmd w of (ret, w) \<Rightarrow>
             if ret \<noteq> FTP_SUCCESS then Some (ret, w)
             else (case do_cmd p os w of
                 None \<Rightarrow> None
               | Some (ret, w) \<Rightarrow>
                   if ret \<noteq> FTP_SUCCESS then Some (ret, w)
                   else (case remove_cmd w of (ret, w) \<Rightarrow>
                     if ret \<noteq> FTP_SUCCESS then Some (ret, w) else f p os w)))) = Some y"
    show "p = core_pool n \<longrightarrow> mem_ok os \<longrightarrow> agrees fs os w \<longrightarrow> serve (core_pool n) (os\<lparr>os_fs := fs\<rparr>) w = Some y"
    proof (intro impI)
      assume p: "p = core_pool n" and mem: "mem_ok os" and a: "agrees fs os w"
      have d: "do_cmd (core_pool n) (os\<lparr>os_fs := fs\<rparr>) w2 = do_cmd (core_pool n) os w2"
        if "read_cmd os w = Some (r, w1)" "parse_cmd w1 = (s, w2)" for r s w1 w2
        by (rule do_cmd_agrees [OF parse_agrees [OF a that]])
      have IH': "serve (core_pool n) (os\<lparr>os_fs := fs\<rparr>) w4 = Some y"
        if "f (core_pool n) os w4 = Some y" "session_step (core_pool n) os w w4" for w4
        using IH [OF that(1)] step_agrees [OF mem a that(2)] mem by blast
      show "serve (core_pool n) (os\<lparr>os_fs := fs\<rparr>) w = Some y"
        using eq [unfolded p]
        by (subst serve.simps)
           (auto simp: no_fs d split: option.splits prod.splits if_splits intro!: IH' session_step.round)
    qed
  qed
  with mem a show ?thesis by blast
qed

subsection \<open>Properties\<close>

text \<open>C3. A session is confined to its root directory: from a logged-in state, everything that follows,
  whatever commands the client sends and whether the session ends or not, is the same on two systems
  whose file systems answer alike for the root directory and the canonical paths below it. So no client
  input reaches, or depends on, anything else.\<close>

theorem session_confined:
  assumes mem: "mem_ok a" and ok: "session_ok w" and l: "logged_in (w_login w)"
    and same: "same_below (vfs_root w) a b"
  shows "serve (core_pool n) a w = serve (core_pool n) b w"
proof -
  have b: "b = a\<lparr>os_fs := os_fs b\<rparr>" using same by (simp add: same_below_def)
  have g: "agrees (os_fs b) a w" using ok l same b by (simp add: agrees_def)
  have "mem_ok b" using mem same by (simp add: mem_ok_def same_below_def)
  then have "serve (core_pool n) a w = Some y" if "serve (core_pool n) b w = Some y" for y
    using serve_agrees [OF _ agrees_swap [OF g], of n y] that b by (metis os.update_convs(2) os.surjective)
  moreover have "serve (core_pool n) b w = Some y" if "serve (core_pool n) a w = Some y" for y
    using serve_agrees [OF mem g that] b by simp
  ultimately show ?thesis by (metis option.exhaust)
qed

theorem session_confined_witness:
  "serve (core_pool 32) outside_fs (arg_world () []) = serve (core_pool 32) idle_os (arg_world () [])"
proof (rule session_confined)
  show "mem_ok outside_fs" by (simp add: mem_ok_def outside_fs_def idle_os_def idle_proc_def)
  show "same_below (vfs_root (arg_world () [])) outside_fs idle_os"
    using take_canonical by (auto simp: same_below_def below_def outside_fs_def idle_os_def idle_fs_def)
qed (simp_all add: arg_world_ok nul_free_def)

end
