(* ===== verification/Ftp_Retr.thy ===== *)
theory Ftp_Retr
  imports Ftp_Core
begin

text \<open>
  The RETR command from end to end: path resolution, the two system calls on the file, the data
  connection, the transfer and the bookkeeping, composed from the facts about each of them.
\<close>

subsection \<open>The parts\<close>

lemma set_filename_result:
  assumes "length (filename (w_session w)) = FTP_MAX_NAME" and "nul_free p"
  obtains d where "set_filename p w = Some (length (find_basename p), upd_session (\<lambda>s. s\<lparr>filename := d\<rparr>) w)"
proof -
  obtain d where "strlcpy (filename (w_session w)) (find_basename p) (FTP_MAX_NAME - 1)
      = Some (length (find_basename p), d)"
    using strlcpy_bounded [of "FTP_MAX_NAME - 1" "filename (w_session w)" "find_basename p"] assms
    by (cases "find_basename p = []") (auto simp: FTP_MAX_NAME_def strlcpy_def)
  then show thesis by (intro that [of d]) (simp add: set_filename_def)
qed

text \<open>The messages around a transfer are sent whatever the session holds.\<close>

lemma send_state_xfer:
  assumes wr: "writes_ok (os :: 'o os)" and sp: "state_pool_ok w" and t: "t \<in> {T_XFER_START, T_XFER_STOP}"
  obtains r b msg where "send_state os t w = Some (r, emit (master_pipe (w_conn w)) msg (w\<lparr>w_state_pool := Some b\<rparr>))"
    and "length b = FTP_MAX_PATH"
proof -
  obtain p where p: "w_state_pool w = Some p" "length p = FTP_MAX_PATH" using sp by (auto simp: state_pool_ok_def)
  obtain op :: "'o state_op" where op: "find_state_op t = Some op" "op_size op \<le> FTP_MAX_PATH"
    "op_send op = (if t = T_XFER_START then send_xfer_start else send_xfer_stop)"
    using t by (auto simp: find_state_op_def state_ops_def state_types FTP_MAX_NAME_def FTP_MAX_PATH_def SIZEOF_XFER_INFO_def)
  let ?f = "cstr (filename (w_session w))"
  obtain k d where d: "strlcpy p ?f FTP_MAX_NAME = Some (k, d)" "length d = FTP_MAX_PATH"
    using strlcpy_bounded [of FTP_MAX_NAME p ?f] p(2)
    by (cases "?f = []") (auto simp: FTP_MAX_NAME_def FTP_MAX_PATH_def strlcpy_def)
  obtain d' where d': "blit p 0 (put_xfer_info (info (w_session w))) = Some d'" "length d' = FTP_MAX_PATH"
    using p(2) by (simp add: blit_def FTP_MAX_PATH_def)
  have "\<exists>r b. op_send op (w_session w) p = Some (r, b) \<and> length b = FTP_MAX_PATH"
    using d d' by (simp add: op(3) send_xfer_start_def send_xfer_stop_def)
  then obtain r b where b: "op_send op (w_session w) p = Some (r, b)" "length b = FTP_MAX_PATH" by blast
  show thesis
  proof (cases "r = FTP_SUCCESS")
    case True
    from send_state_emits [OF wr p op(1) b(1) [unfolded True] b(2) op(2)] b(2) show thesis by (rule that)
  next
    case False
    have "send_state os t w = Some (r, emit (master_pipe (w_conn w)) [] (w\<lparr>w_state_pool := Some b\<rparr>))"
      using p(1) op(1) b(1) False by (simp add: send_state_def Let_def emit_def)
    then show thesis using b(2) by (rule that)
  qed
qed

text \<open>The transfer proper, from a state in which both descriptors are open.\<close>

lemma retr_transfer_delivers:
  assumes os: "sends_ok os" "calm os sent" "serves_file os data fd content sent"
    and cl: "\<And>fd s. sent (snd (sys_close os fd s)) = sent s"
    and w: "state_pool_ok w" "w_signal_flag w = 0" "sock (w_conn w) \<noteq> master_pipe (w_conn w)"
    and off: "0 \<le> off" "off \<le> int (length content)" and sz: "length content < 2 ^ 31 * 4096"
  shows "\<exists>w' parts. retr_transfer os fd data off (int (length content)) w = Some (FTP_SUCCESS, w')
    \<and> list_all2 part_of parts (file_blocks (drop (nat off) content))
    \<and> sent (w_os w') = sent (w_os w) @ concat parts
    \<and> (whole_sends os data fd content \<longrightarrow> concat parts = drop (nat off) content)
    \<and> w_out w' (sock (w_conn w)) = w_out w (sock (w_conn w)) @ ''125 Data connection OK, transfer starting'' @ CRLF
        @ ''226 File transfer successful'' @ CRLF
    \<and> restart_pos (w_session w') = 0 \<and> w_fds w' = w_fds w - {fd, data}
    \<and> total_down (w_info w') = total_down (w_info w) + of_nat (length content - nat off)"
proof -
  note wr = os(2) [unfolded calm_def, THEN conjunct1]
  let ?c = "sock (w_conn w)" and ?m = "master_pipe (w_conn w)"
  define a where "a = upd_info (\<lambda>i. i\<lparr>xfer_status := 0\<rparr>) (emit ?c (''125 Data connection OK, transfer starting'' @ CRLF) w)"
  have a: "state_pool_ok a" "w_conn a = w_conn w" "w_os a = w_os w" "w_signal_flag a = 0" "w_fds a = w_fds w"
    "w_out a ?c = w_out w ?c @ ''125 Data connection OK, transfer starting'' @ CRLF"
    "total_down (w_info a) = total_down (w_info w)"
    using w by (simp_all add: a_def upd_info_def upd_session_def state_pool_ok_def)
  obtain r1 b1 m1 where s1: "send_state os T_XFER_START a = Some (r1, emit ?m m1 (a\<lparr>w_state_pool := Some b1\<rparr>))"
    "length b1 = FTP_MAX_PATH" by (rule send_state_xfer [OF wr a(1), of T_XFER_START, unfolded a(2)]) auto
  let ?b = "emit ?m m1 (a\<lparr>w_state_pool := Some b1\<rparr>)"
  have start: "start_transfer os w = Some (r1, ?b)"
    using s1(1) by (simp add: start_transfer_def say_def reply_ok [OF os(1)] a_def)
  have b: "state_pool_ok ?b" "w_signal_flag ?b = 0" "w_conn ?b = w_conn w"
    "w_out ?b ?c = w_out a ?c" "w_fds ?b = w_fds w" using s1(2) a w(3) by (simp_all add: state_pool_ok_def emit_other)
  have st: "stream_fd (socket_stream data) = data" "stream_fd (file_stream fd) = fd"
    "stream_kind (socket_stream data) = S_SOCKET" "stream_kind (file_stream fd) = S_FILE"
    by (simp_all add: socket_stream_def file_stream_def)
  obtain u parts where u: "transfer_file os (socket_stream data) (file_stream fd) off (int (length content) - off) ?b = Some (FTP_SUCCESS, u)"
    "delivered sent (concat parts) ?b u" "xfer_len (w_info u) = of_nat (length content - nat off)"
    and parts: "list_all2 (\<lambda>p b. part_of p b \<and> (whole_sends os data fd content \<longrightarrow> p = b)) parts (file_blocks (drop (nat off) content))"
    using transfer_file_serves [of os "socket_stream data" "file_stream fd", unfolded st(1,2), OF os(3,2) whole_sends_parts st(3,4) off sz b(1,2)]
    by blast
  have u': "state_pool_ok u" "w_conn u = w_conn w" "w_fds u = w_fds w" "w_out u ?c = w_out a ?c"
    "sent (w_os u) = sent (w_os w) @ concat parts" "total_down (w_info u) = total_down (w_info w)"
    using u(2) b w(3) a(3,7) by (simp_all add: delivered_def)
  define v where "v = upd_info (\<lambda>i. i\<lparr>xfer_status := FTP_SUCCESS\<rparr>) (upd_session (\<lambda>s. s\<lparr>restart_pos := 0\<rparr>)
    (upd_info (\<lambda>i. i\<lparr>total_down := total_down i + xfer_len i\<rparr>) (emit ?c (''226 File transfer successful'' @ CRLF) u)))"
  have v: "state_pool_ok v" "w_conn v = w_conn w" "w_os v = w_os u" "w_fds v = w_fds w"
    "w_out v ?c = w_out a ?c @ ''226 File transfer successful'' @ CRLF" "restart_pos (w_session v) = 0"
    "total_down (w_info v) = total_down (w_info w) + of_nat (length content - nat off)"
    using u' u(3) by (simp_all add: v_def upd_info_def upd_session_def state_pool_ok_def)
  obtain r2 b2 m2 where s2: "send_state os T_XFER_STOP v = Some (r2, emit ?m m2 (v\<lparr>w_state_pool := Some b2\<rparr>))"
    by (rule send_state_xfer [OF wr v(1), of T_XFER_STOP, unfolded v(2)]) auto
  let ?x = "emit ?m m2 (v\<lparr>w_state_pool := Some b2\<rparr>)"
  have "retr_transfer os fd data off (int (length content)) w = Some (FTP_SUCCESS, c_close os data (vfs_close os fd ?x))"
    using start u(1) s2 u'(2) unfolding v_def
    by (simp add: retr_transfer_def transfer_reply_def say_def reply_ok [OF os(1)] Let_def)
  moreover have cl': "sent (w_os (c_close os k y)) = sent (w_os y)" "w_out (c_close os k y) = w_out y"
    "w_session (c_close os k y) = w_session y" "w_fds (c_close os k y) = w_fds y - {k}" for k and y :: "'a world"
    using cl [of k "w_os y"] by (auto simp: c_close_def os_call_def Let_def split: prod.splits sum.splits)
  ultimately show ?thesis
    using v u'(5) a(6) w(3) parts_whole [OF parts]
    by (intro exI [of _ "c_close os data (vfs_close os fd ?x)"] exI [of _ parts]) (auto simp: vfs_close_def cl' emit_other)
qed

subsection \<open>The file and the data connection\<close>

text \<open>A regular file with the given contents, which \<open>open\<close> gives the descriptor \<open>fd\<close>; none of the calls
  disturbs \<open>view\<close>.\<close>

definition file_at :: "'o os \<Rightarrow> string \<Rightarrow> int \<Rightarrow> char list \<Rightarrow> ('o \<Rightarrow> 'v) \<Rightarrow> bool" where
  "file_at os path fd content view \<longleftrightarrow> (\<forall>s.
     (\<exists>st s'. sys_lstat os path s = (Inr st, s') \<and> \<not> S_ISLNK (st_mode st) \<and> view s' = view s)
   \<and> (\<exists>st s'. sys_stat os path s = (Inr st, s') \<and> S_ISREG (st_mode st) \<and> st_size st = int (length content) \<and> view s' = view s)
   \<and> (\<exists>s'. sys_open os path s = (Inr fd, s') \<and> view s' = view s))"

definition accepts :: "'o os \<Rightarrow> int \<Rightarrow> int \<Rightarrow> ('o \<Rightarrow> 'v) \<Rightarrow> bool" where
  "accepts os lsock data view \<longleftrightarrow> (\<forall>s. \<exists>a s'. sys_accept os lsock s = (Inr (data, a), s') \<and> view s' = view s)"

lemma file_atD:
  assumes "file_at os path fd content view"
  obtains st1 s1 st2 s2 where "sys_lstat os path s = (Inr st1, s1)" and "\<not> S_ISLNK (st_mode st1)"
    and "sys_stat os path s1 = (Inr st2, s2)" and "S_ISREG (st_mode st2)" and "st_size st2 = int (length content)"
    and "view s2 = view s"
proof -
  obtain st1 s1 where "sys_lstat os path s = (Inr st1, s1)" "\<not> S_ISLNK (st_mode st1)" "view s1 = view s"
    using assms unfolding file_at_def by blast
  moreover obtain st2 s2 where "sys_stat os path s1 = (Inr st2, s2)" "S_ISREG (st_mode st2)"
    "st_size st2 = int (length content)" "view s2 = view s1"
    using assms unfolding file_at_def by blast
  ultimately show thesis using that by simp
qed

lemma vfs_stat_regular:
  assumes w: "vfs_ok w" and c: "canonical cwd" and p: "nul_free p"
    and r: "resolve (if is_absolute p then [] else split_path cwd) (split_path p) = Inr cs"
    and f: "file_at os (vfs_root w @ render cs) fd content view"
  obtains st s vp where "vfs_stat os cwd p w = Some (Inr st, w\<lparr>w_vfs := Some (vfs_root w, vp), w_os := s\<rparr>)"
    and "S_ISREG (st_mode st)" and "st_size st = int (length content)" and "length vp = FTP_MAX_PATH"
    and "view s = view (w_os w)"
proof -
  obtain vp where v: "pool_realpath cwd p w = Some (Inr (), w\<lparr>w_vfs := Some (vfs_root w, vp)\<rparr>)"
    "length vp = FTP_MAX_PATH" "cstr vp = render cs" using pool_realpath_resolves [OF w c p r] .
  obtain st1 s1 st2 s2 where s: "sys_lstat os (vfs_root w @ render cs) (w_os w) = (Inr st1, s1)" "\<not> S_ISLNK (st_mode st1)"
    "sys_stat os (vfs_root w @ render cs) s1 = (Inr st2, s2)" "S_ISREG (st_mode st2)" "st_size st2 = int (length content)"
    "view s2 = view (w_os w)" using file_atD [OF f] .
  show thesis
    by (rule that [of st2 s2 vp]) (use v s in \<open>simp_all add: vfs_stat_def real_path_def os_call_def\<close>)
qed

lemma vfs_open_file:
  assumes w: "vfs_ok w" and c: "canonical cwd" and p: "nul_free p"
    and r: "resolve (if is_absolute p then [] else split_path cwd) (split_path p) = Inr cs"
    and f: "file_at os (vfs_root w @ render cs) fd content view"
  obtains s vp where "vfs_open os cwd p w
      = Some (Inr fd, w\<lparr>w_vfs := Some (vfs_root w, vp), w_os := s, w_fds := insert fd (w_fds w)\<rparr>)"
    and "view s = view (w_os w)"
proof -
  obtain vp where v: "pool_realpath cwd p w = Some (Inr (), w\<lparr>w_vfs := Some (vfs_root w, vp)\<rparr>)"
    "length vp = FTP_MAX_PATH" "cstr vp = render cs" using pool_realpath_resolves [OF w c p r] .
  obtain s where s: "sys_open os (vfs_root w @ render cs) (w_os w) = (Inr fd, s)" "view s = view (w_os w)"
    using f unfolding file_at_def by blast
  show thesis
    by (rule that [of s vp]) (use v s in \<open>simp_all add: vfs_open_def real_path_def os_newfd_def os_call_def\<close>)
qed

lemma accept_data_conn_ok:
  assumes "accepts os (pasv_sock con) data view"
  obtains s where "accept_data_conn os con w = Some (data, w\<lparr>w_os := s, w_fds := insert data (w_fds w)\<rparr>)"
    and "view s = view (w_os w)"
proof -
  obtain a s where "sys_accept os (pasv_sock con) (w_os w) = (Inr (data, a), s)" "view s = view (w_os w)"
    using assms unfolding accepts_def by blast
  then show thesis by (intro that [of s]) (simp_all add: accept_data_conn_def os_newfd_def os_call_def)
qed

subsection \<open>Properties\<close>


definition file_os :: "string \<Rightarrow> char list os" where
  "file_os content = (sender_os (Suc (length content)) content)\<lparr>os_fs := idle_fs\<lparr>
     fs_lstat := \<lambda>p s. (Inr \<lparr>st_mode = 0x8000, st_size = int (length content), st_mtime = 0, st_nlink = 1, st_uid = 0, st_gid = 0\<rparr>, s),
     fs_stat := \<lambda>p s. (Inr \<lparr>st_mode = 0x8000, st_size = int (length content), st_mtime = 0, st_nlink = 1, st_uid = 0, st_gid = 0\<rparr>, s),
     fs_open := \<lambda>p s. (Inr 3, s)\<rparr>\<rparr>"

lemma file_os_ok:
  "sends_ok (file_os content)" "calm (file_os content) (\<lambda>s. s)" "serves_file (file_os content) out fd content (\<lambda>s. s)"
  "file_at (file_os content) path 3 content (\<lambda>s. s)" "accepts (file_os content) l 9 (\<lambda>s. s)"
  "snd (sys_close (file_os content) k s) = s" "whole_sends (file_os content) out fd content"
proof -
  have "sys_sendfile (file_os content) = sys_sendfile (sender_os (Suc (length content)) content)"
    "sys_lseek (file_os content) = sys_lseek (sender_os (Suc (length content)) content)" by (simp_all add: file_os_def)
  then show "serves_file (file_os content) out fd content (\<lambda>s. s)"
    using sender_os_ok(1) [of "Suc (length content)" content out fd] by (simp add: serves_file_def)
qed (simp_all add: whole_sends_def calm_def writes_ok_def sends_ok_def file_at_def accepts_def file_os_def
      sender_os_def idle_os_def idle_io_def idle_proc_def idle_net_def S_ISLNK_def S_ISREG_def S_IFMT_def Let_def min_def le_diff_conv)

definition resume_world :: "char list world" where
  "resume_world = upd_session (\<lambda>s. s\<lparr>restart_pos := 6\<rparr>) (arg_world [] ''./greeting'')"

lemma resume_world_sel [simp]:
  "w_arg resume_world = ''./greeting''" "w_cwd resume_world = ''/''" "w_conn resume_world = conn idle_session"
  "logged_in (w_login resume_world)" "w_signal_flag resume_world = 0" "w_os resume_world = []"
  "w_out resume_world = (\<lambda>_. [])" "w_fds resume_world = {}" "restart_pos (w_session resume_world) = 6"
  "w_info resume_world = info idle_session"
  by (simp_all add: resume_world_def upd_session_def)


end
