(* ===== verification/Ftp_Stor.thy ===== *)
theory Ftp_Stor
  imports Ftp_Retr
begin

text \<open>
  The STOR command from end to end: path resolution, the creation of the file, the data connection,
  the loop that copies the stream, and the bookkeeping. The contents of the stored file are stated with
  the positions the code seeks to, so they show what a restart position does to an upload.
\<close>

subsection \<open>The transfer\<close>

lemma stor_transfer_stores:
  assumes os: "sends_ok os" "calm os io" "stores_stream os data fd io"
    and cl: "\<And>fd s. io (snd (sys_close os fd s)) = io s"
    and w: "state_pool_ok w" "w_signal_flag w = 0" "sock (w_conn w) \<noteq> master_pipe (w_conn w)" "sock (w_conn w) \<noteq> fd"
    and io: "io (w_os w) = (stream, file, pos)" and off: "0 \<le> restart_pos (w_session w)"
  shows "\<exists>w' p. stor_transfer os fd data w = Some (FTP_SUCCESS, w')
    \<and> io (w_os w') = ([], write_at (nat (restart_pos (w_session w))) stream file, p)
    \<and> w_out w' (sock (w_conn w)) = w_out w (sock (w_conn w)) @ ''125 Data connection OK, transfer starting'' @ CRLF
        @ ''226 File transfer successful'' @ CRLF
    \<and> restart_pos (w_session w') = restart_pos (w_session w) \<and> w_fds w' = w_fds w - {fd, data}
    \<and> total_up (w_info w') = total_up (w_info w) + of_nat (length stream)"
proof -
  note wr = os(2) [unfolded calm_def, THEN conjunct1]
  let ?c = "sock (w_conn w)" and ?m = "master_pipe (w_conn w)" and ?r = "restart_pos (w_session w)"
  define a where "a = upd_info (\<lambda>i. i\<lparr>xfer_status := 0\<rparr>) (emit ?c (''125 Data connection OK, transfer starting'' @ CRLF) w)"
  have a: "state_pool_ok a" "w_conn a = w_conn w" "w_os a = w_os w" "w_signal_flag a = 0" "w_fds a = w_fds w"
    "w_out a ?c = w_out w ?c @ ''125 Data connection OK, transfer starting'' @ CRLF"
    "total_up (w_info a) = total_up (w_info w)" "restart_pos (w_session a) = ?r"
    using w by (simp_all add: a_def upd_info_def upd_session_def state_pool_ok_def)
  obtain r1 b1 m1 where s1: "send_state os T_XFER_START a = Some (r1, emit ?m m1 (a\<lparr>w_state_pool := Some b1\<rparr>))"
    "length b1 = FTP_MAX_PATH" by (rule send_state_xfer [OF wr a(1), of T_XFER_START, unfolded a(2)]) auto
  let ?b = "emit ?m m1 (a\<lparr>w_state_pool := Some b1\<rparr>)"
  have start: "start_transfer os w = Some (r1, ?b)"
    using s1(1) by (simp add: start_transfer_def say_def reply_ok [OF os(1)] a_def)
  have b: "state_pool_ok ?b" "w_signal_flag ?b = 0" "w_conn ?b = w_conn w" "io (w_os ?b) = (stream, file, pos)"
    "w_out ?b ?c = w_out a ?c" "w_fds ?b = w_fds w" "restart_pos (w_session ?b) = ?r"
    using s1(2) a w(3) io by (simp_all add: state_pool_ok_def emit_other)
  obtain u p where u: "store_file os (file_stream fd) (socket_stream data) ?b = Some (FTP_SUCCESS, u)"
    "io (w_os u) = ([], write_at (nat ?r) stream file, p)" "storing fd ?b u" "xfer_len (w_info u) = of_nat (length stream)"
    using store_file_stores [of os "socket_stream data" "file_stream fd" io ?b stream "file" pos] os(2,3) b(1,2,4,7) off
    by (auto simp: socket_stream_def file_stream_def)
  have u': "state_pool_ok u" "w_conn u = w_conn w" "w_fds u = w_fds w" "w_out u ?c = w_out a ?c"
    "restart_pos (w_session u) = ?r" "total_up (w_info u) = total_up (w_info w)"
    using u(3) b w(3,4) a(7) by (simp_all add: storing_def)
  define v where "v = upd_info (\<lambda>i. i\<lparr>xfer_status := FTP_SUCCESS\<rparr>)
    (upd_info (\<lambda>i. i\<lparr>total_up := total_up i + xfer_len i\<rparr>) (emit ?c (''226 File transfer successful'' @ CRLF) u))"
  have v: "state_pool_ok v" "w_conn v = w_conn w" "w_os v = w_os u" "w_fds v = w_fds w"
    "w_out v ?c = w_out a ?c @ ''226 File transfer successful'' @ CRLF" "restart_pos (w_session v) = ?r"
    "total_up (w_info v) = total_up (w_info w) + of_nat (length stream)"
    using u' u(4) by (simp_all add: v_def upd_info_def upd_session_def state_pool_ok_def)
  obtain r2 b2 m2 where s2: "send_state os T_XFER_STOP v = Some (r2, emit ?m m2 (v\<lparr>w_state_pool := Some b2\<rparr>))"
    by (rule send_state_xfer [OF wr v(1), of T_XFER_STOP, unfolded v(2)]) auto
  let ?x = "emit ?m m2 (v\<lparr>w_state_pool := Some b2\<rparr>)"
  have "stor_transfer os fd data w = Some (FTP_SUCCESS, c_close os data (vfs_close os fd ?x))"
    using start u(1) s2 u'(2) unfolding v_def
    by (simp add: stor_transfer_def transfer_reply_def say_def reply_ok [OF os(1)] Let_def)
  moreover have "io (w_os (c_close os k y)) = io (w_os y)" "w_out (c_close os k y) = w_out y"
    "w_session (c_close os k y) = w_session y" "w_fds (c_close os k y) = w_fds y - {k}" for k and y :: "'a world"
    using cl [of k "w_os y"] by (auto simp: c_close_def os_call_def Let_def split: prod.splits sum.splits)
  ultimately show ?thesis
    using v u(2) a(6) w(3) by (auto simp: vfs_close_def emit_other)
qed

subsection \<open>The file\<close>

text \<open>\<open>creat\<close> opens the path with an empty file, created or truncated.\<close>

definition creates :: "'o os \<Rightarrow> string \<Rightarrow> int \<Rightarrow> ('o \<Rightarrow> char list \<times> char list \<times> nat) \<Rightarrow> bool" where
  "creates os path fd io \<longleftrightarrow>
     (\<forall>mode s. \<exists>s'. sys_creat os path mode s = (Inr fd, s') \<and> io s' = (fst (io s), [], 0))"

lemma vfs_creat_file:
  assumes w: "vfs_ok w" and c: "canonical cwd" and p: "nul_free p"
    and r: "resolve (if is_absolute p then [] else split_path cwd) (split_path p) = Inr cs"
    and f: "creates os (vfs_root w @ render cs) fd io"
  obtains s vp where "vfs_creat os cwd p mode w
      = Some (Inr fd, w\<lparr>w_vfs := Some (vfs_root w, vp), w_os := s, w_fds := insert fd (w_fds w)\<rparr>)"
    and "io s = (fst (io (w_os w)), [], 0)"
proof -
  obtain vp where v: "pool_realpath cwd p w = Some (Inr (), w\<lparr>w_vfs := Some (vfs_root w, vp)\<rparr>)"
    "length vp = FTP_MAX_PATH" "cstr vp = render cs" using pool_realpath_resolves [OF w c p r] .
  obtain s where s: "sys_creat os (vfs_root w @ render cs) mode (w_os w) = (Inr fd, s)" "io s = (fst (io (w_os w)), [], 0)"
    using f unfolding creates_def by blast
  show thesis
    by (rule that [of s vp]) (use v s in \<open>simp_all add: vfs_creat_def real_path_def os_newfd_def os_call_def\<close>)
qed

lemma write_at_empty: "write_at n s [] = (if s = [] then [] else replicate n NUL @ s)"
  by (simp add: write_at_def)

subsection \<open>Properties\<close>

text \<open>C5. STOR stores the stream: a logged-in client that names, by any path, a file the system lets it
  create and has a data connection finds in the file, when its stream has ended, exactly the bytes it
  sent, in whatever pieces they arrived, and gets the replies 125 and 226; the bytes are counted and both
  descriptors closed. A restart position stays set, and since the file has been truncated it is not
  resumed: as many NUL bytes precede the stream. The disk takes every write whole, the name is shorter
  than \<open>FTP_MAX_NAME\<close>, and during the transfer no signal arrives and no call fails.\<close>

theorem dostor_stores:
  assumes os: "sends_ok os" "calm os io" "stores_stream os data fd io"
      "\<And>fd s. io (snd (sys_close os fd s)) = io s"
    and w: "session_ok w" "logged_in (w_login w)" "w_signal_flag w = 0"
      "sock (w_conn w) \<noteq> master_pipe (w_conn w)" "sock (w_conn w) \<noteq> fd"
    and r: "resolve (if is_absolute (w_arg w) then [] else split_path (w_cwd w)) (split_path (w_arg w)) = Inr cs"
    and f: "creates os (vfs_root w @ render cs) fd io" "length (find_basename (w_arg w)) < FTP_MAX_NAME"
    and acc: "accepts os (pasv_sock (w_conn w)) data io" "0 \<le> data"
    and io: "fst (io (w_os w)) = stream"
  shows "\<exists>w' p. dostor os w = Some (FTP_SUCCESS, w')
    \<and> io (w_os w') = ([], if stream = [] then [] else replicate (nat (restart_pos (w_session w))) NUL @ stream, p)
    \<and> w_out w' (sock (w_conn w)) = w_out w (sock (w_conn w)) @ ''125 Data connection OK, transfer starting'' @ CRLF
        @ ''226 File transfer successful'' @ CRLF
    \<and> restart_pos (w_session w') = restart_pos (w_session w) \<and> w_fds w' = w_fds w - {fd, data}
    \<and> total_up (w_info w') = total_up (w_info w) + of_nat (length stream)"
proof -
  let ?arg = "w_arg w"
  note nf = session_okD(5) [OF w(1)]
  obtain d where d: "set_filename ?arg w = Some (length (find_basename ?arg), upd_session (\<lambda>s. s\<lparr>filename := d\<rparr>) w)"
    using set_filename_result [OF session_okD(3) [OF w(1)] nf] .
  define u where "u = upd_session (\<lambda>s. s\<lparr>filename := d\<rparr>) w"
  have u: "vfs_ok u" "canonical (w_cwd u)" "vfs_root u = vfs_root w" "w_cwd u = w_cwd w" "w_os u = w_os w"
    using session_okD(2,8) [OF w(1)] w(2) by (simp_all add: u_def upd_session_def vfs_ok_def vfs_root_def)
  have ru: "resolve (if is_absolute ?arg then [] else split_path (w_cwd u)) (split_path ?arg) = Inr cs"
    using r unfolding u(4) .
  obtain s1 vp where cr: "vfs_creat os (w_cwd u) ?arg 511 u
      = Some (Inr fd, u\<lparr>w_vfs := Some (vfs_root u, vp), w_os := s1, w_fds := insert fd (w_fds u)\<rparr>)"
    "io s1 = (fst (io (w_os u)), [], 0)"
    by (rule vfs_creat_file [OF u(1,2) nf ru, of os fd io 511]) (use f(1) u(3) in auto)
  define x where "x = u\<lparr>w_vfs := Some (vfs_root u, vp), w_os := s1, w_fds := insert fd (w_fds u)\<rparr>"
  have x: "w_conn x = w_conn w" "io (w_os x) = (stream, [], 0)"
    using cr(2) io u(5) by (simp_all add: x_def u_def upd_session_def)
  obtain s2 where ac: "accept_data_conn os (w_conn x) x = Some (data, x\<lparr>w_os := s2, w_fds := insert data (w_fds x)\<rparr>)"
    "io s2 = io (w_os x)" by (rule accept_data_conn_ok [of os "w_conn x" data io x]) (use acc(1) x(1) in auto)
  define y where "y = x\<lparr>w_os := s2, w_fds := insert data (w_fds x)\<rparr>"
  have y: "state_pool_ok y" "w_signal_flag y = 0" "w_conn y = w_conn w" "io (w_os y) = (stream, [], 0)" "w_out y = w_out w"
    "w_fds y - {fd, data} = w_fds w - {fd, data}" "w_info y = w_info w" "restart_pos (w_session y) = restart_pos (w_session w)"
    using x(2) ac(2) w(3) session_okD(9) [OF w(1,2)]
    by (auto simp: y_def x_def u_def upd_session_def state_pool_ok_def)
  have "dostor os w = stor_transfer os fd data y"
    using d [folded u_def] f(2) cr(1) [folded x_def] ac(1) [folded y_def] acc(2) by (simp add: dostor_def Let_def)
  then show ?thesis
    using stor_transfer_stores [OF os y(1,2) _ _ y(4)] w(4,5) session_okD(7) [OF w(1)] y(3,5-8)
    by (simp add: write_at_empty)
qed

definition upload_os :: "(char list \<times> char list \<times> nat) os" where
  "upload_os = (receiver_os 4)\<lparr>os_fs := idle_fs\<lparr>fs_creat := \<lambda>p m (rest, file, pos). (Inr 3, (rest, [], 0))\<rparr>\<rparr>"

lemma upload_os_ok:
  "sends_ok upload_os" "calm upload_os (\<lambda>s. s)" "stores_stream upload_os d fd (\<lambda>s. s)"
  "creates upload_os path 3 (\<lambda>s. s)" "accepts upload_os l 9 (\<lambda>s. s)" "snd (sys_close upload_os k s) = s"
proof -
  have "sys_read upload_os = sys_read (receiver_os 4)" "sys_lseek upload_os = sys_lseek (receiver_os 4)"
    "sys_write upload_os = sys_write (receiver_os 4)" "sys_malloc upload_os = sys_malloc (receiver_os 4)"
    by (simp_all add: upload_os_def)
  then show "stores_stream upload_os d fd (\<lambda>s. s)"
    using receiver_os_ok(1) [of 4 d fd] by (simp add: stores_stream_def mem_ok_def)
qed (simp_all add: calm_def writes_ok_def sends_ok_def creates_def accepts_def upload_os_def
      receiver_os_def idle_os_def idle_io_def idle_proc_def idle_net_def)

text \<open>The witness receives its six bytes in a packet of four and one of two.\<close>

definition upload_world :: "(char list \<times> char list \<times> nat) world" where
  "upload_world = upd_session (\<lambda>s. s\<lparr>restart_pos := 3\<rparr>) (arg_world (''upload'', ''old contents'', 12) ''./new'')"

lemma upload_world_sel [simp]:
  "w_arg upload_world = ''./new''" "w_cwd upload_world = ''/''" "w_conn upload_world = conn idle_session"
  "logged_in (w_login upload_world)" "w_signal_flag upload_world = 0" "w_os upload_world = (''upload'', ''old contents'', 12)"
  "w_out upload_world = (\<lambda>_. [])" "w_fds upload_world = {}" "restart_pos (w_session upload_world) = 3"
  "w_info upload_world = info idle_session"
  by (simp_all add: upload_world_def upd_session_def)

theorem dostor_stores_witness:
  "\<exists>w' p. dostor upload_os upload_world = Some (FTP_SUCCESS, w')
     \<and> w_os w' = ([], replicate 3 NUL @ ''upload'', p)
     \<and> w_out w' 4 = ''125 Data connection OK, transfer starting'' @ CRLF @ ''226 File transfer successful'' @ CRLF
     \<and> restart_pos (w_session w') = 3 \<and> w_fds w' = {} \<and> total_up (w_info w') = 6"
proof -
  have ok: "session_ok upload_world" unfolding upload_world_def
    by (rule keepsD(1) [OF keeps_upd_restart [OF keeps_refl] arg_world_ok]) (simp_all add: nul_free_def)
  have p: "split_path ''./new'' = [''.'', ''new'']" "split_path ''/'' = []"
    by (simp_all add: split_path.simps first_comp_def rest_comp_def)
  have r: "resolve (if is_absolute (w_arg upload_world) then [] else split_path (w_cwd upload_world))
      (split_path (w_arg upload_world)) = Inr [''new'']"
    using p by (simp add: is_absolute_def render_def FTP_MAX_PATH_def)
  have n: "length (find_basename (w_arg upload_world)) < FTP_MAX_NAME"
    by (simp add: find_basename_def strrchr_def FTP_MAX_NAME_def)
  show ?thesis
    using dostor_stores [OF upload_os_ok(1,2,3,6) ok _ _ _ _ r upload_os_ok(4) n upload_os_ok(5), of "''upload''"]
    by (simp add: idle_session_def)
qed

end
