(* ===== verification/Ftp_Listing.thy ===== *)
theory Ftp_Listing
  imports Ftp_Retr Ftp_Ls
begin

text \<open>
  The LIST command from end to end, for a directory: on a system with a fixed directory and fixed
  results of \<open>stat\<close>, the client gets one line for each visible entry, in the order of \<open>readdir\<close>, and the
  session is back in its directory; with an entry whose date is too new, the command is undefined.
\<close>

subsection \<open>The system and the expected output\<close>

text \<open>\<open>stat_of\<close> is what \<open>lstat\<close> and \<open>stat\<close> report for a path (no links), \<open>left\<close> what \<open>readdir\<close> still has to
  deliver.\<close>

definition fixed_stats :: "'o os \<Rightarrow> (string \<Rightarrow> errno + stat) \<Rightarrow> ('o \<Rightarrow> 'v) \<Rightarrow> bool" where
  "fixed_stats os stat_of view \<longleftrightarrow> (\<forall>p s. case stat_of p of
     Inl e \<Rightarrow> \<exists>s'. sys_lstat os p s = (Inl e, s') \<and> view s' = view s
   | Inr st \<Rightarrow> (\<exists>l s'. sys_lstat os p s = (Inr l, s') \<and> \<not> S_ISLNK (st_mode l) \<and> view s' = view s)
       \<and> (\<exists>s'. sys_stat os p s = (Inr st, s') \<and> view s' = view s))"

definition lists_dir :: "'o os \<Rightarrow> string \<Rightarrow> int \<Rightarrow> string list \<Rightarrow> ('o \<Rightarrow> string list) \<Rightarrow> bool" where
  "lists_dir os path drv names left \<longleftrightarrow>
     (\<forall>s. \<exists>s'. sys_opendir os path s = (Inr drv, s') \<and> left s' = names)
   \<and> (\<forall>s. \<exists>s'. sys_readdir os drv s = (case left s of [] \<Rightarrow> None | n # ns \<Rightarrow> Some n, s') \<and> left s' = tl (left s))"

text \<open>The line for an entry of the directory \<open>cs\<close>: empty when \<open>stat\<close> fails, \<open>None\<close> when its date is
  undefined.\<close>

definition entry_line :: "(string \<Rightarrow> errno + stat) \<Rightarrow> string \<Rightarrow> string list \<Rightarrow> string \<Rightarrow> string option" where
  "entry_line stat_of root cs name = (case resolve cs (split_path name) of
     Inl _ \<Rightarrow> Some []
   | Inr cs' \<Rightarrow> (case stat_of (root @ render cs') of
         Inl _ \<Rightarrow> Some []
       | Inr st \<Rightarrow> do {
           t \<leftarrow> convert_time (st_mtime st);
           date \<leftarrow> list_date t;
           Some (list_line st date (find_basename name)) }))"

definition visible :: "bool \<Rightarrow> string list \<Rightarrow> string list" where
  "visible opt_a names = filter (\<lambda>n. opt_a \<or> \<not> hidden n) names"

definition listing :: "(string \<Rightarrow> errno + stat) \<Rightarrow> string \<Rightarrow> string list \<Rightarrow> string list \<Rightarrow> string" where
  "listing stat_of root cs names = concat (map (\<lambda>n. the (entry_line stat_of root cs n)) names)"

text \<open>A line that, if it is defined, fits its buffer of 384 bytes; the names \<open>readdir\<close> delivers.\<close>

definition line_fits :: "(string \<Rightarrow> errno + stat) \<Rightarrow> string \<Rightarrow> string list \<Rightarrow> string \<Rightarrow> bool" where
  "line_fits stat_of root cs name \<longleftrightarrow>
     (case entry_line stat_of root cs name of None \<Rightarrow> True | Some l \<Rightarrow> length l < STAT_BUFFER_SIZE)"

definition entry_name :: "string \<Rightarrow> bool" where
  "entry_name name \<longleftrightarrow> nul_free name \<and> SLASH \<notin> set name"

text \<open>The dates that can be listed: those before 24 January 2000, day 10980 of the code's calendar. A line
  with a later date is undefined.\<close>

definition dates_decide :: "(string \<Rightarrow> errno + stat) \<Rightarrow> string \<Rightarrow> string list \<Rightarrow> string \<Rightarrow> bool" where
  "dates_decide stat_of root cs name \<longleftrightarrow> (\<forall>cs' st. resolve cs (split_path name) = Inr cs' \<longrightarrow>
     stat_of (root @ render cs') = Inr st \<longrightarrow>
       (0 \<le> st_mtime st \<and> st_mtime st < 86400 * 10980 \<longrightarrow> entry_line stat_of root cs name \<noteq> None)
     \<and> (86400 * 10980 \<le> st_mtime st \<and> st_mtime st < 86400 * 2147483648 \<longrightarrow> entry_line stat_of root cs name = None))"

lemma dates_decide: "dates_decide stat_of root cs name"
proof -
  have "list_date t \<noteq> None" if "tm_wf t" for t using that by (simp add: list_date_def tm_wf_def)
  then show ?thesis
    using convert_time_Some convert_time_None by (fastforce simp: dates_decide_def entry_line_def)
qed

subsection \<open>One entry\<close>

text \<open>The step wrote \<open>text\<close> to \<open>fd\<close> and kept what the listing depends on.\<close>

definition wrote :: "int \<Rightarrow> char list \<Rightarrow> 'o world \<Rightarrow> 'o world \<Rightarrow> bool" where
  "wrote fd text w w' \<longleftrightarrow> w_session w' = w_session w \<and> vfs_root w' = vfs_root w \<and> (vfs_ok w \<longrightarrow> vfs_ok w')
     \<and> w_fds w' = w_fds w \<and> w_reply_pool w' = w_reply_pool w
     \<and> w_out w' = (w_out w)(fd := w_out w fd @ text)"

lemma wrote_trans: "wrote fd s u v \<Longrightarrow> wrote fd t v w \<Longrightarrow> wrote fd (s @ t) u w"
  by (simp add: wrote_def)

lemma wrote_emit: "wrote fd text w w' \<Longrightarrow> wrote fd (text @ t) w (emit fd t w')"
  by (simp add: wrote_def emit_def vfs_root_def vfs_ok_def)

lemma fixed_statsD:
  assumes "fixed_stats os stat_of view"
  shows "stat_of p = Inl e \<Longrightarrow> \<exists>s'. sys_lstat os p s = (Inl e, s') \<and> view s' = view s"
    and "stat_of p = Inr st \<Longrightarrow> \<exists>l s'. sys_lstat os p s = (Inr l, s') \<and> \<not> S_ISLNK (st_mode l) \<and> view s' = view s"
    and "stat_of p = Inr st \<Longrightarrow> \<exists>s'. sys_stat os p s = (Inr st, s') \<and> view s' = view s"
  using spec [OF spec [OF assms [unfolded fixed_stats_def], of p], of s] by auto

lemma vfs_stat_fixed:
  assumes w: "vfs_ok w" and c: "canonical cwd" and p: "nul_free p" and f: "fixed_stats os stat_of view"
    and r: "resolve (if is_absolute p then [] else split_path cwd) (split_path p) = Inr cs"
  obtains w' where "vfs_stat os cwd p w = Some (stat_of (vfs_root w @ render cs), w')"
    and "view (w_os w') = view (w_os w)" and "wrote fd [] w w'"
proof -
  obtain vp where v: "pool_realpath cwd p w = Some (Inr (), w\<lparr>w_vfs := Some (vfs_root w, vp)\<rparr>)"
    "length vp = FTP_MAX_PATH" "cstr vp = render cs" using pool_realpath_resolves [OF w c p r] .
  let ?p = "vfs_root w @ render cs" and ?u = "w\<lparr>w_vfs := Some (vfs_root w, vp)\<rparr>"
  have wr: "wrote fd [] w (?u\<lparr>w_os := s\<rparr>)" "wrote fd [] w (?u\<lparr>w_os := s, w_errno := e\<rparr>)" for s e
    using w v(2) by (auto simp: wrote_def vfs_root_def vfs_ok_def)
  show thesis
  proof (cases "stat_of ?p")
    case (Inl e)
    then obtain s where "sys_lstat os ?p (w_os w) = (Inl e, s)" "view s = view (w_os w)"
      using fixed_statsD(1) [OF f] by blast
    with v Inl wr show thesis
      by (intro that [of "?u\<lparr>w_os := s, w_errno := e\<rparr>"]) (simp_all add: vfs_stat_def real_path_def os_call_def)
  next
    case (Inr st)
    obtain l s1 where "sys_lstat os ?p (w_os w) = (Inr l, s1)" "\<not> S_ISLNK (st_mode l)" "view s1 = view (w_os w)"
      using fixed_statsD(2) [OF f Inr] by blast
    moreover obtain s2 where "sys_stat os ?p s1 = (Inr st, s2)" "view s2 = view s1"
      using fixed_statsD(3) [OF f Inr] by blast
    ultimately show thesis using v Inr wr
      by (intro that [of "?u\<lparr>w_os := s2\<rparr>"]) (simp_all add: vfs_stat_def real_path_def os_call_def)
  qed
qed

lemma pool_realpath_too_long:
  assumes w: "vfs_ok w" and c: "canonical cwd" and p: "nul_free p"
    and r: "resolve (if is_absolute p then [] else split_path cwd) (split_path p) = Inl e"
  obtains vp where "pool_realpath cwd p w = Some (Inl e, w\<lparr>w_vfs := Some (vfs_root w, vp), w_errno := e\<rparr>)"
    and "length vp = FTP_MAX_PATH"
proof -
  obtain root vp where v: "w_vfs w = Some (root, vp)" "length vp = FTP_MAX_PATH" using w by (auto simp: vfs_ok_def)
  then obtain b where "length b = FTP_MAX_PATH" "vfs_realpath vp cwd p = Some (b, Inl e)"
    using realpath_from_canonical [OF v(2) c p] r by auto
  with v show thesis by (intro that [of b]) (simp_all add: pool_realpath_def vfs_root_def)
qed

lemma send_filestat_fixed:
  assumes os: "sends_ok os" and f: "fixed_stats os stat_of view" and w: "vfs_ok w" and cs: "w_cwd w = render cs" "list_all is_name cs"
      "canonical (w_cwd w)" and name: "entry_name name" and fit: "line_fits stat_of (vfs_root w) cs name"
      "entry_line stat_of (vfs_root w) cs name \<noteq> None"
  obtains r w' where "send_filestat os (w_cwd w) name fd w = Some (r, w')" and "r = FTP_SUCCESS \<or> r = FTP_FAIL"
    and "view (w_os w') = view (w_os w)" and "wrote fd (the (entry_line stat_of (vfs_root w) cs name)) w w'"
proof -
  have nm: "nul_free name" "\<not> is_absolute name" using name by (cases name; auto simp: entry_name_def is_absolute_def)+
  have ds: "(if is_absolute name then [] else split_path (w_cwd w)) = cs" using nm cs(1,2) by simp
  show thesis
  proof (cases "resolve cs (split_path name)")
    case (Inl e)
    obtain vp where v: "pool_realpath (w_cwd w) name w = Some (Inl e, w\<lparr>w_vfs := Some (vfs_root w, vp), w_errno := e\<rparr>)"
      "length vp = FTP_MAX_PATH" using pool_realpath_too_long [OF w cs(3) nm(1), unfolded ds, OF Inl] .
    have "wrote fd [] w (w\<lparr>w_vfs := Some (vfs_root w, vp), w_errno := e\<rparr>)"
      using w v(2) by (auto simp: wrote_def vfs_root_def vfs_ok_def)
    with v(1) Inl show thesis
      by (intro that [of FTP_FAIL]) (simp_all add: send_filestat_def vfs_stat_def entry_line_def)
  next
    case (Inr cs')
    let ?st = "stat_of (vfs_root w @ render cs')"
    obtain u where u: "vfs_stat os (w_cwd w) name w = Some (?st, u)" "view (w_os u) = view (w_os w)" "wrote fd [] w u"
      using vfs_stat_fixed [OF w cs(3) nm(1) f, unfolded ds, OF Inr] .
    show thesis
    proof (cases ?st)
      case (Inl e)
      with u Inr show thesis by (intro that [of FTP_FAIL]) (simp_all add: send_filestat_def entry_line_def)
    next
      case (Inr st)
      note st = Inr
      obtain t date where t: "convert_time (st_mtime st) = Some t" "list_date t = Some date"
        using fit \<open>resolve cs (split_path name) = Inr cs'\<close> st
        by (auto simp: entry_line_def bind_eq_Some_conv)
      define l where "l = list_line st date (find_basename name)"
      have e: "entry_line stat_of (vfs_root w) cs name = Some l"
        using \<open>resolve cs (split_path name) = Inr cs'\<close> st t by (simp add: entry_line_def l_def)
      have len: "length l < STAT_BUFFER_SIZE" using fit e by (simp add: line_fits_def)
      have "send_filestat os (w_cwd w) name fd w = Some (FTP_SUCCESS, emit fd l u)"
        using u(1) st t len by (simp add: send_filestat_def Let_def sendall_ok [OF os] flip: l_def)
      with u(2) e wrote_emit [OF u(3), of l] show thesis by (intro that [of FTP_SUCCESS]) simp_all
    qed
  qed
qed

lemma send_filestat_undefined:
  assumes f: "fixed_stats os stat_of view" and w: "vfs_ok w" and cs: "w_cwd w = render cs" "list_all is_name cs"
      "canonical (w_cwd w)" and name: "entry_name name" and un: "entry_line stat_of (vfs_root w) cs name = None"
  shows "send_filestat os (w_cwd w) name fd w = None"
proof -
  have nm: "nul_free name" "\<not> is_absolute name" using name by (cases name; auto simp: entry_name_def is_absolute_def)+
  have ds: "(if is_absolute name then [] else split_path (w_cwd w)) = cs" using nm cs(1,2) by simp
  obtain cs' st where st: "resolve cs (split_path name) = Inr cs'" "stat_of (vfs_root w @ render cs') = Inr st"
    and t: "convert_time (st_mtime st) = None \<or> list_date (the (convert_time (st_mtime st))) = None"
    using un by (auto simp: entry_line_def bind_eq_None_conv split: sum.splits)
  obtain u where "vfs_stat os (w_cwd w) name w = Some (stat_of (vfs_root w @ render cs'), u)"
    using vfs_stat_fixed [OF w cs(3) nm(1) f, unfolded ds, OF st(1)] .
  with st(2) t show ?thesis by (cases "convert_time (st_mtime st)") (auto simp: send_filestat_def)
qed

subsection \<open>A directory\<close>

lemma read_entries_fixed:
  assumes os: "sends_ok os" and f: "fixed_stats os stat_of left"
    and d: "\<And>s. \<exists>s'. sys_readdir os drv s = (case left s of [] \<Rightarrow> None | n # ns \<Rightarrow> Some n, s') \<and> left s' = tl (left s)"
    and w: "vfs_ok w" and cs: "w_cwd w = render cs" "list_all is_name cs" "canonical (w_cwd w)"
    and fit: "\<forall>n \<in> set (left (w_os w)). entry_name n"
      "\<forall>n \<in> set (visible opt_a (left (w_os w))). line_fits stat_of (vfs_root w) cs n"
  shows "if \<forall>n \<in> set (visible opt_a (left (w_os w))). entry_line stat_of (vfs_root w) cs n \<noteq> None
    then \<exists>w'. read_entries os drv opt_a w = Some ((), w')
      \<and> wrote (data_sock (w_conn w)) (listing stat_of (vfs_root w) cs (visible opt_a (left (w_os w)))) w w'
    else read_entries os drv opt_a w = None"
  using w cs fit
proof (induction "left (w_os w)" arbitrary: w)
  case Nil
  obtain s where s: "sys_readdir os drv (w_os w) = (None, s)" using d [of "w_os w"] by (auto simp: Nil.hyps [symmetric])
  have "wrote (data_sock (w_conn w)) [] w (w\<lparr>w_os := s\<rparr>)" by (simp add: wrote_def vfs_root_def vfs_ok_def)
  with s show ?case using Nil.hyps [symmetric]
    by (simp add: read_entries.simps os_query_def listing_def visible_def)
next
  case (Cons n ns)
  note left = Cons.hyps(2) [symmetric]
  obtain s where s: "sys_readdir os drv (w_os w) = (Some n, s)" "left s = ns" using d [of "w_os w"] by (auto simp: left)
  let ?u = "w\<lparr>w_os := s\<rparr>" and ?d = "data_sock (w_conn w)" and ?e = "entry_line stat_of (vfs_root w) cs"
  have u: "vfs_ok ?u" "vfs_root ?u = vfs_root w" "wrote ?d [] w ?u" using Cons.prems(1) by (simp_all add: wrote_def vfs_root_def vfs_ok_def)
  have eu: "left (w_os ?u) = ns" "w_session ?u = w_session w" "vfs_root ?u = vfs_root w" using s(2) u(2) by simp_all
  have fit: "entry_name n" "\<forall>n \<in> set ns. entry_name n" "\<forall>n \<in> set (visible opt_a ns). line_fits stat_of (vfs_root w) cs n"
    using Cons.prems(5,6) left by (auto simp: visible_def)
  have n: "cstr n = n" using fit(1) by (auto simp: entry_name_def nul_free_def cstr_def takeWhile_eq_all_conv)
  show ?case
  proof (cases "hidden n \<and> \<not> opt_a")
    case True
    have step: "read_entries os drv opt_a w = read_entries os drv opt_a ?u"
      using s n True by (subst read_entries.simps) (simp add: os_query_def)
    have vis: "visible opt_a (n # ns) = visible opt_a ns" using True by (simp add: visible_def)
    have IH: "if \<forall>n \<in> set (visible opt_a ns). ?e n \<noteq> None
      then \<exists>w'. read_entries os drv opt_a ?u = Some ((), w') \<and> wrote ?d (listing stat_of (vfs_root w) cs (visible opt_a ns)) ?u w'
      else read_entries os drv opt_a ?u = None"
      using Cons.hyps(1) [of ?u, unfolded eu] u Cons.prems(2-4) fit(2,3) by simp
    show ?thesis unfolding step left vis using IH wrote_trans [OF u(3)] by fastforce
  next
    case False
    then have vis: "visible opt_a (n # ns) = n # visible opt_a ns" by (auto simp: visible_def)
    have step1: "read_entries os drv opt_a w = (case send_filestat os (w_cwd ?u) n ?d ?u of None \<Rightarrow> None
        | Some (ret, w) \<Rightarrow> if ret \<noteq> FTP_SUCCESS \<and> ret \<noteq> FTP_FAIL then Some ((), w) else read_entries os drv opt_a w)"
      using s n False by (subst read_entries.simps) (auto simp: os_query_def)
    show ?thesis
    proof (cases "?e n")
      case None
      have "send_filestat os (w_cwd ?u) n ?d ?u = None"
        by (rule send_filestat_undefined [OF f u(1), of cs]) (use Cons.prems(2-4) fit(1) u(2) None in auto)
      with step1 None show ?thesis unfolding left vis by simp
    next
      case (Some l)
      have ln: "line_fits stat_of (vfs_root w) cs n" using Cons.prems(6) unfolding left vis by simp
      obtain r v where v: "send_filestat os (w_cwd ?u) n ?d ?u = Some (r, v)" "r = FTP_SUCCESS \<or> r = FTP_FAIL"
        "left (w_os v) = left (w_os ?u)" "wrote ?d (the (entry_line stat_of (vfs_root ?u) cs n)) ?u v"
        by (rule send_filestat_fixed [OF os f u(1), of cs n ?d]) (use Cons.prems(2-4) fit(1) ln u(2) Some in auto)
      have step: "read_entries os drv opt_a w = read_entries os drv opt_a v"
        using step1 v(1,2) by auto
      have v': "w_session v = w_session w" "vfs_root v = vfs_root w" "vfs_ok v" "left (w_os v) = ns"
        using v(3,4) u s(2) by (simp_all add: wrote_def)
      have IH: "if \<forall>n \<in> set (visible opt_a ns). ?e n \<noteq> None
        then \<exists>w'. read_entries os drv opt_a v = Some ((), w') \<and> wrote ?d (listing stat_of (vfs_root w) cs (visible opt_a ns)) v w'
        else read_entries os drv opt_a v = None"
        using Cons.hyps(1) [of v, unfolded v'] v'(3) Cons.prems(2-4) fit(2,3) by simp
      have tr: "wrote ?d (the (?e n) @ listing stat_of (vfs_root w) cs (visible opt_a ns)) w w'"
        if "wrote ?d (listing stat_of (vfs_root w) cs (visible opt_a ns)) v w'" for w'
        using wrote_trans [OF wrote_trans [OF u(3) v(4)] that] u(2) by simp
      show ?thesis unfolding step left vis using IH tr Some by (auto simp: listing_def)
    qed
  qed
qed

lemma session_chdir_resolves:
  assumes ok: "session_ok w" and v: "vfs_ok w" and p: "nul_free p"
    and r: "resolve (if is_absolute p then [] else split_path (w_cwd w)) (split_path p) = Inr cs"
  obtains vp b where "session_chdir p w = Some (0, upd_session (\<lambda>s. s\<lparr>virt_path := b\<rparr>) (w\<lparr>w_vfs := Some (vfs_root w, vp)\<rparr>))"
    and "cstr b = render cs" and "length b = FTP_MAX_PATH" and "length vp = FTP_MAX_PATH"
proof -
  obtain vp where q: "pool_realpath (w_cwd w) p w = Some (Inr (), w\<lparr>w_vfs := Some (vfs_root w, vp)\<rparr>)"
    "length vp = FTP_MAX_PATH" "cstr vp = render cs" using pool_realpath_resolves [OF v session_okD(2) [OF ok] p r] .
  obtain b x where b: "vfs_chdir (virt_path (w_session w)) p w = Some ((0, b), x)" "cstr b = render cs" "length b = FTP_MAX_PATH"
    using vfs_chdir_canonical [OF v session_okD(1,2) [OF ok] p] q by (auto simp: pool_virt_path_def)
  have "x = w\<lparr>w_vfs := Some (vfs_root w, vp)\<rparr>" using b(1) q(1) by (auto simp: vfs_chdir_def elim!: bind_SomeE)
  with b q(2) show thesis by (intro that [of b vp]) (simp_all add: session_chdir_def)
qed

lemma list_directory_fixed:
  assumes os: "sends_ok os" "fixed_stats os stat_of left" and d: "lists_dir os (vfs_root w @ render cs) drv names left"
    and ok: "session_ok w" "vfs_ok w" and p: "nul_free p"
    and r: "resolve (if is_absolute p then [] else split_path (w_cwd w)) (split_path p) = Inr cs"
    and fit: "\<forall>n \<in> set names. entry_name n" "\<forall>n \<in> set (visible opt_a names). line_fits stat_of (vfs_root w) cs n"
  shows "if \<forall>n \<in> set (visible opt_a names). entry_line stat_of (vfs_root w) cs n \<noteq> None
    then \<exists>w'. list_directory os p opt_a w = Some (FTP_SUCCESS, w')
      \<and> w_out w' = (w_out w)(data_sock (w_conn w) := w_out w (data_sock (w_conn w)) @ listing stat_of (vfs_root w) cs (visible opt_a names))
      \<and> w_cwd w' = w_cwd w \<and> w_conn w' = w_conn w \<and> w_fds w' = w_fds w
    else list_directory os p opt_a w = None"
proof -
  let ?d = "data_sock (w_conn w)"
  have cs: "list_all is_name cs" "canonical (render cs)"
  proof -
    have "list_all is_name (if is_absolute p then [] else split_path (w_cwd w))"
      "length (render (if is_absolute p then [] else split_path (w_cwd w))) < FTP_MAX_PATH"
      using canonical_split [OF session_okD(2) [OF ok(1)]] by (auto simp: FTP_MAX_PATH_def)
    from resolve_sound [OF this split_path_names [OF p] r] show "list_all is_name cs" "canonical (render cs)"
      by (auto intro: canonical_render)
  qed
  obtain tmp where tmp: "strlcpy (replicate FTP_MAX_PATH NUL) (w_cwd w) FTP_MAX_PATH = Some (length (w_cwd w), tmp)" "cstr tmp = w_cwd w"
    using strlcpy_cwd [OF session_cwd [OF ok(1)], of "replicate FTP_MAX_PATH NUL"] by auto
  obtain vp b where ch: "session_chdir p w = Some (0, upd_session (\<lambda>s. s\<lparr>virt_path := b\<rparr>) (w\<lparr>w_vfs := Some (vfs_root w, vp)\<rparr>))"
    "cstr b = render cs" "length b = FTP_MAX_PATH" "length vp = FTP_MAX_PATH" using session_chdir_resolves [OF ok p r] .
  define v where "v = upd_session (\<lambda>s. s\<lparr>virt_path := b\<rparr>) (w\<lparr>w_vfs := Some (vfs_root w, vp)\<rparr>)"
  have v: "vfs_ok v" "w_cwd v = render cs" "vfs_root v = vfs_root w" "w_out v = w_out w" "w_fds v = w_fds w" "w_conn v = w_conn w"
    using ok(2) ch(2,4) by (auto simp: v_def upd_session_def vfs_ok_def vfs_root_def)
  have dot: "nul_free ''.''" "resolve (if is_absolute ''.'' then [] else split_path (w_cwd v)) (split_path ''.'') = Inr cs"
    using cs(1) v(2) by (simp_all add: nul_free_def is_absolute_def split_path.simps [of "''.''"] split_path.simps [of "[]"] first_comp_def rest_comp_def)
  obtain vp' where q: "pool_realpath (w_cwd v) ''.'' v = Some (Inr (), v\<lparr>w_vfs := Some (vfs_root v, vp')\<rparr>)"
    "length vp' = FTP_MAX_PATH" "cstr vp' = render cs"
    by (rule pool_realpath_resolves [OF v(1) _ dot]) (use cs(2) v(2) in auto)
  obtain s where s: "sys_opendir os (vfs_root w @ render cs) (w_os v) = (Inr drv, s)" "left s = names"
    using d by (auto simp: lists_dir_def)
  define x where "x = v\<lparr>w_vfs := Some (vfs_root v, vp'), w_os := s\<rparr>"
  have op: "vfs_opendir os (w_cwd v) ''.'' v = Some (Inr drv, x)"
    using q s(1) v(3) by (simp add: vfs_opendir_def real_path_def os_call_def x_def)
  have x: "vfs_ok x" "w_cwd x = render cs" "vfs_root x = vfs_root w" "left (w_os x) = names" "w_out x = w_out w" "w_fds x = w_fds w"
    "w_conn x = w_conn w" using v q(2) s(2) by (auto simp: x_def vfs_ok_def vfs_root_def)
  have rd: "if \<forall>n \<in> set (visible opt_a names). entry_line stat_of (vfs_root w) cs n \<noteq> None
    then \<exists>y. read_entries os drv opt_a x = Some ((), y) \<and> wrote ?d (listing stat_of (vfs_root w) cs (visible opt_a names)) x y
    else read_entries os drv opt_a x = None"
    using read_entries_fixed [OF os _ x(1,2) cs(1), of drv opt_a, unfolded x(3,4,7)] d cs(2) fit x(2) by (simp add: lists_dir_def)
  show ?thesis
  proof (cases "\<forall>n \<in> set (visible opt_a names). entry_line stat_of (vfs_root w) cs n \<noteq> None")
    case False
    with rd have "read_entries os drv opt_a x = None" by presburger
    then have "list_directory os p opt_a w = None"
      using tmp ch(1) op by (simp add: list_directory_def Let_def flip: v_def)
    with False show ?thesis by presburger
  next
    case True
    from rd obtain y where y: "read_entries os drv opt_a x = Some ((), y)"
      "wrote ?d (listing stat_of (vfs_root w) cs (visible opt_a names)) x y" unfolding if_P [OF True] by blast
    define z where "z = vfs_closedir os drv y"
    have z: "w_session z = w_session y" "w_out z = w_out y" "w_fds z = w_fds y"
      by (auto simp: z_def vfs_closedir_def os_call_def Let_def split: prod.splits sum.splits)
    have zs: "w_session z = w_session v" using z(1) y(2) by (simp add: wrote_def x_def)
    obtain b' where b': "strlcpy (virt_path (w_session z)) (cstr tmp) FTP_MAX_PATH = Some (length (w_cwd w), b')" "cstr b' = w_cwd w"
      using strlcpy_cwd [OF session_cwd [OF ok(1)], of "virt_path (w_session z)"] ch(3) tmp(2) zs
      by (auto simp: v_def upd_session_def)
    have "list_directory os p opt_a w = Some (FTP_SUCCESS, upd_session (\<lambda>s. s\<lparr>virt_path := b'\<rparr>) z)"
      using tmp ch(1) op y(1) b'(1) by (simp add: list_directory_def Let_def flip: v_def z_def)
    then show ?thesis using True b'(2) z zs y(2) x v(6) by (auto simp: upd_session_def wrote_def)
  qed
qed

text \<open>The command up to the listing: the options are parsed, the data connection is open, 125 is sent.\<close>

lemma dolist_starts:
  assumes os: "sends_ok os" "fixed_stats os stat_of view" and w: "session_ok w" "logged_in (w_login w)"
    and arg: "parse_list_options (w_arg w) = Some (opt_a, argument, arg)" "p = (if argument = [] then ''.'' else argument)"
    and r: "resolve (if is_absolute p then [] else split_path (w_cwd w)) (split_path p) = Inr cs"
    and st: "stat_of (vfs_root w @ render cs) = Inr st" "S_ISDIR (st_mode st)"
    and acc: "accepts os (pasv_sock (w_conn w)) data view" "0 \<le> data" "data \<noteq> sock (w_conn w)"
  obtains y where "dolist os w = do { (ret, w) \<leftarrow> list_directory os p opt_a y; (_, w) \<leftarrow> say os (list_result ret) w;
      Some (FTP_SUCCESS, c_close os (data_sock (w_conn w)) w) }"
    and "nul_free p" and "session_ok y" and "vfs_ok y" and "vfs_root y = vfs_root w" and "w_cwd y = w_cwd w"
    and "sock (w_conn y) = sock (w_conn w)" and "data_sock (w_conn y) = data" and "w_out y data = w_out w data"
    and "w_out y (sock (w_conn w)) = w_out w (sock (w_conn w)) @ ''125 Data connection ok, transferring listing'' @ CRLF"
    and "w_fds y = insert data (w_fds w)"
proof -
  let ?c = "sock (w_conn w)" and ?l = "''125 Data connection ok, transferring listing'' @ CRLF"
  have nf: "nul_free arg" "nul_free p"
  proof -
    have "nul_free ''.''" by (simp add: nul_free_def)
    then show "nul_free arg" "nul_free p"
      using arg by (auto simp: parse_list_options_def elim!: bind_SomeE split: prod.splits)
  qed
  define u where "u = upd_command (\<lambda>c. c\<lparr>c_arg := arg\<rparr>) w"
  have u: "session_ok u" "vfs_ok u" "vfs_root u = vfs_root w" "w_cwd u = w_cwd w" "w_conn u = w_conn w" "w_out u = w_out w" "w_fds u = w_fds w"
    using keepsD(1) [OF keeps_upd_arg [OF keeps_refl nf(1)] w(1)] session_okD(8) [OF w]
    by (simp_all add: u_def upd_command_def upd_session_def vfs_ok_def vfs_root_def)
  obtain v where v: "vfs_stat os (w_cwd u) p u = Some (Inr st, v)" "view (w_os v) = view (w_os u)" "wrote ?c [] u v"
    using vfs_stat_fixed [OF u(2) session_okD(2) [OF u(1)] nf(2) os(2)] r u(3,4) st(1) by metis
  have v': "w_session v = w_session u" "w_out v = w_out w" "w_fds v = w_fds w"
    using v(3) u(6,7) by (simp_all add: wrote_def)
  obtain s where a: "accept_data_conn os (w_conn v) v = Some (data, v\<lparr>w_os := s, w_fds := insert data (w_fds v)\<rparr>)"
    by (rule accept_data_conn_ok [of os "w_conn v" data view v]) (use acc(1) v'(1) u(5) in auto)
  define x where "x = upd_conn (\<lambda>c. c\<lparr>data_sock := data\<rparr>) (v\<lparr>w_os := s, w_fds := insert data (w_fds v)\<rparr>)"
  define y where "y = emit ?c ?l x"
  have "keeps u v" by (rule vquiet_keeps [OF vfs_stat_vquiet [OF v(1)]])
  then have "keeps u x" unfolding x_def by (intro keeps_upd_socks keeps_then_quiet [OF _ accept_data_conn_quiet [OF a]])
  then have "keeps u y" unfolding y_def by (rule keeps_then_quiet) simp
  then have y: "session_ok y" "vfs_ok y" "vfs_root y = vfs_root w" "w_cwd y = w_cwd w" "sock (w_conn y) = ?c"
    "data_sock (w_conn y) = data" "w_out y data = w_out w data" "w_out y ?c = w_out w ?c @ ?l" "w_fds y = insert data (w_fds w)"
    using keepsD(1) [of u y] u v(3) v' acc(3)
    by (simp_all add: y_def x_def upd_conn_def upd_session_def emit_other) (auto simp: wrote_def vfs_ok_def vfs_root_def emit_def)
  have l: "say os ''125 Data connection ok, transferring listing'' x = Some (int (length ?l), y)"
    using y(5) by (simp add: say_def reply_ok [OF os(1)] y_def)
  have "dolist os w = do { (ret, w) \<leftarrow> list_directory os p opt_a y; (_, w) \<leftarrow> say os (list_result ret) w;
      Some (FTP_SUCCESS, c_close os (data_sock (w_conn w)) w) }"
    using arg v(1) a l acc(2) st(2) by (simp add: dolist_def Let_def flip: u_def x_def)
  then show thesis by (rule that) (use nf(2) y in simp_all)
qed

subsection \<open>Properties\<close>


definition dir_stat :: "string \<Rightarrow> errno + stat" where
  "dir_stat p = (if p = ''/srv/''
     then Inr \<lparr>st_mode = 0x4000, st_size = 0, st_mtime = 0, st_nlink = 2, st_uid = 0, st_gid = 0\<rparr>
     else if p = ''/srv/a.txt''
     then Inr \<lparr>st_mode = 0x8000, st_size = 5, st_mtime = 0, st_nlink = 1, st_uid = 0, st_gid = 0\<rparr>
     else Inl ENOENT)"

definition dir_os :: "string list os" where
  "dir_os = idle_os\<lparr>os_fs := idle_fs\<lparr>fs_lstat := \<lambda>p s. (dir_stat p, s), fs_stat := \<lambda>p s. (dir_stat p, s),
     fs_opendir := \<lambda>p s. (Inr 5, [''.hidden'', ''a.txt'', ''gone'']),
     fs_readdir := \<lambda>d s. (case s of [] \<Rightarrow> None | n # ns \<Rightarrow> Some n, tl s)\<rparr>\<rparr>"

lemma dir_os_ok:
  "sends_ok dir_os" "fixed_stats dir_os dir_stat (\<lambda>s. s)" "lists_dir dir_os p 5 [''.hidden'', ''a.txt'', ''gone''] (\<lambda>s. s)"
  "accepts dir_os l 9 (\<lambda>s. s)"
  by (auto simp: sends_ok_def fixed_stats_def lists_dir_def accepts_def dir_os_def idle_os_def idle_net_def
      dir_stat_def S_ISLNK_def S_IFMT_def split: sum.splits)

lemma dir_lines:
  "entry_line dir_stat ''/srv'' [] ''.hidden'' = Some []" "entry_line dir_stat ''/srv'' [] ''gone'' = Some []"
  "entry_line dir_stat ''/srv'' [] ''a.txt'' = Some (''-rwxrwxrwx 1 0 0 5 Jan 1 00:00 a.txt'' @ CRLF)"
proof -
  have p: "split_path ''.hidden'' = [''.hidden'']" "split_path ''gone'' = [''gone'']" "split_path ''a.txt'' = [''a.txt'']"
    by (simp_all add: split_path.simps first_comp_def rest_comp_def)
  then show "entry_line dir_stat ''/srv'' [] ''.hidden'' = Some []" "entry_line dir_stat ''/srv'' [] ''gone'' = Some []"
    by (simp_all add: entry_line_def dir_stat_def FTP_MAX_PATH_def render_def)
  have "convert_time 0 = Some \<lparr>tm_hour = 0, tm_min = 0, tm_sec = 0, tm_wday = 4, tm_year = 70, tm_yday = 0,
      tm_mon = 0, tm_mday = 1, tm_isdst = 0\<rparr>"
    by (simp add: convert_time_def to_int32_id INT_MIN_def INT_MAX_def year_loop.simps month_loop.simps is_leap_def
        year_days_def days_in_month_def smod_nonneg sdiv_nonneg)
  then show "entry_line dir_stat ''/srv'' [] ''a.txt'' = Some (''-rwxrwxrwx 1 0 0 5 Jan 1 00:00 a.txt'' @ CRLF)"
    using p by (simp add: entry_line_def dir_stat_def FTP_MAX_PATH_def render_def list_date_def months_def list_line_def
        get_modechar_def S_ISSOCK_def S_ISLNK_def S_ISFIFO_def S_ISBLK_def S_ISCHR_def S_ISREG_def S_ISDIR_def
        S_IFMT_def pad0_def fmt_d_def fmt_0d_def dec.simps digit_char_def find_basename_def strrchr_def)
qed


end
