(* ===== verification/Ftp_Files.thy ===== *)
theory Ftp_Files
  imports Ftp_Listing
begin

text \<open>
  The commands that change or describe one file, from end to end: MKD, RMD and DELE on every branch, SIZE and
  MDTM of a regular file. Each is one call on the path below the root that the argument resolves to, and
  one reply.
\<close>

text \<open>The command has sent \<open>text\<close>, left the system in the state \<open>s\<close>, and changed nothing of the session.\<close>

definition replied :: "'o world \<Rightarrow> string \<Rightarrow> 'o \<Rightarrow> 'o world \<Rightarrow> bool" where
  "replied w text s w' \<longleftrightarrow> w_out w' = (w_out w)(sock (w_conn w) := w_out w (sock (w_conn w)) @ text)
     \<and> w_os w' = s \<and> w_session w' = w_session w"

text \<open>What the path argument of a command stands for.\<close>

definition argument_path :: "'o world \<Rightarrow> errno + string list" where
  "argument_path w = resolve (if is_absolute (w_arg w) then [] else split_path (w_cwd w)) (split_path (w_arg w))"

definition failure_text :: "'o os \<Rightarrow> errno \<Rightarrow> string" where
  "failure_text os e = (if e \<in> {EPERM, ENOENT, EACCES, ENOTDIR, ENAMETOOLONG, ENOTEMPTY, ELOOP, EUSERS, EDQUOT}
     then take (RESPONSE_BUFFER_SIZE - 1) (''550 '' @ sys_strerror os e @ CRLF) else ''550 Server error'' @ CRLF)"

text \<open>Each command with the call it makes and its reply to a success.\<close>

definition path_commands :: "'o os \<Rightarrow> ('o handler \<times> (string \<Rightarrow> 'o \<Rightarrow> (errno + unit) \<times> 'o) \<times> (string \<Rightarrow> string)) list" where
  "path_commands os = [
     (domkd, \<lambda>p. sys_mkdir os p 511, \<lambda>a. ''257 '' @ [QUOTE] @ a @ [QUOTE] @ '' created''),
     (dormd, sys_rmdir os, \<lambda>a. ''250 Directory removed''),
     (dodele, sys_unlink os, \<lambda>a. ''250 File deleted'')]"

text \<open>The reply and the state of the system afterwards.\<close>

definition command_outcome ::
  "'o os \<Rightarrow> (string \<Rightarrow> 'o \<Rightarrow> (errno + unit) \<times> 'o) \<Rightarrow> (string \<Rightarrow> string) \<Rightarrow> 'o world \<Rightarrow> string \<times> 'o" where
  "command_outcome os call success w =
     (case argument_path w of
        Inl e \<Rightarrow> (failure_text os e, w_os w)
      | Inr cs \<Rightarrow> (case call (vfs_root w @ render cs) (w_os w) of
            (Inl e, s) \<Rightarrow> (failure_text os e, s)
          | (Inr _, s) \<Rightarrow> (take (RESPONSE_BUFFER_SIZE - 1) (success (w_arg w) @ CRLF), s)))"

subsection \<open>The replies\<close>

lemma vfs_failed_replies:
  assumes os: "sends_ok os" "\<And>e. nul_free (sys_strerror os e)" and u: "reply_pool_ok u" "w_out u = w_out w" "w_session u = w_session w"
  shows "\<exists>w'. vfs_failed os u = Some (FTP_SUCCESS, w') \<and> replied w (failure_text os (w_errno u)) (w_os u) w'"
proof -
  have nf: "nul_free (''550 '' @ sys_strerror os (w_errno u) @ CRLF)" using os(2) by simp
  show ?thesis
    using reply_format_ok [OF os(1) u(1) nf, of "w_conn u"] u(2,3)
    by (auto simp: vfs_failed_def failed_vfs_reply_def failure_text_def replied_def emit_def reply_ok [OF os(1)])
qed

lemma sayf_replies:
  assumes os: "sends_ok os" and u: "reply_pool_ok u" "w_out u = w_out w" "w_session u = w_session w" and nf: "nul_free msg"
  shows "\<exists>r w'. sayf os msg u = Some (r, w') \<and> replied w (take (RESPONSE_BUFFER_SIZE - 1) (msg @ CRLF)) (w_os u) w'"
proof -
  have "nul_free (msg @ CRLF)" using nf by simp
  from reply_format_ok [OF os u(1) this, of "w_conn u"] u(2,3) show ?thesis
    by (auto simp: sayf_def replied_def emit_def)
qed

lemma say_replies:
  assumes "sends_ok os" and "w_out u = w_out w" "w_session u = w_session w" and "length msg + 2 < RESPONSE_BUFFER_SIZE"
  shows "\<exists>r w'. say os msg u = Some (r, w') \<and> replied w (take (RESPONSE_BUFFER_SIZE - 1) (msg @ CRLF)) (w_os u) w'"
  using assms by (simp add: say_def reply_ok replied_def emit_def)

subsection \<open>MKD, RMD and DELE\<close>

text \<open>The shape the three have in common.\<close>

lemma path_command_outcome:
  fixes w :: "'o world"
  assumes os: "sends_ok os" "\<And>e. nul_free (sys_strerror os e)"
    and w: "reply_pool_ok w" "vfs_ok w" "canonical (w_cwd w)" "nul_free (w_arg w)"
    and h: "h os w = do {
        (r, u) \<leftarrow> pool_realpath (w_cwd w) (w_arg w) w;
        (r, u) \<leftarrow> (case r of Inl e \<Rightarrow> Some (Inl e, u) | Inr _ \<Rightarrow> Some (os_call (call (real_path u)) u));
        case r of Inl _ \<Rightarrow> do { (_, u) \<leftarrow> vfs_failed os u; Some (FTP_SUCCESS, u) }
        | Inr _ \<Rightarrow> do { (_, u) \<leftarrow> rep os u; Some (FTP_SUCCESS, u) } }"
    and rep: "\<And>u. \<lbrakk>reply_pool_ok u; w_out u = w_out w; w_session u = w_session w\<rbrakk>
      \<Longrightarrow> \<exists>r w'. rep os u = Some (r, w') \<and> replied w (take (RESPONSE_BUFFER_SIZE - 1) (success (w_arg w) @ CRLF)) (w_os u) w'"
  shows "\<exists>w'. h os w = Some (FTP_SUCCESS, w')
    \<and> replied w (fst (command_outcome os call success w)) (snd (command_outcome os call success w)) w'"
proof (cases "argument_path w")
  case (Inl e)
  obtain vp where v: "pool_realpath (w_cwd w) (w_arg w) w = Some (Inl e, w\<lparr>w_vfs := Some (vfs_root w, vp), w_errno := e\<rparr>)"
    using pool_realpath_too_long [OF w(2-4) Inl [unfolded argument_path_def]] .
  have "reply_pool_ok (w\<lparr>w_vfs := Some (vfs_root w, vp), w_errno := e\<rparr>)" using w(1) by (simp add: reply_pool_ok_def)
  from vfs_failed_replies [OF os this, of w] v Inl show ?thesis by (auto simp: h command_outcome_def)
next
  case (Inr cs)
  obtain vp where v: "pool_realpath (w_cwd w) (w_arg w) w = Some (Inr (), w\<lparr>w_vfs := Some (vfs_root w, vp)\<rparr>)" "cstr vp = render cs"
    using pool_realpath_resolves [OF w(2-4) Inr [unfolded argument_path_def]] .
  let ?u = "w\<lparr>w_vfs := Some (vfs_root w, vp)\<rparr>"
  have p: "real_path ?u = vfs_root w @ render cs" using v(2) by (simp add: real_path_def)
  show ?thesis
  proof (cases "call (vfs_root w @ render cs) (w_os w)")
    case (Pair r s)
    show ?thesis
    proof (cases r)
      case (Inl e)
      have "reply_pool_ok (?u\<lparr>w_os := s, w_errno := e\<rparr>)" using w(1) by (simp add: reply_pool_ok_def)
      from vfs_failed_replies [OF os this, of w] Inl Pair Inr v p show ?thesis
        by (auto simp: h command_outcome_def os_call_def)
    next
      case (Inr x)
      have "reply_pool_ok (?u\<lparr>w_os := s\<rparr>)" using w(1) by (simp add: reply_pool_ok_def)
      from rep [OF this] Inr Pair \<open>argument_path w = Inr cs\<close> v p show ?thesis
        by (auto simp: h command_outcome_def os_call_def)
    qed
  qed
qed
text \<open>The handlers in that shape.\<close>

lemma command_shape:
  "domkd os w = do {
     (r, u) \<leftarrow> pool_realpath (w_cwd w) (w_arg w) w;
     (r, u) \<leftarrow> (case r of Inl e \<Rightarrow> Some (Inl e, u) | Inr _ \<Rightarrow> Some (os_call (sys_mkdir os (real_path u) 511) u));
     case r of Inl _ \<Rightarrow> do { (_, u) \<leftarrow> vfs_failed os u; Some (FTP_SUCCESS, u) }
     | Inr _ \<Rightarrow> do { (_, u) \<leftarrow> sayf os (''257 '' @ [QUOTE] @ w_arg u @ [QUOTE] @ '' created'') u; Some (FTP_SUCCESS, u) } }"
  "dormd os w = do {
     (r, u) \<leftarrow> pool_realpath (w_cwd w) (w_arg w) w;
     (r, u) \<leftarrow> (case r of Inl e \<Rightarrow> Some (Inl e, u) | Inr _ \<Rightarrow> Some (os_call (sys_rmdir os (real_path u)) u));
     case r of Inl _ \<Rightarrow> do { (_, u) \<leftarrow> vfs_failed os u; Some (FTP_SUCCESS, u) }
     | Inr _ \<Rightarrow> do { (_, u) \<leftarrow> say os ''250 Directory removed'' u; Some (FTP_SUCCESS, u) } }"
  "dodele os w = do {
     (r, u) \<leftarrow> pool_realpath (w_cwd w) (w_arg w) w;
     (r, u) \<leftarrow> (case r of Inl e \<Rightarrow> Some (Inl e, u) | Inr _ \<Rightarrow> Some (os_call (sys_unlink os (real_path u)) u));
     case r of Inl _ \<Rightarrow> do { (_, u) \<leftarrow> vfs_failed os u; Some (FTP_SUCCESS, u) }
     | Inr _ \<Rightarrow> do { (_, u) \<leftarrow> say os ''250 File deleted'' u; Some (FTP_SUCCESS, u) } }"
  unfolding domkd_def vfs_mkdir_def dormd_def vfs_rmdir_def dodele_def vfs_unlink_def
  by (cases "pool_realpath (w_cwd w) (w_arg w) w"; auto split: sum.splits)+

text \<open>C7. MKD, RMD and DELE make exactly one change: the call on the path below the root that the argument
  resolves to, and none when it resolves to nothing (a path that is too long). The client is told the
  outcome, on every branch: the reply of the command after a success, else the error of the system for
  the listed errors and a general one for the others. The session stays as it was.\<close>

theorem path_command_changes:
  assumes os: "sends_ok os" "\<And>e. nul_free (sys_strerror os e)" and w: "session_ok w" "logged_in (w_login w)"
    and h: "(h, call, success) \<in> set (path_commands os)"
  shows "\<exists>w'. h os w = Some (FTP_SUCCESS, w')
    \<and> replied w (fst (command_outcome os call success w)) (snd (command_outcome os call success w)) w'"
proof -
  note outcome = path_command_outcome [OF os session_okD(6) [OF w(1)] session_okD(8) [OF w] session_okD(2,5) [OF w(1)]]
  consider "h = domkd" "call = (\<lambda>p. sys_mkdir os p 511)" "success = (\<lambda>a. ''257 '' @ [QUOTE] @ a @ [QUOTE] @ '' created'')"
    | "h = dormd" "call = sys_rmdir os" "success = (\<lambda>a. ''250 Directory removed'')"
    | "h = dodele" "call = sys_unlink os" "success = (\<lambda>a. ''250 File deleted'')"
    using h unfolding path_commands_def by auto
  then show ?thesis
  proof cases
    case 1
    have created: "nul_free (''257 '' @ [QUOTE] @ w_arg w @ [QUOTE] @ '' created'')" using session_okD(5) [OF w(1)] by (simp add: nul_free_def)
    show ?thesis unfolding 1
      by (rule outcome [where rep = "\<lambda>os u. sayf os (''257 '' @ [QUOTE] @ w_arg u @ [QUOTE] @ '' created'') u"], rule command_shape(1)) (use sayf_replies [OF os(1) _ _ _ created] in simp)
  next
    case 2
    show ?thesis unfolding 2
      by (rule outcome [where rep = "\<lambda>os u. say os ''250 Directory removed'' u"], rule command_shape(2)) (rule say_replies [OF os(1)], simp_all add: RESPONSE_BUFFER_SIZE_def)
  next
    case 3
    show ?thesis unfolding 3
      by (rule outcome [where rep = "\<lambda>os u. say os ''250 File deleted'' u"], rule command_shape(3)) (rule say_replies [OF os(1)], simp_all add: RESPONSE_BUFFER_SIZE_def)
  qed
qed

definition mkdir_os :: "string list os" where
  "mkdir_os = idle_os\<lparr>os_fs := idle_fs\<lparr>fs_mkdir := \<lambda>p m s. if p \<in> set s then (Inl EDQUOT, s) else (Inr (), p # s)\<rparr>\<rparr>"

theorem path_command_changes_witness:
  "\<exists>w'. domkd mkdir_os (arg_world [''/srv/pub''] ''pub/../new'') = Some (FTP_SUCCESS, w')
    \<and> w_os w' = [''/srv/new'', ''/srv/pub''] \<and> w_out w' 4 = ''257 '' @ [QUOTE] @ ''pub/../new'' @ [QUOTE] @ '' created'' @ CRLF"
proof -
  let ?w = "arg_world [''/srv/pub''] ''pub/../new''"
  have os: "sends_ok mkdir_os" "\<And>e. nul_free (sys_strerror mkdir_os e)"
    by (simp_all add: sends_ok_def mkdir_os_def idle_os_def idle_net_def idle_proc_def nul_free_def)
  have ok: "session_ok ?w" by (rule arg_world_ok) (simp add: nul_free_def)
  have p: "split_path ''pub/../new'' = [''pub'', ''..'', ''new'']" "split_path ''/'' = []"
    by (simp_all add: split_path.simps first_comp_def rest_comp_def)
  have a: "argument_path ?w = Inr [''new'']"
    using p by (simp add: argument_path_def is_absolute_def render_def FTP_MAX_PATH_def)
  have m: "(domkd, \<lambda>p. sys_mkdir mkdir_os p 511, \<lambda>a. ''257 '' @ [QUOTE] @ a @ [QUOTE] @ '' created'') \<in> set (path_commands mkdir_os)"
    by (simp add: path_commands_def)
  obtain w' where "domkd mkdir_os ?w = Some (FTP_SUCCESS, w')"
    "replied ?w (fst (command_outcome mkdir_os (\<lambda>p. sys_mkdir mkdir_os p 511) (\<lambda>a. ''257 '' @ [QUOTE] @ a @ [QUOTE] @ '' created'') ?w))
      (snd (command_outcome mkdir_os (\<lambda>p. sys_mkdir mkdir_os p 511) (\<lambda>a. ''257 '' @ [QUOTE] @ a @ [QUOTE] @ '' created'') ?w)) w'"
    using path_command_changes [OF os ok _ m] by auto
  then show ?thesis
    by (simp add: replied_def command_outcome_def a mkdir_os_def render_def RESPONSE_BUFFER_SIZE_def idle_session_def)
qed

subsection \<open>SIZE and MDTM\<close>

lemma length_fmt_0d: "0 \<le> i \<Longrightarrow> nat i < 10 ^ k \<Longrightarrow> 0 < k \<Longrightarrow> length (fmt_0d k i) = k"
  using length_dec_le [of "nat i" k] by (simp add: fmt_0d_def pad0_def)

lemma mdtm_date_whole:
  assumes "tm_wf t"
  shows "mdtm_date t = fmt_0d 4 (tm_year t + 1900) @ fmt_0d 2 (tm_mon t) @ fmt_0d 2 (tm_mday t)
     @ fmt_0d 2 (tm_hour t) @ fmt_0d 2 (tm_min t) @ fmt_0d 2 (tm_sec t)" and "length (mdtm_date t) = 14"
proof -
  have two: "length (fmt_0d 2 i) = 2" if "0 \<le> i" "i < 100" for i
    using length_fmt_0d [of i 2] that by (simp add: nat_less_iff)
  have four: "length (fmt_0d 4 (tm_year t + 1900)) = 4"
    using length_fmt_0d [of "tm_year t + 1900" 4] assms by (simp add: tm_wf_def nat_less_iff)
  show "mdtm_date t = fmt_0d 4 (tm_year t + 1900) @ fmt_0d 2 (tm_mon t) @ fmt_0d 2 (tm_mday t)
      @ fmt_0d 2 (tm_hour t) @ fmt_0d 2 (tm_min t) @ fmt_0d 2 (tm_sec t)" and "length (mdtm_date t) = 14"
    using assms four by (simp_all add: mdtm_date_def tm_wf_def two)
qed

lemma nul_free_fmt_0d: "nul_free (fmt_0d k i)"
  using nul_free_dec by (auto simp: fmt_0d_def pad0_def nul_free_def)

lemma vfs_stat_found:
  assumes w: "vfs_ok w" "canonical (w_cwd w)" "nul_free (w_arg w)" and a: "argument_path w = Inr cs"
    and lstat: "sys_lstat os (vfs_root w @ render cs) (w_os w) = (Inr link, s1)" "\<not> S_ISLNK (st_mode link)"
    and stat: "sys_stat os (vfs_root w @ render cs) s1 = (Inr st, s2)"
  shows "\<exists>vp. vfs_stat os (w_cwd w) (w_arg w) w = Some (Inr st, w\<lparr>w_vfs := Some (vfs_root w, vp), w_os := s2\<rparr>)"
proof -
  obtain vp where v: "pool_realpath (w_cwd w) (w_arg w) w = Some (Inr (), w\<lparr>w_vfs := Some (vfs_root w, vp)\<rparr>)" "cstr vp = render cs"
    using pool_realpath_resolves [OF w a [unfolded argument_path_def]] .
  with lstat stat show ?thesis by (intro exI [of _ vp]) (simp add: vfs_stat_def real_path_def os_call_def)
qed

text \<open>C8. What SIZE and MDTM say of a regular file: SIZE its size in decimal. MDTM, if the file was last
  changed between 1 January 1970 and day 10980, the digits of the broken-down time \<open>convert_time\<close> makes of its
  time stamp, with the month counted from 0: the right time of day, and the right date only up to 28
  February 1970, for the fields encode the time stamp in the code's calendar of 366 days a year
  (\<open>seconds_366\<close>). For any later time stamp MDTM is undefined.\<close>

theorem file_facts_reported:
  assumes os: "sends_ok os" and w: "session_ok w" "logged_in (w_login w)"
    and a: "argument_path w = Inr cs"
    and lstat: "sys_lstat os (vfs_root w @ render cs) (w_os w) = (Inr link, s1)" "\<not> S_ISLNK (st_mode link)"
    and stat: "sys_stat os (vfs_root w @ render cs) s1 = (Inr st, s2)" "S_ISREG (st_mode st)"
    and size: "0 \<le> st_size st" "st_size st < 2 ^ 63"
  shows "(\<exists>w'. dosize os w = Some (FTP_SUCCESS, w') \<and> replied w (''213 '' @ dec (nat (st_size st)) @ CRLF) s2 w')
    \<and> (0 \<le> st_mtime st \<and> st_mtime st < 86400 * 10980 \<longrightarrow>
        (\<exists>t w'. domdtm os w = Some (FTP_SUCCESS, w') \<and> convert_time (st_mtime st) = Some t
          \<and> tm_wf t \<and> seconds_366 t = st_mtime st \<and> shows_clock t (st_mtime st)
          \<and> (names_day t (st_mtime st div 86400) \<longleftrightarrow> st_mtime st < 86400 * 59)
          \<and> replied w (''213 '' @ fmt_0d 4 (tm_year t + 1900) @ fmt_0d 2 (tm_mon t) @ fmt_0d 2 (tm_mday t)
              @ fmt_0d 2 (tm_hour t) @ fmt_0d 2 (tm_min t) @ fmt_0d 2 (tm_sec t) @ CRLF) s2 w'))
    \<and> (86400 * 10980 \<le> st_mtime st \<and> st_mtime st < 86400 * 2147483648 \<longrightarrow> domdtm os w = None)"
proof (intro conjI impI)
  obtain vp where v: "vfs_stat os (w_cwd w) (w_arg w) w = Some (Inr st, w\<lparr>w_vfs := Some (vfs_root w, vp), w_os := s2\<rparr>)"
    using vfs_stat_found [OF session_okD(8) [OF w] session_okD(2,5) [OF w(1)] a lstat stat(1)] by blast
  define u where "u = w\<lparr>w_vfs := Some (vfs_root w, vp), w_os := s2\<rparr>"
  note v = v [folded u_def]
  have u: "reply_pool_ok u" "w_out u = w_out w" "w_session u = w_session w" "w_os u = s2"
    using session_okD(6) [OF w(1)] by (simp_all add: u_def reply_pool_ok_def)
  note sends = sayf_replies [OF os u(1-3), unfolded u(4)]
  have short: "take (RESPONSE_BUFFER_SIZE - 1) t = t" if "length t < RESPONSE_BUFFER_SIZE" for t :: string using that by simp
  {
    have len: "length (dec (nat (st_size st))) \<le> 20" using length_dec_le [of "nat (st_size st)" 20] size by (simp add: nat_less_iff)
    have "nul_free (''213 '' @ dec (nat (st_size st)))" by (simp add: nul_free_def [of "''213 ''"])
    from sends [OF this] len show "\<exists>w'. dosize os w = Some (FTP_SUCCESS, w') \<and> replied w (''213 '' @ dec (nat (st_size st)) @ CRLF) s2 w'"
      using v stat(2) size by (auto simp: dosize_def fmt_llu_def RESPONSE_BUFFER_SIZE_def)
  }
  {
    assume "0 \<le> st_mtime st \<and> st_mtime st < 86400 * 10980"
    then obtain t where t: "convert_time (st_mtime st) = Some t" "tm_wf t" "seconds_366 t = st_mtime st"
      "shows_clock t (st_mtime st)" "names_day t (st_mtime st div 86400) \<longleftrightarrow> st_mtime st < 86400 * 59"
      using convert_time_Some [of "st_mtime st"] convert_time_date [of "st_mtime st"] by auto
    have nf: "nul_free (''213 '' @ mdtm_date t)" unfolding mdtm_date_whole(1) [OF t(2)] by (simp add: nul_free_fmt_0d)
    obtain r w' where s: "sayf os (''213 '' @ mdtm_date t) u = Some (r, w')" "replied w (''213 '' @ mdtm_date t @ CRLF) s2 w'"
      using sends [OF nf] mdtm_date_whole(2) [OF t(2)] by (auto simp: RESPONSE_BUFFER_SIZE_def)
    have "domdtm os w = Some (FTP_SUCCESS, w')" using v stat(2) t(1) s(1) by (simp add: domdtm_def)
    with t s(2) show "\<exists>t w'. domdtm os w = Some (FTP_SUCCESS, w') \<and> convert_time (st_mtime st) = Some t
          \<and> tm_wf t \<and> seconds_366 t = st_mtime st \<and> shows_clock t (st_mtime st)
          \<and> (names_day t (st_mtime st div 86400) \<longleftrightarrow> st_mtime st < 86400 * 59)
          \<and> replied w (''213 '' @ fmt_0d 4 (tm_year t + 1900) @ fmt_0d 2 (tm_mon t) @ fmt_0d 2 (tm_mday t)
              @ fmt_0d 2 (tm_hour t) @ fmt_0d 2 (tm_min t) @ fmt_0d 2 (tm_sec t) @ CRLF) s2 w'"
      by (intro exI [of _ t] exI [of _ w']) (simp add: mdtm_date_whole(1))
  }
  show "domdtm os w = None" if "86400 * 10980 \<le> st_mtime st \<and> st_mtime st < 86400 * 2147483648"
    using v stat(2) convert_time_None that by (simp add: domdtm_def)
qed

definition dated_os :: "unit os" where
  "dated_os = idle_os\<lparr>os_fs := idle_fs\<lparr>
     fs_lstat := \<lambda>p s. (Inr \<lparr>st_mode = 0x8000, st_size = 1234, st_mtime = 1700000000, st_nlink = 1, st_uid = 0, st_gid = 0\<rparr>, s),
     fs_stat := \<lambda>p s. (Inr \<lparr>st_mode = 0x8000, st_size = 1234, st_mtime = 1700000000, st_nlink = 1, st_uid = 0, st_gid = 0\<rparr>, s)\<rparr>\<rparr>"

theorem file_facts_reported_witness:
  "(\<exists>w'. dosize dated_os (arg_world () ''notes'') = Some (FTP_SUCCESS, w') \<and> w_out w' 4 = ''213 1234'' @ CRLF)
    \<and> domdtm dated_os (arg_world () ''notes'') = None"
proof -
  let ?w = "arg_world () ''notes''"
  let ?st = "\<lparr>st_mode = 0x8000, st_size = 1234, st_mtime = 1700000000, st_nlink = 1, st_uid = 0, st_gid = 0\<rparr>"
  have os: "sends_ok dated_os" by (simp add: sends_ok_def dated_os_def idle_os_def idle_net_def)
  have ok: "session_ok ?w" by (rule arg_world_ok) (simp add: nul_free_def)
  have p: "split_path ''notes'' = [''notes'']" "split_path ''/'' = []"
    by (simp_all add: split_path.simps first_comp_def rest_comp_def)
  have a: "argument_path ?w = Inr [''notes'']"
    using p by (simp add: argument_path_def is_absolute_def render_def FTP_MAX_PATH_def)
  have calls: "sys_lstat dated_os q s = (Inr ?st, s)" "sys_stat dated_os q s = (Inr ?st, s)" for q s
    by (simp_all add: dated_os_def)
  have reg: "\<not> S_ISLNK (st_mode ?st)" "S_ISREG (st_mode ?st)"
    by (simp_all add: S_ISLNK_def S_ISREG_def S_IFMT_def)
  have d: "dec (nat 1234) = ''1234''" by code_simp
  have "(\<exists>w'. dosize dated_os ?w = Some (FTP_SUCCESS, w') \<and> replied ?w (''213 '' @ dec (nat (st_size ?st)) @ CRLF) () w')
    \<and> domdtm dated_os ?w = None"
    using file_facts_reported [OF os ok _ a calls(1) reg(1) calls(2) reg(2)] by simp
  then show ?thesis using d by (auto simp: replied_def idle_session_def)
qed

end
