(* ===== verification/Ftp_Total.thy ===== *)
theory Ftp_Total
  imports Ftp_Command Ftp_Files
begin

text \<open>
  The absence of undefined behaviour in the commands: from a well-formed session, on a system whose calls
  may fail in any way, every command on the control connection ends with a value. The rules go along the
  handlers as those of \<open>frame_relation\<close> do, and give totality besides the frame.
\<close>

subsection \<open>Total computations\<close>

definition completes :: "'o world \<Rightarrow> ('r \<times> 'o world) option \<Rightarrow> bool" where
  "completes w m \<longleftrightarrow> (\<exists>r w'. m = Some (r, w') \<and> keeps w w')"

named_theorems completes_rules

lemma completesI: "within keeps w m \<Longrightarrow> m \<noteq> None \<Longrightarrow> completes w m"
  by (auto simp: completes_def within_def)

lemma completes_return [completes_rules]: "keeps w v \<Longrightarrow> completes w (Some (r, v))"
  by (simp add: completes_def)

lemma completes_bind [completes_rules]:
  "completes w m \<Longrightarrow> (\<And>r v. keeps w v \<Longrightarrow> completes w (f (r, v))) \<Longrightarrow> completes w (m \<bind> f)"
  by (auto simp: completes_def)

lemma completes_pure:
  "m \<noteq> None \<Longrightarrow> (\<And>x. m = Some x \<Longrightarrow> completes w (f x)) \<Longrightarrow> completes w (m \<bind> f)"
  by (cases m) simp_all

lemma completes_if [completes_rules]:
  "(b \<Longrightarrow> completes w m) \<Longrightarrow> (\<not> b \<Longrightarrow> completes w k) \<Longrightarrow> completes w (if b then m else k)"
  by simp

lemma completes_sum [completes_rules]:
  "(\<And>x. completes w (f x)) \<Longrightarrow> (\<And>y. completes w (g y)) \<Longrightarrow> completes w (case a of Inl x \<Rightarrow> f x | Inr y \<Rightarrow> g y)"
  by (simp split: sum.splits)

lemma completes_option [completes_rules]:
  "completes w f \<Longrightarrow> (\<And>y. completes w (g y)) \<Longrightarrow> completes w (case a of None \<Rightarrow> f | Some y \<Rightarrow> g y)"
  by (simp split: option.splits)

lemma completes_pair:
  assumes "\<And>x v. p = (x, v) \<Longrightarrow> quiet u v" and "keeps w u"
    and "\<And>x v. keeps w v \<Longrightarrow> completes w (f x v)"
  shows "completes w (case p of (x, v) \<Rightarrow> f x v)"
  using assms keeps_then_quiet by (cases p) (simp, blast)

lemma completes_pairs [completes_rules]:
  assumes "keeps w u"
  shows "(\<And>x v. keeps w v \<Longrightarrow> completes w (f1 x v)) \<Longrightarrow> completes w (case os_call g1 u of (x, v) \<Rightarrow> f1 x v)"
    and "(\<And>x v. keeps w v \<Longrightarrow> completes w (f2 x v)) \<Longrightarrow> completes w (case os_query g2 u of (x, v) \<Rightarrow> f2 x v)"
    and "(\<And>x v. keeps w v \<Longrightarrow> completes w (f3 x v)) \<Longrightarrow> completes w (case os_newfd g3 u of (x, v) \<Rightarrow> f3 x v)"
    and "(\<And>x v. keeps w v \<Longrightarrow> completes w (f4 x v)) \<Longrightarrow> completes w (case c_malloc os n u of (x, v) \<Rightarrow> f4 x v)"
  by (rule completes_pair [OF _ assms]; (erule os_call_quiet os_query_quiet os_newfd_quiet c_malloc_quiet
      | assumption | blast))+

subsection \<open>The primitives\<close>

text \<open>What the loops around \<open>send\<close> and \<open>writev\<close> need to end, and no more: a call may take a part of the bytes,
  or fail, but not be interrupted for ever; \<open>m\<close> bounds the interruptions that are still to come. Error
  messages are strings. Every call may fail.\<close>

definition patient :: "'o os \<Rightarrow> ('o \<Rightarrow> nat) \<Rightarrow> bool" where
  "patient os m \<longleftrightarrow>
     (\<forall>fd d s. d \<noteq> [] \<longrightarrow> (case sys_send os fd d s of
         (Inl e, s') \<Rightarrow> e = EINTR \<longrightarrow> m s' < m s | (Inr n, s') \<Rightarrow> 0 < n \<and> n \<le> length d))
   \<and> (\<forall>fd iov s. case sys_writev os fd iov s of
         (Inl e, s') \<Rightarrow> e = EINTR \<longrightarrow> m s' < m s | (Inr n, s') \<Rightarrow> True)"

definition sound :: "'o os \<Rightarrow> bool" where
  "sound os \<longleftrightarrow> (\<exists>m. patient os m) \<and> (\<forall>e. nul_free (sys_strerror os e))"

lemma sendall_loop_total:
  assumes "patient os m" and "tot \<le> length buf"
  shows "sendall_loop os fd buf tot w \<noteq> None"
  using assms(2)
proof (induction "(length buf - tot, m (w_os w))" arbitrary: tot w rule: wf_induct_rule [OF wf_lex_prod [OF wf_less_than wf_less_than]])
  case 1
  show ?case
  proof (cases "tot < length buf")
    case True
    obtain r s where r: "sys_send os fd (drop tot buf) (w_os w) = (r, s)" by force
    have "drop tot buf \<noteq> []" using True by simp
    from assms(1) [unfolded patient_def, THEN conjunct1, rule_format, where fd = fd and s = "w_os w", OF this] r
    have p: "case r of Inl e \<Rightarrow> e = EINTR \<longrightarrow> m s < m (w_os w) | Inr n \<Rightarrow> 0 < n \<and> n \<le> length buf - tot"
      by (simp split: sum.splits)
    show ?thesis
    proof (cases r)
      case (Inl e)
      have "sendall_loop os fd buf tot (w\<lparr>w_os := s, w_errno := EINTR\<rparr>) \<noteq> None" if "e = EINTR"
        by (rule 1(1)) (use p Inl that 1(2) in auto)
      with True r Inl show ?thesis by (subst sendall_loop.simps) (simp add: os_call_def)
    next
      case (Inr n)
      have "sendall_loop os fd buf (tot + n) (w\<lparr>w_os := s, w_out := f\<rparr>) \<noteq> None" for f
        by (rule 1(1)) (use p Inr True in auto)
      with True r Inr show ?thesis by (subst sendall_loop.simps) (simp add: os_call_def)
    qed
  qed (simp add: sendall_loop.simps)
qed

lemma writev_loop_total:
  assumes "patient os m" shows "writev_loop os fd iov w \<noteq> None"
proof (induction "m (w_os w)" arbitrary: w rule: less_induct)
  case less
  obtain r s where r: "sys_writev os fd iov (w_os w) = (r, s)" by force
  from assms [unfolded patient_def, THEN conjunct2, rule_format, where fd = fd and iov = iov and s = "w_os w"] r
  have p: "case r of Inl e \<Rightarrow> e = EINTR \<longrightarrow> m s < m (w_os w) | Inr n \<Rightarrow> True" by (simp split: sum.splits)
  show ?case
  proof (cases r)
    case (Inl e)
    have "writev_loop os fd iov (w\<lparr>w_os := s, w_errno := EINTR\<rparr>) \<noteq> None" if "e = EINTR"
      by (rule less) (use p Inl that in simp)
    with r Inl show ?thesis by (subst writev_loop.simps) (simp add: os_call_def)
  next
    case (Inr n)
    with r show ?thesis by (subst writev_loop.simps) (simp add: os_call_def)
  qed
qed

lemma soundD:
  assumes "sound os"
  shows "\<exists>r v. reply os con msg w = Some (r, v)" and "\<exists>r v. writev_loop os fd iov w = Some (r, v)"
    and "nul_free (sys_strerror os e)"
    and "reply_pool_ok w \<Longrightarrow> nul_free t \<Longrightarrow> \<exists>r v. reply_format os con t w = Some (r, v)"
proof -
  obtain m where m: "patient os m" using assms by (auto simp: sound_def)
  show rep: "\<exists>r v. reply os con msg w = Some (r, v)" for msg and w :: "'a world"
    using sendall_loop_total [OF m, of 0 msg "sock con" w] by (simp add: reply_def sendall_def)
  show "\<exists>r v. writev_loop os fd iov w = Some (r, v)" using writev_loop_total [OF m, of fd iov w] by simp
  show "nul_free (sys_strerror os e)" using assms by (simp add: sound_def)
  assume "reply_pool_ok w" and t: "nul_free t"
  then obtain b where b: "w_reply_pool w = Some b" "length b = RESPONSE_BUFFER_SIZE" by (auto simp: reply_pool_ok_def)
  obtain b' where "snprintf_buf b RESPONSE_BUFFER_SIZE t = Some b'" using snprintf_buf_ok [OF b(2) t] by blast
  with b(1) rep show "\<exists>r v. reply_format os con t w = Some (r, v)" by (simp add: reply_format_def)
qed

lemma reply_then:
  assumes "sound os" shows "\<exists>a b. (reply os con msg w \<bind> (\<lambda>(r, v). Some (g v))) = Some (a, b)"
proof -
  obtain r v where "reply os con msg w = Some (r, v)" using soundD(1) [OF assms] by blast
  then show ?thesis by (cases "g v") simp
qed

lemma send_state_total:
  assumes os: "sound os" and sp: "state_pool_ok w" and t: "sendable t (w_session w)"
  shows "\<exists>r v. send_state os t w = Some (r, v)"
proof -
  obtain p where p: "w_state_pool w = Some p" "length p = FTP_MAX_PATH" using sp by (auto simp: state_pool_ok_def)
  have "t \<in> {T_LOGIN, T_CHDIR, T_XFER_START, T_XFER, T_XFER_STOP}" using t by (auto simp: sendable_def split: if_splits)
  then obtain op where op: "(find_state_op t :: 'a state_op option) = Some op"
    by (force simp: find_state_op_def state_ops_def)
  obtain p' where "op_send op (w_session w) p = Some (FTP_SUCCESS, p')" "length p' = FTP_MAX_PATH" "op_size op \<le> FTP_MAX_PATH"
    using op_send_shows [OF t p(2) op] by blast
  with p(1) op soundD(2) [OF os] show ?thesis by (simp add: send_state_def Let_def)
qed

lemma completes_say [completes_rules]:
  assumes "sound os" and "keeps w u"
  shows "completes w (reply os con msg u)" and "completes w (say os msg u)"
  by (rule completesI [OF keeps_prims(1) [OF assms(2)]] completesI [OF keeps_says(1) [OF assms(2)]],
      use soundD(1) [OF assms(1)] in \<open>force simp: say_def\<close>)+

lemma completes_sayf [completes_rules]:
  assumes "sound os" and "keeps w u" and "session_ok w" and "nul_free msg"
  shows "completes w (reply_format os con msg u)" and "completes w (sayf os msg u)" and "completes w (vfs_failed os u)"
    and "completes w (failed_vfs_reply os con u)"
proof -
  note rp = session_okD(6) [OF keepsD(1) [OF assms(2,3)]]
  have f: "reply_format os con t u \<noteq> None" if "nul_free t" for con t
    using soundD(4) [OF assms(1) rp that, of con] by auto
  have v: "failed_vfs_reply os con u \<noteq> None" for con
  proof -
    have "nul_free (''550 '' @ sys_strerror os (w_errno u) @ CRLF)" using soundD(3) [OF assms(1)] by simp
    from soundD(4) [OF assms(1) rp this, of con] show ?thesis
      using reply_then [OF assms(1), where g = "Pair FTP_SUCCESS"] by (auto simp: failed_vfs_reply_def)
  qed
  show "completes w (reply_format os con msg u)" by (rule completesI [OF keeps_prims(2) [OF assms(2)] f [OF assms(4)]])
  show "completes w (sayf os msg u)"
    by (rule completesI [OF keeps_says(2) [OF assms(2)]]) (use f assms(4) in \<open>simp add: sayf_def\<close>)
  show "completes w (failed_vfs_reply os con u)" by (rule completesI [OF keeps_prims(3) [OF assms(2)] v])
  show "completes w (vfs_failed os u)" by (rule completesI [OF keeps_says(3) [OF assms(2)]]) (simp add: vfs_failed_def v)
qed

text \<open>A member of the server: well-formed and logged in, as it stays.\<close>

definition member :: "'o world \<Rightarrow> bool" where
  "member w \<longleftrightarrow> session_ok w \<and> logged_in (w_login w)"

lemma memberD:
  assumes "member w" and "keeps w u"
  shows "session_ok w" and "member u" and "vfs_ok u" and "canonical (w_cwd u)" and "nul_free (w_arg u)" and "state_pool_ok u"
proof -
  show w: "session_ok w" using assms(1) by (simp add: member_def)
  show u: "member u" using assms keepsD by (auto simp: member_def)
  then show "vfs_ok u" "canonical (w_cwd u)" "nul_free (w_arg u)" "state_pool_ok u"
    using session_okD(2,5,8,9) [of u] by (auto simp: member_def)
qed

lemma completes_vfs [completes_rules]:
  assumes m: "member w" and k: "keeps w u" and p: "canonical c" "nul_free p"
  shows "completes w (vfs_stat os c p u)" and "completes w (vfs_mkdir os c p md u)"
    and "completes w (vfs_rmdir os c p u)" and "completes w (vfs_unlink os c p u)"
proof -
  have "\<exists>r v. pool_realpath c p u = Some (r, v)"
    using pool_realpath_cases [OF memberD(3) [OF m k] p] by metis
  then have n: "vfs_stat os c p u \<noteq> None" "vfs_mkdir os c p md u \<noteq> None" "vfs_rmdir os c p u \<noteq> None"
    "vfs_unlink os c p u \<noteq> None"
    by (auto simp: vfs_stat_def vfs_mkdir_def vfs_rmdir_def vfs_unlink_def split: sum.splits prod.splits)
  show "completes w (vfs_stat os c p u)" by (rule completesI [OF keeps_prims(5) [OF k] n(1)])
  show "completes w (vfs_mkdir os c p md u)" by (rule completesI [OF keeps_prims(8) [OF k] n(2)])
  show "completes w (vfs_rmdir os c p u)" by (rule completesI [OF keeps_prims(9) [OF k] n(3)])
  show "completes w (vfs_unlink os c p u)" by (rule completesI [OF keeps_prims(10) [OF k] n(4)])
qed

lemma completes_chdir [completes_rules]:
  assumes m: "member w" and k: "keeps w u" and p: "nul_free p"
  shows "completes w (session_chdir p u)"
proof (rule completesI [OF session_chdir_within [OF k memberD(1) [OF m k] p]])
  note ok = session_okD(1,2) [OF keepsD(1) [OF k memberD(1) [OF m k]]]
  show "session_chdir p u \<noteq> None"
    using vfs_chdir_canonical [OF memberD(3) [OF m k] ok p] by (auto simp: session_chdir_def)
qed

lemma completes_send_chdir [completes_rules]:
  assumes os: "sound os" and m: "member w" and k: "keeps w u"
  shows "completes w (send_state os T_CHDIR u)"
proof (rule completesI [OF keeps_prims(12) [OF k]])
  have "sendable T_CHDIR (w_session u)"
    using memberD(4) [OF m k] canonical_split canonical_absolute
    by (fastforce simp: sendable_def state_types is_absolute_def)
  from send_state_total [OF os memberD(6) [OF m k] this] show "send_state os T_CHDIR u \<noteq> None" by auto
qed

subsection \<open>The handlers\<close>

text \<open>Those that only reply.\<close>

lemma completes_replies [completes_rules]:
  assumes os: "sound os"
  shows "completes w (dosyst os w)" and "completes w (donoop os w)" and "completes w (doquit os w)"
    and "completes w (dofeat os w)" and "completes w (doopts os w)" and "completes w (doabor os w)"
    and "completes w (doclnt os w)" and "completes w (doallo os w)" and "completes w (doacct os w)" and "completes w (dotype os w)"
  using os by (auto simp: dosyst_def donoop_def doquit_def dofeat_def doopts_def doabor_def doclnt_def doallo_def
      doacct_def dotype_def Let_def intro!: completes_rules)

text \<open>Those that go to the file system, but not to the data connection.\<close>

lemma completes_files [completes_rules]:
  assumes os: "sound os" and m: "member w"
  shows "completes w (dopwd os w)" and "completes w (domkd os w)" and "completes w (dormd os w)"
    and "completes w (dodele os w)" and "completes w (dosize os w)" and "completes w (docwd os w)"
proof -
  note facts = os m memberD [OF m] and ok = memberD(1) [OF m keeps_refl]
  have cwd: "nul_free (w_cwd v)" if "keeps w v" for v
    by (rule canonical_nul_free [OF memberD(4) [OF m that]])
  have texts: "nul_free (fmt_llu i)" for i by (simp add: fmt_llu_def)
  show "completes w (dopwd os w)" "completes w (domkd os w)" "completes w (dormd os w)" "completes w (dodele os w)"
    "completes w (dosize os w)" "completes w (docwd os w)"
    using facts ok by (auto simp: dopwd_def domkd_def dormd_def dodele_def dosize_def docwd_def cwd texts
      intro!: completes_rules memberD(4,5) [OF m])
qed

lemma completes_docdup:
  assumes os: "sound os" and m: "member w" shows "completes w (docdup os w)"
proof -
  have k: "keeps w (upd_command (\<lambda>c. c\<lparr>c_arg := ''..''\<rparr>) w)"
    by (rule keeps_upd_arg) (simp_all add: nul_free_def)
  from completes_files(6) [OF os memberD(2) [OF m k]] show ?thesis
    using keeps_trans [OF k] by (auto simp: completes_def docdup_def)
qed

text \<open>MDTM, while every file of the system has a time stamp that \<open>convert_time\<close> can handle.\<close>

definition datable :: "'o os \<Rightarrow> bool" where
  "datable os \<longleftrightarrow> (\<forall>p s st s'. sys_stat os p s = (Inr st, s') \<longrightarrow> 0 \<le> st_mtime st \<and> st_mtime st < 86400 * 10980)"

lemma vfs_stat_datable:
  "datable os \<Longrightarrow> vfs_stat os c p w = Some (Inr st, v) \<Longrightarrow> 0 \<le> st_mtime st \<and> st_mtime st < 86400 * 10980"
  by (fastforce simp: datable_def vfs_stat_def os_call_def split: sum.splits prod.splits if_splits elim!: bind_SomeE)

lemma completes_domdtm:
  assumes os: "sound os" and m: "member w" and d: "datable os" shows "completes w (domdtm os w)"
proof -
  obtain st v where st: "vfs_stat os (w_cwd w) (w_arg w) w = Some (st, v)" "keeps w v"
    using completes_vfs(1) [OF m keeps_refl memberD(4,5) [OF m keeps_refl], of os] by (auto simp: completes_def)
  note rules = os st(2) memberD(1) [OF m keeps_refl]
  show ?thesis
  proof (cases st)
    case (Inl e)
    with st(1) rules show ?thesis by (auto simp: domdtm_def intro!: completes_rules simp: nul_free_def)
  next
    case (Inr s)
    have "0 \<le> st_mtime s \<and> st_mtime s < 86400 * 10980" using vfs_stat_datable [OF d] st(1) Inr by blast
    then obtain t where t: "convert_time (st_mtime s) = Some t" "tm_wf t" using convert_time_Some by blast
    have "nul_free (''213 '' @ mdtm_date t)" unfolding mdtm_date_whole(1) [OF t(2)] by (simp add: nul_free_fmt_0d)
    with Inr st(1) t(1) rules show ?thesis by (auto simp: domdtm_def intro!: completes_rules)
  qed
qed

text \<open>REST, with an argument as \<open>parse_cmd\<close> leaves it: not empty, no white space in front.\<close>

lemma completes_dorest:
  assumes os: "sound os" and ok: "session_ok w" and a: "w_arg w \<noteq> []" "\<not> isspace (hd (w_arg w))"
  shows "completes w (dorest os w)"
proof -
  have "\<not> (\<forall>c \<in> set (w_arg w). isspace c)" using a list.set_sel(1) by blast
  then obtain p b where t: "trim_whitespace (w_arg w @ [NUL]) 0 = Some (p, b)"
    using trim_whitespace_strip [OF session_okD(5) [OF ok], of "w_arg w @ [NUL]" "[]" "[]"] by auto
  have "nul_free (fmt_llu i)" for i by (simp add: fmt_llu_def)
  then show ?thesis using os ok
    by (auto simp: dorest_def Let_def t case_prod_beta intro!: completes_rules keeps_rules)
qed

lemma completes_dopasv:
  assumes os: "sound os" and ok: "session_ok w" shows "completes w (dopasv os w)"
proof (rule completesI [OF dopasv_within])
  have n: "\<exists>r z. say os msg x = Some (r, z)" for msg x using soundD(1) [OF os] by (simp add: say_def)
  define u where "u = (if pasv_sock (w_conn w) \<noteq> -1
    then upd_conn (\<lambda>c. c\<lparr>pasv_sock := -1\<rparr>) (c_close os (pasv_sock (w_conn w)) w) else w)"
  have u: "keeps w u" by (auto simp: u_def intro!: keeps_rules)
  obtain r v where c: "os_newfd (sys_socket os) u = (r, v)" by force
  have v: "keeps w v" by (rule keeps_then_quiet [OF u os_newfd_quiet [OF c]])
  show "dopasv os w \<noteq> None"
  proof (cases r)
    case (Inl e)
    obtain r z where "say os ''425 Can't open data connection'' v = Some (r, z)" using n by blast
    with Inl show ?thesis using c by (simp add: dopasv_def Let_def flip: u_def)
  next
    case (Inr fd)
    obtain p x where l: "pasv_listen os fd (upd_conn (\<lambda>c. c\<lparr>pasv_sock := fd\<rparr>) v) = (p, x)" by force
    have x: "keeps w x" by (rule keeps_then_quiet [OF _ pasv_listen_quiet [OF l]]) (intro keeps_rules v)
    have "nul_free (pasv_reply ip port)" for ip port
      by (simp add: pasv_reply_def nul_free_concat_dec)
    from completes_sayf(2) [OF os x ok this] have f: "\<exists>y z. sayf os (pasv_reply ip port) x = Some (y, z)" for ip port
      by (cases port) (force simp: completes_def)
    show ?thesis
    proof (cases p)
      case None
      obtain r z where "say os ''425 Can't open data connection'' (upd_conn (\<lambda>c. c\<lparr>pasv_sock := -1\<rparr>) (c_close os fd x)) = Some (r, z)"
        using n by blast
      with None c l Inr show ?thesis by (simp add: dopasv_def Let_def flip: u_def)
    next
      case (Some port)
      obtain y z where "sayf os (pasv_reply (host_addr (w_conn u)) port) x = Some (y, z)" using f by blast
      with c l Inr Some show ?thesis by (simp add: dopasv_def Let_def flip: u_def)
    qed
  qed
qed

lemma completes_douser:
  assumes os: "sound os" and mem: "mem_ok os" and ok: "session_ok w" shows "completes w (douser os w)"
proof (rule completesI [OF douser.handler_keeps [OF mem ok]])
  have "nul_free (''331 Pass required for user '' @ w_arg w @ CRLF)" using session_okD(5) [OF ok] by simp
  note fmt = soundD(4) [OF os _ this]
  define v where "v = upd_login (\<lambda>l. l\<lparr>user := Ptr (w_arg w)\<rparr>) (upd_login (\<lambda>l. l\<lparr>user := Null\<rparr>) w)"
  have "reply_pool_ok v" using session_okD(6) [OF ok] by (simp add: v_def upd_login_def upd_session_def reply_pool_ok_def)
  from fmt [OF this, of "w_conn v"] obtain y z where
    "reply_format os (w_conn v) (''331 Pass required for user '' @ w_arg w @ CRLF) v = Some (y, z)" by blast
  then show "douser os w \<noteq> None"
    by (simp add: douser_def Let_def mem_okD [OF mem] reply_then [OF os] del: strcasecmp.simps flip: v_def)
qed

lemma login_user_returns: "mem_ok os \<Longrightarrow> \<exists>uid u. login_user os name pw w = Some (uid, u)"
  by (auto simp: login_user_def init_state_pool_ok init_vfs_pool_def Let_def split: prod.splits option.splits)

text \<open>What PASS relies on: the user name is known to be there or not, and an anonymous session has a root
  directory.\<close>

definition login_ready :: "'o world \<Rightarrow> bool" where
  "login_ready w \<longleftrightarrow> logged_in (w_login w)
     \<or> (if anonymous (w_login w) then cfg_anon_root_dir (w_config w) \<noteq> None
        else (case user (w_login w) of Indeterminate \<Rightarrow> False | Null \<Rightarrow> True | Ptr name \<Rightarrow> nul_free name))"

lemma completes_dopass:
  assumes os: "sound os" and mem: "mem_ok os" and ok: "session_ok w" and r: "login_ready w"
  shows "completes w (dopass os w)"
proof (rule completesI [OF dopass.handler_keeps [OF mem ok]])
  note n = reply_then [OF os]
  consider "logged_in (w_login w) \<or> \<not> anonymous (w_login w) \<and> user (w_login w) = Null"
    | d where "\<not> logged_in (w_login w)" "anonymous (w_login w)" "cfg_anon_root_dir (w_config w) = Some d"
    | name where "\<not> logged_in (w_login w)" "\<not> anonymous (w_login w)" "user (w_login w) = Ptr name" "nul_free name"
    using r by (auto simp: login_ready_def split: if_splits cptr.splits)
  then show "dopass os w \<noteq> None"
  proof cases
    case 1
    then show ?thesis by (auto simp: dopass_def n)
  next
    case 2
    obtain y z where z: "reply os (w_conn w) (''230 Hello!'' @ CRLF) w = Some (y, z)" using soundD(1) [OF os] by blast
    have "w_config z = w_config w" using quietD(2) [OF reply_quiet [OF z]] .
    with 2 z show ?thesis by (simp add: dopass_def init_vfs_pool_def Let_def init_state_pool_ok [OF mem] mem_okD [OF mem])
  next
    case 3
    obtain uid u where l: "login_user os name (w_arg w) w = Some (uid, u)" using login_user_returns [OF mem] by blast
    note o = login_user_opened [OF mem l]
    have send: "send_state os T_LOGIN v \<noteq> None" if "uid \<noteq> NO_UID" "os_call f u = (x, v)" for f v and x :: "errno + unit"
    proof -
      note q = os_call_quiet [OF that(2)]
      have "state_inv w" using ok by (simp add: session_ok_def)
      then have "state_pool_ok u" using o that(1) by (auto simp: opened_def state_inv_def)
      then have "state_pool_ok v" using q by (simp add: quiet_def state_pool_ok_def)
      moreover have "sendable T_LOGIN (w_session v)" using o quietD(1) [OF q] 3
        by (simp add: opened_def sendable_def login_text_def)
      ultimately show ?thesis using send_state_total [OF os] by force
    qed
    show ?thesis
    proof (cases "uid = NO_UID")
      case True
      with 3 l show ?thesis by (simp add: dopass_def n)
    next
      case False
      obtain x v where c: "os_call (sys_setuid os uid) u = (x, v)" by force
      from send [OF False this] obtain y z where "send_state os T_LOGIN v = Some (y, z)" by auto
      with 3 l c False show ?thesis by (cases x) (simp_all add: dopass_def n Let_def)
    qed
  qed
qed

subsection \<open>Dispatch\<close>

definition is_command :: "'o world \<Rightarrow> string \<Rightarrow> bool" where
  "is_command w name \<longleftrightarrow> strcasecmp (cstr (c_line (w_command w))) name = 0"

lemma completes_handler:
  assumes os: "sound os" and ok: "session_ok w" and c: "c \<in> set core_command_list"
    and login: "needs_login c \<Longrightarrow> member w" and data: "\<not> needs_data c"
    and arg: "needs_arg c \<Longrightarrow> w_arg w \<noteq> []" "w_arg w = [] \<or> \<not> isspace (hd (w_arg w))"
    and ready: "cmd_name c = ''PASS'' \<Longrightarrow> login_ready w" and dates: "cmd_name c = ''MDTM'' \<Longrightarrow> datable os"
    and mem: "cmd_name c = ''USER'' \<or> cmd_name c = ''PASS'' \<Longrightarrow> mem_ok os"
  shows "completes w (cmd_fun c os w)"
  using c login data arg ready dates mem unfolding core_command_list_def
  by (auto intro: completes_replies [OF os] completes_files [OF os] completes_docdup [OF os] completes_domdtm [OF os]
      completes_dorest [OF os ok] completes_dopasv [OF os ok] completes_douser [OF os _ ok] completes_dopass [OF os _ ok])

lemma completes_pre_command:
  assumes "sound os" shows "completes w (pre_command os c w)"
  using assms by (auto simp: pre_command_def intro!: completes_rules)

text \<open>C15. No command has undefined behaviour: from every well-formed session, logged in or not, whatever word and
  argument the line holds, and although every system call may fail and every \<open>send\<close> and \<open>writev\<close> may take
  only a part, the command ends and leaves a well-formed session. What is assumed: \<open>send\<close> and \<open>writev\<close>
  are not interrupted for ever and error messages are strings (\<open>sound\<close>); the argument is one that
  \<open>parse_cmd\<close> makes (no white space in front); RETR, STOR and LIST find no open data connection; USER and
  PASS find memory (\<open>mem_ok\<close>), and PASS a user name that has been written (\<open>login_ready\<close>); MDTM finds a
  file system all of whose dates are between 1 January 1970 and 23 January 2000 (\<open>datable\<close>).\<close>

theorem do_cmd_returns:
  assumes os: "sound os" and ok: "session_ok w" and arg: "w_arg w = [] \<or> \<not> isspace (hd (w_arg w))"
    and data: "pasv_sock (w_conn w) = -1 \<or> \<not> (is_command w ''RETR'' \<or> is_command w ''STOR'' \<or> is_command w ''LIST'')"
    and mem: "is_command w ''USER'' \<or> is_command w ''PASS'' \<Longrightarrow> mem_ok os"
    and pass: "is_command w ''PASS'' \<Longrightarrow> login_ready w" and mdtm: "is_command w ''MDTM'' \<Longrightarrow> datable os"
  shows "\<exists>r w'. do_cmd (core_pool n) os w = Some (r, w') \<and> session_ok w'"
proof (cases "find_command (core_pool n) (cstr (c_line (w_command w))) :: 'a cmd_handler option")
  case None
  obtain y z where "say os ''500 ?'' w = Some (y, z)" "keeps w z"
    using completes_say(2) [OF os keeps_refl, of w "''500 ?''"] unfolding completes_def by blast
  with None show ?thesis using keepsD(1) [OF _ ok] by (simp add: do_cmd_def)
next
  case (Some c)
  then have c: "c \<in> set core_command_list" "casekey (cstr (c_line (w_command w))) = casekey (cmd_name c)"
    by (simp_all add: core.search_iff)
  have word: "is_command w (cmd_name c)" using c(2) by (simp add: is_command_def strcasecmp_zero_iff)
  have n: "needs_data c \<longrightarrow> cmd_name c \<in> set [''RETR'', ''STOR'', ''LIST'']"
    using c(1) by (auto simp: core_command_list_def)
  have passed: "v = w \<and> (needs_login c \<longrightarrow> member w) \<and> (needs_data c \<longrightarrow> pasv_sock (w_conn w) \<noteq> -1)
      \<and> (needs_arg c \<longrightarrow> w_arg w \<noteq> [])" if "pre_command os c w = Some (FTP_SUCCESS, v)" for v
    using that ok by (auto simp: pre_command_def member_def split: if_splits elim!: bind_SomeE)
  have total: "completes w (cmd_fun c os w)" if "pre_command os c w = Some (FTP_SUCCESS, v)" for v
  proof (rule completes_handler [OF os ok c(1) _ _ _ arg])
    show "cmd_name c = ''PASS'' \<Longrightarrow> login_ready w" "cmd_name c = ''MDTM'' \<Longrightarrow> datable os"
      "cmd_name c = ''USER'' \<or> cmd_name c = ''PASS'' \<Longrightarrow> mem_ok os" using word pass mdtm mem by auto
    show "\<not> needs_data c" using passed [OF that] data word n by auto
  qed (use passed [OF that] in auto)
  obtain r v where p: "pre_command os c w = Some (r, v)" "keeps w v"
    using completes_pre_command [OF os, of w c] by (auto simp: completes_def)
  show ?thesis
  proof (cases "r = FTP_SUCCESS")
    case True
    with total p(1) obtain x z where "cmd_fun c os w = Some (x, z)" "keeps w z" by (auto simp: completes_def)
    with p(1) True passed Some show ?thesis using keepsD(1) [OF _ ok] by (auto simp: do_cmd_def)
  next
    case False
    with p Some show ?thesis using keepsD(1) [OF p(2) ok] by (simp add: do_cmd_def)
  qed
qed

text \<open>A system without memory and with a broken pipe, whose \<open>send\<close> takes one byte at a time and is interrupted
  as often as its state says.\<close>

definition balky_os :: "nat os" where
  "balky_os = idle_os\<lparr>
     os_net := idle_net\<lparr>net_send := \<lambda>fd d s. case s of 0 \<Rightarrow> (Inr 1, 3) | Suc n \<Rightarrow> (Inl EINTR, n)\<rparr>,
     os_io := idle_io\<lparr>io_writev := \<lambda>fd iov s. (Inl EPIPE, s)\<rparr>,
     os_proc := idle_proc\<lparr>proc_malloc := \<lambda>n s. (False, s)\<rparr>\<rparr>"

lemma balky_os_sound: "sound balky_os"
proof -
  have "patient balky_os (\<lambda>s. s)"
    by (auto simp: patient_def balky_os_def Suc_le_eq split: nat.splits)
  moreover have "nul_free (sys_strerror balky_os e)" for e by (simp add: balky_os_def idle_proc_def nul_free_def)
  ultimately show ?thesis by (auto simp: sound_def)
qed

definition dele_world :: "nat world" where
  "dele_world = upd_command (\<lambda>c. c\<lparr>c_line := ''dele'' @ replicate (COMMAND_BUFFER_SIZE - 4) NUL\<rparr>) (arg_world 2 ''notes'')"

theorem do_cmd_returns_witness:
  "\<exists>r w'. do_cmd (core_pool 32) balky_os dele_world = Some (r, w') \<and> session_ok w'"
proof (rule do_cmd_returns [OF balky_os_sound])
  have line: "cstr (c_line (w_command dele_world)) = ''dele''"
    by (simp add: dele_world_def upd_command_def upd_session_def cstr_def COMMAND_BUFFER_SIZE_def numeral_eq_Suc)
  have no: "\<not> is_command dele_world n" if "casekey n \<noteq> [100, 101, 108, 101]" for n
    using that unfolding is_command_def strcasecmp_zero_iff line by (simp add: casekey_def tolower_def byte_of_def)
  have ok: "session_ok (arg_world (2 :: nat) ''notes'')" by (rule arg_world_ok) (simp add: nul_free_def)
  then show "session_ok dele_world"
    by (simp add: session_ok_def paths_ok_def command_ok_def dele_world_def upd_command_def upd_session_def vfs_inv_def
        state_inv_def vfs_ok_def state_pool_ok_def reply_pool_ok_def COMMAND_BUFFER_SIZE_def)
  show "w_arg dele_world = [] \<or> \<not> isspace (hd (w_arg dele_world))"
    by (simp add: dele_world_def upd_command_def upd_session_def isspace_def)
  show "pasv_sock (w_conn dele_world) = -1
      \<or> \<not> (is_command dele_world ''RETR'' \<or> is_command dele_world ''STOR'' \<or> is_command dele_world ''LIST'')"
    using no by (simp add: casekey_def tolower_def byte_of_def)
  show "is_command dele_world ''PASS'' \<Longrightarrow> login_ready dele_world" "is_command dele_world ''MDTM'' \<Longrightarrow> datable balky_os"
    "is_command dele_world ''USER'' \<or> is_command dele_world ''PASS'' \<Longrightarrow> mem_ok balky_os"
    using no [of "''PASS''"] no [of "''MDTM''"] no [of "''USER''"] by (simp_all add: casekey_def tolower_def byte_of_def)
qed

end
