(* ===== verification/Ftp_Admit.thy ===== *)
theory Ftp_Admit
  imports Ftp_Auth
begin

text \<open>
  A login by password from end to end: the user database, the shadow file, \<open>crypt\<close>, the root directory,
  the user id, the replies, and the report that reaches the master's record of the client.
\<close>

text \<open>The databases of the system know the user, and the password encrypts to the stored hash.\<close>

definition knows_user :: "'o os \<Rightarrow> string \<Rightarrow> string \<Rightarrow> nat \<Rightarrow> string \<Rightarrow> bool" where
  "knows_user os name password uid home \<longleftrightarrow> uid \<noteq> NO_UID
     \<and> (\<forall>s. \<exists>s'. sys_getpwnam os name s = (Some (uid, home), s'))
     \<and> (\<forall>s. \<exists>s'. sys_setuid os uid s = (Inr (), s'))
     \<and> (\<exists>hash. (\<forall>s. \<exists>s'. sys_getspnam os name s = (Some hash, s'))
          \<and> (\<forall>s. \<exists>s'. sys_crypt os password hash s = (Some hash, s')))"

lemma login_user_known:
  assumes mem: "mem_ok os" and k: "knows_user os name password uid home"
  shows "\<exists>s vp. login_user os name password w = Some (uid, w\<lparr>w_os := s, w_state_pool := Some (replicate FTP_MAX_PATH NUL),
      w_vfs := Some (cstr home, vp)\<rparr>) \<and> length vp = FTP_MAX_PATH"
proof -
  obtain hash where h: "\<And>s. \<exists>s'. sys_getspnam os name s = (Some hash, s')" "\<And>s. \<exists>s'. sys_crypt os password hash s = (Some hash, s')"
    using k unfolding knows_user_def by blast
  obtain s1 where 1: "sys_getpwnam os name (w_os w) = (Some (uid, home), s1)" using k unfolding knows_user_def by blast
  obtain s2 where 2: "sys_getspnam os name s1 = (Some hash, s2)" using h by blast
  obtain s3 where 3: "sys_crypt os password hash s2 = (Some hash, s3)" using h by blast
  show ?thesis using 1 2 3
    by (intro exI [of _ s3] exI [of _ "(replicate FTP_MAX_PATH NUL)[0 := SLASH]"]) (simp add: login_user_def os_query_def init_state_pool_ok [OF mem] init_vfs_pool_def Let_def mem_okD [OF mem])
qed

text \<open>C13. A user whom the databases know and who gives the right password gets in: PASS makes the home
  directory the root of the session, asks for the user id, answers 230, and reports the login; when the
  master reads the report, the record of this client shows the name of the user (cut to 63 bytes), and
  nothing of the bytes behind it is consumed.\<close>

theorem dopass_admits:
  fixes os :: "'o os" and b :: "'b os"
  assumes os: "sends_ok os" "mem_ok os" "writes_ok os" and k: "knows_user os name (w_arg w) uid home"
    and w: "\<not> logged_in (w_login w)" "\<not> anonymous (w_login w)" "user (w_login w) = Ptr name" "nul_free name"
      "sock (w_conn w) \<noteq> master_pipe (w_conn w)"
    and master: "pipe_at b contents" "\<forall>c \<in> set cs. child_ok c" "\<And>s. sys_getpid os s = pid" "int32_range pid"
      "find_client cs pid = Some i"
  shows "\<exists>w' msg. dopass os w = Some (FTP_SUCCESS, w') \<and> w_login w' = (w_login w)\<lparr>logged_in := True\<rparr>
    \<and> vfs_root w' = cstr home \<and> vfs_ok w'
    \<and> w_out w' = (w_out w)(sock (w_conn w) := w_out w (sock (w_conn w)) @ ''230 Login successful, have fun'' @ CRLF,
        master_pipe (w_conn w) := w_out w (master_pipe (w_conn w)) @ msg)
    \<and> (\<forall>v rest fd. contents (w_os v) = msg @ rest \<longrightarrow>
        (\<exists>c s. recv_state b fd cs v = Some ((FTP_SUCCESS, cs[i := c]), v\<lparr>w_os := s\<rparr>) \<and> contents s = rest
           \<and> cstr (ch_login_name c) = take 63 name))"
proof -
  obtain s vp where l: "login_user os name (w_arg w) w = Some (uid, w\<lparr>w_os := s, w_state_pool := Some (replicate FTP_MAX_PATH NUL),
      w_vfs := Some (cstr home, vp)\<rparr>)" "length vp = FTP_MAX_PATH" using login_user_known [OF os(2) k] by blast
  obtain s' where s': "sys_setuid os uid s = (Inr (), s')" using k unfolding knows_user_def by blast
  define u where "u = w\<lparr>w_state_pool := Some (replicate FTP_MAX_PATH NUL), w_vfs := Some (cstr home, vp), w_os := s'\<rparr>"
  have u: "state_pool_ok u" "w_session u = w_session w" "sys_getpid os (w_os u) = pid" "w_out u = w_out w"
    by (simp_all add: u_def state_pool_ok_def master(3))
  have snd: "sendable T_LOGIN (w_session u)" using w by (simp add: sendable_def login_text_def u)
  obtain p msg where m: "send_state os T_LOGIN u = Some (FTP_SUCCESS, emit (master_pipe (w_conn u)) msg (u\<lparr>w_state_pool := Some p\<rparr>))"
    "\<And>v rest fd. contents (w_os v) = msg @ rest \<Longrightarrow> \<exists>c s. recv_state b fd cs v = Some ((FTP_SUCCESS, cs[i := c]), v\<lparr>w_os := s\<rparr>)
       \<and> contents s = rest \<and> shows_session T_LOGIN (w_session u) c"
    using send_state_received [OF os(3) u(1) snd _ master(1,2)] master(4,5) u(3) by blast
  have login_name: "cstr (ch_login_name c) = take 63 name" if "shows_session T_LOGIN (w_session u) c" for c
    using that w by (auto simp: shows_session_def login_text_def u)
  define x where "x = emit (sock (w_conn w)) (''230 Login successful, have fun'' @ CRLF)
      (upd_login (\<lambda>l. l\<lparr>logged_in := True\<rparr>) (emit (master_pipe (w_conn u)) msg (u\<lparr>w_state_pool := Some p\<rparr>)))"
  have "dopass os w = Some (FTP_SUCCESS, x)"
    using w l k m(1) s' u(2) unfolding x_def
    by (simp add: dopass_def knows_user_def os_call_def reply_ok [OF os(1)] upd_login_def upd_session_def flip: u_def)
  moreover have "w_login x = (w_login w)\<lparr>logged_in := True\<rparr>" "vfs_root x = cstr home" "vfs_ok x"
    using l(2) u(2) by (simp_all add: x_def upd_login_def upd_session_def vfs_root_def vfs_ok_def u_def)
  moreover have "w_out x = (w_out w)(sock (w_conn w) := w_out w (sock (w_conn w)) @ ''230 Login successful, have fun'' @ CRLF,
        master_pipe (w_conn w) := w_out w (master_pipe (w_conn w)) @ msg)"
    using w(5) u(2,4) by (auto simp: x_def emit_def upd_login_def upd_session_def)
  ultimately show ?thesis using m(2) login_name by (intro exI [of _ x] exI [of _ msg]) blast
qed

theorem dopass_admits_witness:
  "\<exists>w' msg c s. dopass shadow_os (alice_world ''secret'') = Some (FTP_SUCCESS, w') \<and> logged_in (w_login w')
    \<and> vfs_root w' = ''/home/alice'' \<and> w_out w' 4 = ''230 Login successful, have fun'' @ CRLF \<and> w_out w' 5 = msg
    \<and> recv_state pipe_os 6 [some_child 1] (idle_world_at (msg @ ''rest'')) = Some ((FTP_SUCCESS, [c]), (idle_world_at (msg @ ''rest''))\<lparr>w_os := s\<rparr>)
    \<and> s = ''rest'' \<and> cstr (ch_login_name c) = ''alice''"
proof -
  have os: "sends_ok shadow_os" "mem_ok shadow_os" "writes_ok shadow_os"
    by (simp_all add: sends_ok_def mem_ok_def shadow_os_def writes_ok_def idle_os_def idle_io_def idle_net_def idle_proc_def)
  have k: "knows_user shadow_os ''alice'' ''secret'' 1000 ''/home/alice''"
    by (simp add: knows_user_def shadow_os_def NO_UID_def idle_proc_def)
  have w: "w_login (alice_world ''secret'') = \<lparr>logged_in = False, anonymous = False, user = Ptr ''alice''\<rparr>"
    "w_arg (alice_world ''secret'') = ''secret''" "w_conn (alice_world ''secret'') = conn idle_session"
    "w_out (alice_world ''secret'') fd = []" for fd
    by (simp_all add: alice_world_def upd_command_def upd_login_def upd_session_def idle_world_at_def idle_session_def)
  have f: "find_client [some_child 1] 1 = Some 0" by (simp add: find_client_def)
  have h: "cstr ''/home/alice'' = ''/home/alice''" by (simp add: cstr_def)
  let ?w = "alice_world ''secret''"
  have k': "knows_user shadow_os ''alice'' (w_arg ?w) 1000 ''/home/alice''" using k w(2) by simp
  have l: "\<not> logged_in (w_login ?w)" "\<not> anonymous (w_login ?w)" "user (w_login ?w) = Ptr ''alice''" "nul_free ''alice''"
    "sock (w_conn ?w) \<noteq> master_pipe (w_conn ?w)" using w by (simp_all add: nul_free_def)
  have m: "\<forall>c \<in> set [some_child 1]. child_ok c" "int32_range 1" by (simp_all add: int32_range_def)
  have pid: "sys_getpid shadow_os s = 1" for s by (simp add: shadow_os_def idle_proc_def)
  obtain w' msg where a: "dopass shadow_os ?w = Some (FTP_SUCCESS, w')" "w_login w' = (w_login ?w)\<lparr>logged_in := True\<rparr>"
    "vfs_root w' = cstr ''/home/alice''" "w_out w' = (w_out ?w)(sock (w_conn ?w) := w_out ?w (sock (w_conn ?w)) @
       ''230 Login successful, have fun'' @ CRLF, master_pipe (w_conn ?w) := w_out ?w (master_pipe (w_conn ?w)) @ msg)"
    "\<And>v rest fd. w_os v = msg @ rest \<Longrightarrow> \<exists>c s. recv_state pipe_os fd [some_child 1] v
       = Some ((FTP_SUCCESS, [some_child 1][0 := c]), v\<lparr>w_os := s\<rparr>) \<and> s = rest \<and> cstr (ch_login_name c) = take 63 ''alice''"
    using dopass_admits [OF os k' l pipe_os_pipe m(1) pid m(2) f] by blast
  have out: "w_out w' 4 = ''230 Login successful, have fun'' @ CRLF" "w_out w' 5 = msg" unfolding a(4) by (simp_all add: w)
  obtain c s where "recv_state pipe_os 6 [some_child 1] (idle_world_at (msg @ ''rest''))
       = Some ((FTP_SUCCESS, [some_child 1][0 := c]), (idle_world_at (msg @ ''rest''))\<lparr>w_os := s\<rparr>)" "s = ''rest''"
    "cstr (ch_login_name c) = take 63 ''alice''" using a(5) [of "idle_world_at (msg @ ''rest'')" "''rest''" 6] by auto
  with a(1-3) out h show ?thesis by (intro exI [of _ w'] exI [of _ msg] exI [of _ c] exI [of _ s]) simp
qed

end
