(* ===== verification/Ftp_Results.thy ===== *)
theory Ftp_Results
  imports Ftp_Command
begin

text \<open>
  The result codes of the commands: which of them \<open>serve\<close> can see, and for which commands. A code other
  than \<open>FTP_SUCCESS\<close> ends the session, so this says which commands can end it.
\<close>

subsection \<open>Results of a computation\<close>

definition returns :: "'r set \<Rightarrow> ('r \<times> 's) option \<Rightarrow> bool" where
  "returns C m \<longleftrightarrow> (\<forall>r t. m = Some (r, t) \<longrightarrow> r \<in> C)"

named_theorems returns_rules

lemma returns_return [returns_rules]: "r \<in> C \<Longrightarrow> returns C (Some (r, t))"
  by (simp add: returns_def)

lemma returns_none [returns_rules]: "returns C None"
  by (simp add: returns_def)

lemma returns_bind [returns_rules]: "(\<And>x. returns C (f x)) \<Longrightarrow> returns C (m \<bind> f)"
  by (auto simp: returns_def elim!: bind_SomeE)

lemma returns_if [returns_rules]: "(b \<Longrightarrow> returns C m) \<Longrightarrow> (\<not> b \<Longrightarrow> returns C k) \<Longrightarrow> returns C (if b then m else k)"
  by simp

lemma returns_prod [returns_rules]: "(\<And>x t. returns C (f x t)) \<Longrightarrow> returns C (case p of (x, t) \<Rightarrow> f x t)"
  by (simp split: prod.splits)

lemma returns_sum [returns_rules]:
  "(\<And>x. returns C (f x)) \<Longrightarrow> (\<And>y. returns C (g y)) \<Longrightarrow> returns C (case a of Inl x \<Rightarrow> f x | Inr y \<Rightarrow> g y)"
  by (simp split: sum.splits)

lemma returns_option [returns_rules]:
  "returns C f \<Longrightarrow> (\<And>y. returns C (g y)) \<Longrightarrow> returns C (case a of None \<Rightarrow> f | Some y \<Rightarrow> g y)"
  by (simp split: option.splits)

lemma returns_cptr [returns_rules]:
  "returns C f \<Longrightarrow> returns C g \<Longrightarrow> (\<And>s. returns C (h s)) \<Longrightarrow>
     returns C (case p of Indeterminate \<Rightarrow> f | Null \<Rightarrow> g | Ptr s \<Rightarrow> h s)"
  by (simp split: cptr.splits)

lemma returns_let [returns_rules]: "(\<And>x. returns C (f x)) \<Longrightarrow> returns C (let x = a in f x)"
  by (simp add: Let_def)

subsection \<open>The handlers\<close>

text \<open>The codes of a command, by its name in the table.\<close>

definition command_results :: "string \<Rightarrow> int set" where
  "command_results name =
     (if name = ''QUIT'' then {FTP_QUIT}
      else if name \<in> {''RETR'', ''STOR'', ''LIST''} then {FTP_SUCCESS, FTP_QUIT}
      else if name \<in> {''USER'', ''PASV''} then {FTP_SUCCESS, FTP_ERROR}
      else if name = ''PASS'' then {FTP_SUCCESS, FTP_QUIT, FTP_ERROR}
      else {FTP_SUCCESS})"

lemma plain_results:
  "returns {FTP_SUCCESS} (doabor os w)" "returns {FTP_SUCCESS} (doacct os w)" "returns {FTP_SUCCESS} (doallo os w)"
  "returns {FTP_SUCCESS} (doclnt os w)" "returns {FTP_SUCCESS} (docwd os w)" "returns {FTP_SUCCESS} (dofeat os w)"
  "returns {FTP_SUCCESS} (domdtm os w)" "returns {FTP_SUCCESS} (domkd os w)" "returns {FTP_SUCCESS} (donoop os w)"
  "returns {FTP_SUCCESS} (doopts os w)" "returns {FTP_SUCCESS} (vfs_failed os w)" "returns {FTP_SUCCESS} (dopwd os w)"
  "returns {FTP_SUCCESS} (dorest os w)" "returns {FTP_SUCCESS} (dodele os w)" "returns {FTP_SUCCESS} (dormd os w)"
  "returns {FTP_SUCCESS} (dosize os w)" "returns {FTP_SUCCESS} (dosyst os w)" "returns {FTP_SUCCESS} (dotype os w)"
  by (auto simp: doabor_def doacct_def doallo_def doclnt_def docwd_def dofeat_def domdtm_def domkd_def donoop_def
      doopts_def vfs_failed_def failed_vfs_reply_def dopwd_def dorest_def dodele_def dormd_def dosize_def dosyst_def dotype_def Let_def
      intro!: returns_rules)

lemma other_results:
  "returns {FTP_SUCCESS} (docdup os w)" "returns {FTP_QUIT} (doquit os w)"
  "returns {FTP_SUCCESS, FTP_QUIT} (doretr os w)" "returns {FTP_SUCCESS, FTP_QUIT} (dostor os w)"
  "returns {FTP_SUCCESS, FTP_QUIT} (dolist os w)" "returns {FTP_SUCCESS, FTP_ERROR} (douser os w)"
  "returns {FTP_SUCCESS, FTP_ERROR} (dopasv os w)"
  "returns {FTP_SUCCESS, FTP_QUIT, FTP_ERROR} (dopass os w)"
  by (auto simp: docdup_def doquit_def doretr_def retr_transfer_def dostor_def stor_transfer_def dolist_def douser_def
      dopasv_def dopass_def Let_def intro!: returns_rules plain_results)

text \<open>When the system has no socket left, PASV answers 425, a code for a transient failure, and ends the
  session; when no port is free it gives the same answer and goes on.\<close>

lemma dopasv_no_socket:
  assumes "sends_ok os" and "\<And>s. fst (sys_socket os s) = Inl e"
  shows "\<exists>w'. dopasv os w = Some (FTP_ERROR, w')
    \<and> w_out w' (sock (w_conn w)) = w_out w (sock (w_conn w)) @ ''425 Can't open data connection'' @ CRLF"
proof -
  define u where "u = (if pasv_sock (w_conn w) \<noteq> -1
    then upd_conn (\<lambda>c. c\<lparr>pasv_sock := -1\<rparr>) (c_close os (pasv_sock (w_conn w)) w) else w)"
  have c: "w_session (c_close os k q) = w_session q" "w_out (c_close os k q) = w_out q" for k and q :: "'a world"
    by (auto simp: c_close_def os_call_def Let_def split: prod.splits sum.splits)
  have u: "sock (w_conn u) = sock (w_conn w)" "w_out u = w_out w" by (simp_all add: u_def c upd_conn_def upd_session_def)
  obtain s where "sys_socket os (w_os u) = (Inl e, s)" using assms(2) by (metis prod.collapse)
  then have f: "os_newfd (sys_socket os) u = (Inl e, u\<lparr>w_os := s, w_errno := e\<rparr>)"
    by (simp add: os_newfd_def os_call_def)
  define msg where "msg = ''425 Can't open data connection''"
  have "say os msg v = Some (int (length (msg @ CRLF)), emit (sock (w_conn v)) (msg @ CRLF) v)" for v
    by (simp add: say_def reply_ok [OF assms(1)])
  then have "dopasv os w = Some (FTP_ERROR, emit (sock (w_conn u)) (msg @ CRLF) (u\<lparr>w_os := s, w_errno := e\<rparr>))"
    unfolding dopasv_def Let_def u_def [symmetric] msg_def [symmetric] f by simp
  then show ?thesis using u unfolding msg_def by simp
qed

lemma core_results:
  assumes "c \<in> set core_command_list"
  shows "returns (command_results (cmd_name c)) (cmd_fun c os w)"
  using assms unfolding core_command_list_def
  by (auto simp: command_results_def plain_results other_results)

subsection \<open>Properties\<close>

text \<open>C16. The results of the commands are the codes the main loop knows, command by command: only QUIT,
  PASS, RETR, STOR and LIST can end the session on purpose, only USER, PASS and PASV can fail it, and every
  other line, known or not, lets it go on.\<close>

theorem do_cmd_results:
  assumes "do_cmd (core_pool n) os w = Some (r, w')"
  shows "r \<in> {FTP_SUCCESS, FTP_QUIT, FTP_ERROR}
    \<and> (r = FTP_QUIT \<longrightarrow> (\<exists>c \<in> {''QUIT'', ''PASS'', ''RETR'', ''STOR'', ''LIST''}. strcasecmp (cstr (c_line (w_command w))) c = 0))
    \<and> (r = FTP_ERROR \<longrightarrow> (\<exists>c \<in> {''USER'', ''PASS'', ''PASV''}. strcasecmp (cstr (c_line (w_command w))) c = 0))"
proof (cases "find_command (core_pool n) (cstr (c_line (w_command w))) :: 'a cmd_handler option")
  case None
  have "returns {FTP_SUCCESS} (do_cmd (core_pool n) os w)"
    using None unfolding do_cmd_def by (auto intro!: returns_rules)
  with assms(1) show ?thesis by (simp add: returns_def)
next
  case (Some c)
  then have c: "c \<in> set core_command_list" "strcasecmp (cstr (c_line (w_command w))) (cmd_name c) = 0"
    by (simp_all add: core.search_iff strcasecmp_zero_iff)
  have "returns (insert FTP_SUCCESS (command_results (cmd_name c))) (cmd_fun c os v)" for v
    using core_results [OF c(1)] by (auto simp: returns_def)
  then have "returns (insert FTP_SUCCESS (command_results (cmd_name c))) (do_cmd (core_pool n) os w)"
    using Some unfolding do_cmd_def by (auto simp: pre_command_then intro!: returns_rules)
  then have "r \<in> insert FTP_SUCCESS (command_results (cmd_name c))" using assms(1) by (simp add: returns_def)
  with c(2) show ?thesis by (auto simp: command_results_def split: if_splits)
qed

theorem do_cmd_results_witness:
  "\<exists>w'. do_cmd (core_pool 32) idle_os (line_world ''quit'') = Some (FTP_QUIT, w')
    \<and> (\<exists>c \<in> {''QUIT'', ''PASS'', ''RETR'', ''STOR'', ''LIST''}. strcasecmp ''quit'' c = 0)"
proof -
  have f: "find_command (core_pool 32) ''quit'' = Some \<lparr>cmd_name = ''QUIT'', cmd_fun = doquit,
      needs_login = False, needs_data = False, needs_arg = False\<rparr>"
    by (simp add: find_command_find core_command_list_def strcasecmp_zero_iff casekey_def tolower_def byte_of_def)
  have l: "cstr (c_line (w_command (line_world ''quit''))) = ''quit''"
    by (rule line_world_line) (simp add: nul_free_def)
  then have d: "do_cmd (core_pool 32) idle_os (line_world ''quit'')
      = Some (FTP_QUIT, emit 4 (''221 Goodbye!'' @ CRLF) (line_world ''quit''))"
    by (simp add: do_cmd_def f pre_command_def doquit_def say_def reply_ok)
  show ?thesis
    by (rule exI, rule conjI, rule d) (rule do_cmd_results [OF d, unfolded l, THEN conjunct2, THEN conjunct1, rule_format, OF refl])
qed

end
