(* ===== verification/Ftp_Reports.thy ===== *)
theory Ftp_Reports
  imports Ftp_Daemon
begin

text \<open>
  The reports of the sessions at the master, as a stream: several sessions write messages to one pipe,
  in any interleaving, and the master's loop drains it. Each client's record ends up as the fold of its
  own messages, in the order they were written.
\<close>

subsection \<open>Streams of messages\<close>

text \<open>The sender, the type of the message and the payload.\<close>

type_synonym report = "int \<times> int \<times> char list"

definition report_ok :: "report \<Rightarrow> bool" where
  "report_ok m \<longleftrightarrow> (case m of (pid, t, payload) \<Rightarrow> int32_range pid
     \<and> (\<exists>op :: unit state_op. find_state_op t = Some op \<and> length payload = op_size op))"

definition report_bytes :: "report \<Rightarrow> char list" where
  "report_bytes m = (case m of (pid, t, payload) \<Rightarrow>
     message \<lparr>st_pid = pid, st_magic = STATE_MAGIC, st_type = t\<rparr> payload)"

definition wire :: "report list \<Rightarrow> char list" where
  "wire ms = concat (map report_bytes ms)"

text \<open>What a message does to a client's record, and what a list of them does.\<close>

definition note_report :: "report \<Rightarrow> ftp_child \<Rightarrow> ftp_child" where
  "note_report m c = (case m of (pid, t, payload) \<Rightarrow> if pid = ch_pid c then received t payload c else c)"

definition client_view :: "report list \<Rightarrow> ftp_child \<Rightarrow> ftp_child" where
  "client_view ms c = fold note_report ms c"

lemma note_report_pid [simp]: "ch_pid (note_report m c) = ch_pid c"
  by (simp add: note_report_def split: prod.splits)

lemma find_state_op_any:
  "(find_state_op t :: unit state_op option) = Some op \<Longrightarrow>
     \<exists>op'. (find_state_op t :: 'o state_op option) = Some op' \<and> op_size op' = op_size op"
  by (auto simp: find_state_op_def state_ops_def split: if_splits)

lemma note_report_ok:
  assumes "report_ok m" and "child_ok c" shows "child_ok (note_report m c)"
  using assms by (auto simp: report_ok_def note_report_def received_def child_ok_def find_state_op_def state_ops_def
      MAX_LOGIN_NAME_def state_types split: prod.splits if_splits)

text \<open>With distinct pids, the entry \<open>recv_state\<close> updates is the sender's, and no other changes.\<close>

lemma update_sender:
  assumes d: "distinct (map ch_pid cs)"
  shows "(case find_client cs pid of None \<Rightarrow> cs | Some i \<Rightarrow> cs[i := received t payload (cs ! i)])
    = map (note_report (pid, t, payload)) cs"
proof (cases "find_client cs pid")
  case None
  then have "pid \<notin> ch_pid ` set cs" by (simp add: find_client_None)
  then have "map (note_report (pid, t, payload)) cs = cs" by (intro map_idI) (auto simp: note_report_def)
  with None show ?thesis by simp
next
  case (Some i)
  note i = find_client_Some [OF Some]
  have "pid = ch_pid (cs ! j) \<longleftrightarrow> j = i" if "j < length cs" for j
    using that i nth_eq_iff_index_eq [OF d, of j i] by auto
  with Some i show ?thesis by (auto intro!: nth_equalityI simp: nth_list_update note_report_def)
qed

lemma recv_state_report:
  assumes pipe: "pipe_at (os :: 'o os) contents" and m: "report_ok m" and cs: "list_all child_ok cs" "distinct (map ch_pid cs)"
    and ct: "contents (w_os w) = report_bytes m @ rest"
  shows "\<exists>s. recv_state os fd cs w = Some ((FTP_SUCCESS, map (note_report m) cs), w\<lparr>w_os := s\<rparr>) \<and> contents s = rest"
proof -
  obtain pid t payload where p: "m = (pid, t, payload)" by (cases m)
  obtain op :: "unit state_op" where "find_state_op t = Some op" "length payload = op_size op"
    using m by (auto simp: report_ok_def p)
  then obtain op :: "'o state_op" where op: "find_state_op t = Some op" "length payload = op_size op"
    using find_state_op_any by metis
  have "int32_range pid" using m by (simp add: report_ok_def p)
  from recv_state_message [OF pipe op(1) this op(2) _ ct [unfolded report_bytes_def p prod.case], of cs fd]
  show ?thesis using cs(1) unfolding update_sender [OF cs(2)] p by (simp add: list_all_iff)
qed

subsection \<open>Properties\<close>

text \<open>
  A host at rest but for the sessions' reports: while the pipe holds bytes \<open>poll\<close> reports it, and only
  it; when it is empty a \<open>SIGTERM\<close> arrives.
\<close>

definition only_reports :: "'o os \<Rightarrow> int \<Rightarrow> int \<Rightarrow> ('o \<Rightarrow> char list) \<Rightarrow> bool" where
  "only_reports os srv fd contents \<longleftrightarrow> pipe_at os contents
     \<and> (\<forall>s. fst (sys_signals os s) = (if contents s = [] then [SIGTERM] else [])
          \<and> contents (snd (sys_signals os s)) = contents s)
     \<and> (\<forall>s. contents s \<noteq> [] \<longrightarrow> (\<exists>n s'. sys_poll2 os srv fd s = (Inr (n, False, True), s') \<and> n \<noteq> 0
          \<and> contents s' = contents s))"

lemma report_bytes_nonempty [simp]: "report_bytes m \<noteq> []"
  by (simp add: report_bytes_def message_def split: prod.splits) (metis length_0_conv length_wire(6) zero_neq_numeral)

lemma signals_none:
  assumes "only_reports os srv fd contents" and "contents (w_os w) \<noteq> []" and "w_signal_flag w = 0"
  obtains s where "daemon_handle_signal os cs w = Some ((FTP_SUCCESS, cs), w\<lparr>w_os := s\<rparr>)"
    and "contents s = contents (w_os w)"
proof -
  obtain s where "sys_signals os (w_os w) = ([], s)" "contents s = contents (w_os w)"
    using assms(1,2) unfolding only_reports_def by (metis prod.collapse)
  with assms(3) show thesis
    by (intro that [of s]) (simp_all add: daemon_handle_signal_def deliver_def os_query_def Let_def)
qed

lemma signals_term:
  assumes "only_reports os srv fd contents" and "contents (w_os w) = []" and "w_signal_flag w = 0"
  obtains s where "daemon_handle_signal os cs w = Some ((FTP_QUIT, cs), w\<lparr>w_os := s, w_signal_flag := 0\<rparr>)"
    and "contents s = []"
proof -
  obtain s where "sys_signals os (w_os w) = ([SIGTERM], s)" "contents s = []"
    using assms(1,2) unfolding only_reports_def by (metis prod.collapse)
  with assms(3) show thesis
    by (intro that [of s]) (simp_all add: daemon_handle_signal_def deliver_def os_query_def Let_def signal_handler_def
        RECV_SIGTERM_def RECV_SIGCHLD_def)
qed

text \<open>C19. The master keeps up with its sessions: when they have written their reports to the pipe, in any
  interleaving, the main loop reads all of them before it obeys the signal that ends it, and then the
  entry of every client holds what its own reports say, one after the other; reports of unknown senders
  are skipped without losing the message boundaries.\<close>

theorem daemon_loop_drains:
  assumes os: "only_reports os srv (fst pipefds) contents" and ms: "\<forall>m \<in> set ms. report_ok m"
    and cs: "list_all child_ok cs" "distinct (map ch_pid cs)"
    and w: "contents (w_os w) = wire ms" "w_signal_flag w = 0"
  shows "\<exists>w'. daemon_loop p os srv pipefds cs w = Some ((FTP_SUCCESS, map (client_view ms) cs), w')
    \<and> contents (w_os w') = []"
  using ms cs w
proof (induction ms arbitrary: cs w)
  case Nil
  obtain s where "daemon_handle_signal os cs w = Some ((FTP_QUIT, cs), w\<lparr>w_os := s, w_signal_flag := 0\<rparr>)" "contents s = []"
    using signals_term [OF os _ Nil.prems(5)] Nil.prems(4) by (auto simp: wire_def)
  then show ?case by (simp add: daemon_loop.simps client_view_def map_idI)
next
  case (Cons m ms)
  have ct: "contents (w_os w) = report_bytes m @ wire ms" using Cons.prems(4) by (simp add: wire_def)
  obtain s1 where s1: "daemon_handle_signal os cs w = Some ((FTP_SUCCESS, cs), w\<lparr>w_os := s1\<rparr>)" "contents s1 = contents (w_os w)"
    by (rule signals_none [OF os _ Cons.prems(5)]) (use ct in simp)
  obtain n s2 where s2: "sys_poll2 os srv (fst pipefds) s1 = (Inr (n, False, True), s2)" "n \<noteq> 0" "contents s2 = contents s1"
    using os s1(2) ct unfolding only_reports_def by (metis Nil_is_append_conv report_bytes_nonempty)
  obtain s3 where s3: "recv_state os (fst pipefds) cs (w\<lparr>w_os := s2\<rparr>)
      = Some ((FTP_SUCCESS, map (note_report m) cs), w\<lparr>w_os := s3\<rparr>)" "contents s3 = wire ms"
    using recv_state_report [of os contents m cs "w\<lparr>w_os := s2\<rparr>" "wire ms" "fst pipefds"] os Cons.prems(1-3) ct s1(2) s2(3)
    by (auto simp: only_reports_def)
  have "list_all child_ok (map (note_report m) cs)" using Cons.prems(1,2) by (auto simp: list_all_iff note_report_ok)
  moreover have "distinct (map ch_pid (map (note_report m) cs))" using Cons.prems(3) by (simp add: comp_def)
  ultimately obtain w' where w': "daemon_loop p os srv pipefds (map (note_report m) cs) (w\<lparr>w_os := s3\<rparr>)
      = Some ((FTP_SUCCESS, map (client_view ms) (map (note_report m) cs)), w')" "contents (w_os w') = []"
    using Cons.IH [of "map (note_report m) cs" "w\<lparr>w_os := s3\<rparr>"] Cons.prems(1,5) s3(2) by auto
  have "daemon_loop p os srv pipefds cs w = daemon_loop p os srv pipefds (map (note_report m) cs) (w\<lparr>w_os := s3\<rparr>)"
    using s1(1) s2(1,2) s3(1) by (subst daemon_loop.simps) (simp add: os_call_def daemon_dispatch_def)
  with w' show ?case by (simp add: client_view_def comp_def)
qed

definition master_os :: "char list os" where
  "master_os = pipe_os\<lparr>os_proc := idle_proc\<lparr>proc_signals := \<lambda>s. (if s = [] then [SIGTERM] else [], s)\<rparr>,
     os_net := idle_net\<lparr>net_poll2 := \<lambda>a b s. (Inr (1, False, True), s)\<rparr>\<rparr>"

lemma master_os_reports: "only_reports master_os srv fd (\<lambda>s. s)"
  using pipe_os_pipe
  by (simp add: only_reports_def pipe_at_def master_os_def pipe_os_def idle_os_def idle_proc_def idle_net_def)

text \<open>Two sessions and a stranger, interleaved.\<close>

definition some_reports :: "report list" where
  "some_reports = [(7, T_XFER_START, replicate FTP_MAX_NAME (CHR ''f'')), (8, T_LOGIN, replicate 64 (CHR ''u'')),
     (9, T_CHDIR, replicate FTP_MAX_PATH SLASH), (7, T_LOGIN, replicate 64 (CHR ''v''))]"

theorem daemon_loop_drains_witness:
  "\<exists>w'. daemon_loop (core_pool 32) master_os 3 (5, 6) [some_child 7, some_child 8] (idle_world_at (wire some_reports))
     = Some ((FTP_SUCCESS,
         [(some_child 7)\<lparr>ch_filename := (replicate FTP_MAX_NAME (CHR ''f''))[FTP_MAX_NAME - 1 := NUL],
              ch_xfer_in_progress := True, ch_login_name := replicate 64 (CHR ''v'')\<rparr>,
          (some_child 8)\<lparr>ch_login_name := replicate 64 (CHR ''u'')\<rparr>]), w')
     \<and> w_os w' = []"
proof -
  have ok: "\<forall>m \<in> set some_reports. report_ok m"
    by (simp add: some_reports_def report_ok_def int32_range_def find_state_op_def state_ops_def state_types)
  have v: "map (client_view some_reports) [some_child 7, some_child 8]
      = [(some_child 7)\<lparr>ch_filename := (replicate FTP_MAX_NAME (CHR ''f''))[FTP_MAX_NAME - 1 := NUL],
            ch_xfer_in_progress := True, ch_login_name := replicate 64 (CHR ''v'')\<rparr>,
          (some_child 8)\<lparr>ch_login_name := replicate 64 (CHR ''u'')\<rparr>]"
    by (simp add: client_view_def some_reports_def note_report_def received_def state_types some_child_def)
  show ?thesis
    using daemon_loop_drains [of master_os 3 "(5, 6)" "\<lambda>s. s" some_reports "[some_child 7, some_child 8]"
        "idle_world_at (wire some_reports)" "core_pool 32", OF master_os_reports ok] unfolding v by simp
qed

end
