(* ===== verification/Ftp_Transcript.thy ===== *)
theory Ftp_Transcript
  imports Ftp_Server
begin

text \<open>
  The control connection of a client from the welcome to the end, an anonymous login included: the session
  process as a function from the lines of the client to the bytes it is sent. The handlers, the checks
  before them, the bisection, the line buffer and the loop are composed here.
\<close>

subsection \<open>The expected replies\<close>

definition is_word :: "string \<Rightarrow> string \<Rightarrow> bool" where
  "is_word l name \<longleftrightarrow> strcasecmp (line_word l) name = 0"

definition is_any :: "string \<Rightarrow> string list \<Rightarrow> bool" where
  "is_any l names \<longleftrightarrow> list_ex (is_word l) names"

text \<open>The commands for members, those of them that need a data connection, and those that need an
  argument.\<close>

definition member_commands :: "string list" where
  "member_commands = [''ABOR'', ''ACCT'', ''ALLO'', ''CDUP'', ''CLNT'', ''CWD'', ''LIST'', ''MDTM'', ''MKD'', ''PASV'', ''PWD'',
     ''REST'', ''DELE'', ''RETR'', ''RMD'', ''SIZE'', ''TYPE'', ''STOR'']"

definition data_commands :: "string list" where
  "data_commands = [''LIST'', ''RETR'', ''STOR'']"

definition path_commands :: "string list" where
  "path_commands = [''CWD'', ''MDTM'', ''MKD'', ''REST'', ''DELE'', ''RMD'', ''SIZE'']"

text \<open>What a visitor has achieved is the record \<open>ftp_login\<close>. The answer is the reply and the new state.\<close>

definition user_answer :: "ftp_config \<Rightarrow> ftp_login \<Rightarrow> string \<Rightarrow> string \<times> ftp_login" where
  "user_answer c v name =
     (if logged_in v then (''503 Already logged in'' @ CRLF, v)
      else if strcasecmp name ''anonymous'' = 0
      then (if cfg_allow_anon c then (''331 Any pass will do'' @ CRLF, v\<lparr>user := Null, anonymous := True\<rparr>)
            else (''550 No anonymous connections allowed'' @ CRLF, v\<lparr>user := Null\<rparr>))
      else (take (RESPONSE_BUFFER_SIZE - 1) (''331 Pass required for user '' @ name @ CRLF), v\<lparr>user := Ptr name\<rparr>))"

definition pass_answer :: "ftp_login \<Rightarrow> string \<times> ftp_login" where
  "pass_answer v =
     (if logged_in v then (''503 Already logged in'' @ CRLF, v)
      else if anonymous v then (''230 Hello!'' @ CRLF, v\<lparr>logged_in := True\<rparr>)
      else (''503 Login with USER first'' @ CRLF, v))"

definition type_answer :: "string \<Rightarrow> string" where
  "type_answer arg = (let c = toupper (case arg of [] \<Rightarrow> NUL | c # _ \<Rightarrow> c) in
     if c = CHR ''A'' then ''200 TYPE is now ASCII'' @ CRLF
     else if c = CHR ''I'' then ''200 TYPE is now BINARY'' @ CRLF
     else if c = CHR ''L''
     then (if length arg > 1 then ''501 Missing argument'' @ CRLF
           else ''504-Only 8-bit bytes allowed'' @ CRLF @ ''504 TYPE is now Binary'' @ CRLF)
     else ''504 Bad parameter'' @ CRLF)"

text \<open>The reply to a member's command, when the session has no data connection and is in its root.\<close>

definition member_answer :: "string \<Rightarrow> string" where
  "member_answer l =
     (if is_any l data_commands then ''425 Cannot open data connection'' @ CRLF
      else if is_any l (''TYPE'' # path_commands) \<and> line_arg l = [] then ''501 Missing argument'' @ CRLF
      else if is_word l ''ABOR'' then ''226 Abort successful'' @ CRLF
      else if is_word l ''ACCT'' then ''202 ACCT is obsolete'' @ CRLF
      else if is_word l ''ALLO'' then ''202 ALLO is obsolete'' @ CRLF
      else if is_word l ''CLNT'' then ''220 Whatever'' @ CRLF
      else if is_word l ''TYPE'' then type_answer (line_arg l)
      else ''257 '' @ [QUOTE] @ ''/'' @ [QUOTE] @ '' is your current location'' @ CRLF)"

definition answer :: "ftp_config \<Rightarrow> ftp_login \<Rightarrow> string \<Rightarrow> string \<times> ftp_login" where
  "answer c v l =
     (if is_word l ''FEAT'' then (''211-Extensions supported:'' @ CRLF @ '' SIZE'' @ CRLF @ '' MDTM'' @ CRLF @ ''211 End.'' @ CRLF, v)
      else if is_word l ''NOOP'' then (''200 Zzz'' @ CRLF, v)
      else if is_word l ''OPTS'' then (''501 No such command'' @ CRLF, v)
      else if is_word l ''QUIT'' then (''221 Goodbye!'' @ CRLF, v)
      else if is_word l ''SYST'' then (''200 UNIX Type L8'' @ CRLF, v)
      else if is_word l ''USER'' then user_answer c v (line_arg l)
      else if is_word l ''PASS'' then pass_answer v
      else if \<not> is_any l member_commands then (''500 ?'' @ CRLF, v)
      else if \<not> logged_in v then (''530 You're not logged in'' @ CRLF, v)
      else (member_answer l, v))"

text \<open>The lines for which this is the answer: not the password of a named user (which the user database
  decides), and of a member no command that looks at the file system or opens a socket.\<close>

definition covered :: "ftp_login \<Rightarrow> string \<Rightarrow> bool" where
  "covered v l \<longleftrightarrow> LF \<notin> set l \<and> nul_free l
     \<and> (is_word l ''PASS'' \<longrightarrow> logged_in v \<or> anonymous v \<or> user v = Null)
     \<and> (logged_in v \<longrightarrow> \<not> is_any l [''CDUP'', ''PASV''] \<and> (is_any l path_commands \<longrightarrow> line_arg l = []))"

subsection \<open>One command\<close>

definition answered :: "string \<times> ftp_login \<Rightarrow> 'o world \<Rightarrow> 'o world \<Rightarrow> bool" where
  "answered tv w w' \<longleftrightarrow> w_out w' = (w_out w)(sock (w_conn w) := w_out w (sock (w_conn w)) @ fst tv)
     \<and> w_login w' = snd tv \<and> w_os w' = w_os w \<and> wires w' = wires w \<and> w_conn w' = w_conn w \<and> w_config w' = w_config w
     \<and> reply_pool_ok w' \<and> w_arg w' = w_arg w \<and> w_cwd w' = w_cwd w"

lemma answered_emit:
  assumes "reply_pool_ok w" shows "answered (text, w_login w) w (emit (sock (w_conn w)) text w)"
  using assms by (simp add: answered_def emit_def wires_def reply_pool_ok_def)

text \<open>Several replies are one.\<close>

lemma emit_emit [simp]: "emit fd t (emit fd s w) = emit fd (s @ t) w"
  by (simp add: emit_def)

lemma command_keys:
  "casekey ''ABOR'' = [97, 98, 111, 114]" "casekey ''ACCT'' = [97, 99, 99, 116]"
  "casekey ''ALLO'' = [97, 108, 108, 111]" "casekey ''CDUP'' = [99, 100, 117, 112]"
  "casekey ''CLNT'' = [99, 108, 110, 116]" "casekey ''CWD'' = [99, 119, 100]"
  "casekey ''DELE'' = [100, 101, 108, 101]" "casekey ''FEAT'' = [102, 101, 97, 116]"
  "casekey ''LIST'' = [108, 105, 115, 116]" "casekey ''MDTM'' = [109, 100, 116, 109]"
  "casekey ''MKD'' = [109, 107, 100]" "casekey ''NOOP'' = [110, 111, 111, 112]"
  "casekey ''OPTS'' = [111, 112, 116, 115]" "casekey ''PASS'' = [112, 97, 115, 115]"
  "casekey ''PASV'' = [112, 97, 115, 118]" "casekey ''PWD'' = [112, 119, 100]"
  "casekey ''QUIT'' = [113, 117, 105, 116]" "casekey ''REST'' = [114, 101, 115, 116]"
  "casekey ''RETR'' = [114, 101, 116, 114]" "casekey ''RMD'' = [114, 109, 100]"
  "casekey ''SIZE'' = [115, 105, 122, 101]" "casekey ''STOR'' = [115, 116, 111, 114]"
  "casekey ''SYST'' = [115, 121, 115, 116]" "casekey ''TYPE'' = [116, 121, 112, 101]"
  "casekey ''USER'' = [117, 115, 101, 114]"
  by (simp_all add: casekey_def tolower_def byte_of_def)

lemma is_word_key: "is_word l n \<longleftrightarrow> casekey (line_word l) = casekey n"
  by (simp add: is_word_def strcasecmp_zero_iff)

lemma is_word_of:
  "casekey (line_word l) = casekey name \<Longrightarrow> is_word l n \<longleftrightarrow> casekey name = casekey n"
  by (simp add: is_word_key)

lemmas words = is_any_def member_commands_def data_commands_def path_commands_def

text \<open>A handler that only replies.\<close>

lemma says_answered:
  assumes "sends_ok os" and "reply_pool_ok w" and "h os w = do { (_, w) \<leftarrow> say os msg w; Some (r, w) }"
  shows "\<exists>w'. h os w = Some (r, w') \<and> answered (msg @ CRLF, w_login w) w w'"
  using assms by (simp add: say_def reply_ok answered_emit)

lemma sayf_answered:
  assumes os: "sends_ok os" and rp: "reply_pool_ok w" and h: "h os w = do { (_, w) \<leftarrow> sayf os msg w; Some (r, w) }"
    and msg: "nul_free msg" "length msg + 2 < RESPONSE_BUFFER_SIZE"
  shows "\<exists>w'. h os w = Some (r, w') \<and> answered (msg @ CRLF, w_login w) w w'"
proof -
  have "nul_free (msg @ CRLF)" "length (msg @ CRLF) < RESPONSE_BUFFER_SIZE" using msg by (simp_all add: nul_free_def)
  from reply_format_short [OF os rp this, of "w_conn w"] rp h show ?thesis
    by (auto simp: sayf_def answered_def emit_def wires_def reply_pool_ok_def)
qed

lemma douser_answers:
  assumes os: "sends_ok os" "mem_ok os" and w: "reply_pool_ok w" "nul_free (w_arg w)"
  shows "\<exists>w'. douser os w = Some (FTP_SUCCESS, w') \<and> answered (user_answer (w_config w) (w_login w) (w_arg w)) w w'"
proof -
  define u where "u = upd_login (\<lambda>l. l\<lparr>user := Null\<rparr>) w"
  define v where "v = upd_login (\<lambda>l. l\<lparr>user := Ptr (w_arg w)\<rparr>) u"
  have uv: "reply_pool_ok v" "w_conn u = w_conn w" "w_conn v = w_conn w" "w_config u = w_config w"
    using w(1) by (simp_all add: u_def v_def upd_login_def upd_session_def reply_pool_ok_def)
  show ?thesis
  proof (cases "logged_in (w_login w) \<or> strcasecmp (w_arg w) ''anonymous'' = 0")
    case True
    then show ?thesis using w
      by (auto simp: douser_def Let_def reply_ok [OF os(1)] user_answer_def answered_def
          emit_def upd_login_def upd_session_def wires_def reply_pool_ok_def simp del: strcasecmp.simps)
  next
    case False
    let ?text = "take (RESPONSE_BUFFER_SIZE - 1) (''331 Pass required for user '' @ w_arg w @ CRLF)"
    have nf: "nul_free (''331 Pass required for user '' @ w_arg w @ CRLF)" using w(2) by (simp add: nul_free_def)
    obtain b where b: "length b = RESPONSE_BUFFER_SIZE" "reply_format os (w_conn v) (''331 Pass required for user '' @ w_arg w @ CRLF) v
        = Some (int (length ?text), emit (sock (w_conn v)) ?text (v\<lparr>w_reply_pool := Some b\<rparr>))"
      using reply_format_ok [OF os(1) uv(1) nf, of "w_conn v"] by auto
    have "douser os w = Some (FTP_SUCCESS, emit (sock (w_conn v)) ?text (v\<lparr>w_reply_pool := Some b\<rparr>))"
      using False os(2) b(2) by (simp add: douser_def Let_def flip: u_def v_def)
    then show ?thesis using False b(1) w uv
      by (simp add: user_answer_def answered_def emit_def v_def u_def upd_login_def upd_session_def wires_def reply_pool_ok_def)
  qed
qed

lemma dopass_answers:
  assumes os: "sends_ok os" "mem_ok os" and w: "reply_pool_ok w"
    and known: "logged_in (w_login w) \<or> anonymous (w_login w) \<or> user (w_login w) = Null"
    and root: "anonymous (w_login w) \<longrightarrow> cfg_anon_root_dir (w_config w) \<noteq> None"
  shows "\<exists>w'. dopass os w = Some (FTP_SUCCESS, w') \<and> answered (pass_answer (w_login w)) w w'"
proof (cases "\<not> logged_in (w_login w) \<and> anonymous (w_login w)")
  case True
  then obtain d where "cfg_anon_root_dir (w_config w) = Some d" using root by blast
  with True show ?thesis using w os(2)
    by (simp add: dopass_def reply_ok [OF os(1)] init_vfs_pool_def Let_def init_state_pool_ok [OF os(2)] pass_answer_def
        answered_def emit_def upd_login_def upd_session_def wires_def reply_pool_ok_def)
next
  case False
  then have "logged_in (w_login w) \<or> \<not> anonymous (w_login w) \<and> user (w_login w) = Null" using known by blast
  then show ?thesis
    by (auto simp: dopass_def reply_ok [OF os(1)] pass_answer_def answered_emit [OF w])
qed

lemma dofeat_answers:
  assumes "sends_ok os" and "reply_pool_ok w"
  shows "\<exists>w'. dofeat os w = Some (FTP_SUCCESS, w')
    \<and> answered (''211-Extensions supported:'' @ CRLF @ '' SIZE'' @ CRLF @ '' MDTM'' @ CRLF @ ''211 End.'' @ CRLF, w_login w) w w'"
  using answered_emit [OF assms(2)] by (simp add: dofeat_def say_def reply_ok [OF assms(1)])

lemma dotype_answers:
  assumes "sends_ok os" and "reply_pool_ok w"
  shows "\<exists>w'. dotype os w = Some (FTP_SUCCESS, w') \<and> answered (type_answer (w_arg w), w_login w) w w'"
  using answered_emit [OF assms(2)]
  by (simp add: dotype_def type_answer_def Let_def say_def reply_ok [OF assms(1)])

lemma open_command_answers:
  fixes w :: "'o world"
  assumes os: "sends_ok os" "mem_ok os" and w: "reply_pool_ok w"
    and root: "anonymous (w_login w) \<longrightarrow> cfg_anon_root_dir (w_config w) \<noteq> None"
    and l: "w_arg w = line_arg l" "nul_free (line_arg l)" "covered (w_login w) l"
    and c: "c \<in> set core_command_list" "casekey (line_word l) = casekey (cmd_name c)" "\<not> needs_login c"
  shows "\<exists>w'. cmd_fun c os w = Some (if is_word l ''QUIT'' then FTP_QUIT else FTP_SUCCESS, w')
    \<and> answered (answer (w_config w) (w_login w) l) w w'"
proof -
  note name = is_word_of [OF c(2)] and says = says_answered [OF os(1) w]
  consider "cmd_name c = ''FEAT''" "cmd_fun c = dofeat" | "cmd_name c = ''NOOP''" "cmd_fun c = donoop"
    | "cmd_name c = ''OPTS''" "cmd_fun c = doopts" | "cmd_name c = ''QUIT''" "cmd_fun c = doquit"
    | "cmd_name c = ''SYST''" "cmd_fun c = dosyst" | "cmd_name c = ''USER''" "cmd_fun c = douser"
    | "cmd_name c = ''PASS''" "cmd_fun c = dopass"
    using c(1,3) by (auto simp: core_command_list_def)
  then show ?thesis
  proof cases
    case 7
    have "logged_in (w_login w) \<or> anonymous (w_login w) \<or> user (w_login w) = Null"
      using l(3) 7 unfolding covered_def by (simp add: name)
    from dopass_answers [OF os w this root] show ?thesis by (simp add: 7 name command_keys answer_def)
  qed (use says [of donoop _ FTP_SUCCESS, OF donoop_def] says [of doopts _ FTP_SUCCESS, OF doopts_def]
      says [of doquit _ FTP_QUIT, OF doquit_def] says [of dosyst _ FTP_SUCCESS, OF dosyst_def]
      dofeat_answers [OF os(1) w] douser_answers [OF os w, unfolded l(1), OF l(2)]
    in \<open>simp_all add: name command_keys answer_def\<close>)
qed

lemma member_command_answers:
  fixes w :: "'o world"
  assumes os: "sends_ok os" and w: "reply_pool_ok w" "w_cwd w = ''/''" and l: "w_arg w = line_arg l"
    and c: "casekey (line_word l) = casekey (cmd_name c)"
      "(cmd_name c, cmd_fun c) \<in> set [(''ABOR'', doabor), (''ACCT'', doacct), (''ALLO'', doallo), (''CLNT'', doclnt), (''PWD'', dopwd), (''TYPE'', dotype)]"
    and t: "cmd_name c = ''TYPE'' \<longrightarrow> line_arg l \<noteq> []"
  shows "\<exists>w'. cmd_fun c os w = Some (FTP_SUCCESS, w') \<and> answered (member_answer l, w_login w) w w'"
proof -
  note name = is_word_of [OF c(1)] and says = says_answered [OF os w(1)]
  have acct: "doacct os w = do { (_, w) \<leftarrow> say os ''202 ACCT is obsolete'' w; Some (FTP_SUCCESS, w) }" for os and w :: "'o world"
    by (simp add: doacct_def say_def)
  consider "cmd_name c = ''ABOR''" "cmd_fun c = doabor" | "cmd_name c = ''ACCT''" "cmd_fun c = doacct"
    | "cmd_name c = ''ALLO''" "cmd_fun c = doallo" | "cmd_name c = ''CLNT''" "cmd_fun c = doclnt"
    | "cmd_name c = ''PWD''" "cmd_fun c = dopwd" | "cmd_name c = ''TYPE''" "cmd_fun c = dotype"
    using c(2) by auto
  then show ?thesis
  proof cases
    case 5
    let ?msg = "''257 '' @ [QUOTE] @ ''/'' @ [QUOTE] @ '' is your current location''"
    have "dopwd os w = do { (_, w) \<leftarrow> sayf os ?msg w; Some (FTP_SUCCESS, w) }" unfolding dopwd_def w(2) ..
    moreover have "nul_free ?msg" "length ?msg + 2 < RESPONSE_BUFFER_SIZE"
      by (simp_all add: nul_free_def RESPONSE_BUFFER_SIZE_def)
    ultimately have "\<exists>w'. dopwd os w = Some (FTP_SUCCESS, w') \<and> answered (?msg @ CRLF, w_login w) w w'"
      by (rule sayf_answered [OF os w(1)])
    then show ?thesis by (simp add: 5 name command_keys member_answer_def words)
  qed (use says [of doabor _ FTP_SUCCESS, OF doabor_def] says [of doacct _ FTP_SUCCESS, OF acct]
      says [of doallo _ FTP_SUCCESS, OF doallo_def] says [of doclnt _ FTP_SUCCESS, OF doclnt_def]
      dotype_answers [OF os w(1)] l t
    in \<open>simp_all add: name command_keys member_answer_def words\<close>)
qed

lemma do_cmd_refuses:
  assumes "sends_ok os" and "reply_pool_ok w" and "find_command p (cstr (c_line (w_command w))) = Some c"
    and "pre_command os c w = do { (_, w) \<leftarrow> say os msg w; Some (FTP_ERROR, w) }"
  shows "\<exists>w'. do_cmd p os w = Some (FTP_SUCCESS, w') \<and> answered (msg @ CRLF, w_login w) w w'"
  using assms by (simp add: do_cmd_def say_def reply_ok answered_emit)

lemma member_table:
  "\<forall>c \<in> set (core_command_list :: 'o cmd_handler list). needs_login c \<longrightarrow> needs_data c
      \<or> (cmd_name c, cmd_fun c) \<in> set [(''ABOR'', doabor), (''ACCT'', doacct), (''ALLO'', doallo), (''CLNT'', doclnt),
          (''PWD'', dopwd), (''TYPE'', dotype)]
      \<or> cmd_name c \<in> set [''CDUP'', ''PASV''] \<or> needs_arg c \<and> cmd_name c \<in> set path_commands"
  "\<forall>c \<in> set (core_command_list :: 'o cmd_handler list). cmd_name c = ''TYPE'' \<longrightarrow> needs_arg c"
  "\<forall>c \<in> set (core_command_list :: 'o cmd_handler list). needs_login c \<longrightarrow> cmd_name c \<in> set member_commands"
  "\<forall>c \<in> set (core_command_list :: 'o cmd_handler list). needs_data c \<longrightarrow> cmd_name c \<in> set data_commands"
  "\<forall>c \<in> set (core_command_list :: 'o cmd_handler list).
     needs_arg c \<and> \<not> needs_data c \<longrightarrow> cmd_name c \<in> set (''TYPE'' # path_commands)"
  by (simp_all add: core_command_list_def words)

lemma disjoint_names:
  "\<forall>n \<in> set member_commands. \<forall>m \<in> set [''FEAT'', ''NOOP'', ''OPTS'', ''QUIT'', ''SYST'', ''USER'', ''PASS'']. casekey n \<noteq> casekey m"
  "\<forall>n \<in> set (''TYPE'' # path_commands). \<forall>m \<in> set data_commands. casekey n \<noteq> casekey m"
  by (simp_all add: words command_keys)

lemma is_any_name: "casekey (line_word l) = casekey n \<Longrightarrow> n \<in> set ns \<Longrightarrow> is_any l ns"
  by (auto simp: is_any_def is_word_key list_ex_iff)

lemma is_any_other: "casekey (line_word l) = casekey n \<Longrightarrow> \<forall>m \<in> set ns. casekey n \<noteq> casekey m \<Longrightarrow> \<not> is_any l ns"
  by (auto simp: is_any_def is_word_key list_ex_iff)

lemma answer_member:
  assumes "casekey (line_word l) = casekey n" and "n \<in> set member_commands"
  shows "answer c v l = (if logged_in v then member_answer l else ''530 You're not logged in'' @ CRLF, v)"
    and "\<not> is_word l ''QUIT''"
  using is_any_other [OF assms(1) bspec [OF disjoint_names(1) assms(2)]] is_any_name [OF assms]
  by (simp_all add: answer_def is_any_def)

lemma do_cmd_answers:
  fixes w :: "'o world"
  assumes os: "sends_ok os" "mem_ok os" and w: "reply_pool_ok w" "w_cwd w = ''/''" "pasv_sock (w_conn w) = -1"
    and root: "anonymous (w_login w) \<longrightarrow> cfg_anon_root_dir (w_config w) \<noteq> None"
    and l: "cstr (c_line (w_command w)) = line_word l" "w_arg w = line_arg l" "nul_free (line_arg l)" "covered (w_login w) l"
  shows "\<exists>w'. do_cmd (core_pool n) os w = Some (if is_word l ''QUIT'' then FTP_QUIT else FTP_SUCCESS, w')
    \<and> answered (answer (w_config w) (w_login w) l) w w'"
proof (cases "find_command (core_pool n) (line_word l) :: 'o cmd_handler option")
  case None
  then have "\<forall>c \<in> set (core_command_list :: 'o cmd_handler list). casekey (line_word l) \<noteq> casekey (cmd_name c)"
    by (simp add: core.search_None_iff)
  then have "\<not> is_word l name" if "name \<in> set (map cmd_name (core_command_list :: 'o cmd_handler list))" for name
    using that by (auto simp: is_word_def strcasecmp_zero_iff)
  then have "answer (w_config w) (w_login w) l = (''500 ?'' @ CRLF, w_login w)" "\<not> is_word l ''QUIT''"
    by (simp_all add: answer_def core_command_list_def words)
  with None l(1) w show ?thesis
    by (simp add: do_cmd_def say_def reply_ok [OF os(1)] answered_emit)
next
  case (Some c)
  then have c: "c \<in> set core_command_list" "casekey (line_word l) = casekey (cmd_name c)" by (simp_all add: core.search_iff)
  note name = is_word_of [OF c(2)]
  have found: "find_command (core_pool n) (cstr (c_line (w_command w))) = Some c" using Some l(1) by simp
  note refuses = do_cmd_refuses [OF os(1) w(1) found]
  show ?thesis
  proof (cases "needs_login c")
    case False
    have "do_cmd (core_pool n) os w = cmd_fun c os w"
      using c(1) False found by (auto simp: do_cmd_def pre_command_def core_command_list_def)
    with open_command_answers [OF os w(1) root l(2,3,4) c False] show ?thesis by simp
  next
    case login: True
    then have "cmd_name c \<in> set member_commands" using bspec [OF member_table(3) c(1)] by simp
    note a = answer_member [OF c(2) this]
    show ?thesis
    proof (cases "logged_in (w_login w)")
      case False
      with login a refuses [of "''530 You're not logged in''"] show ?thesis by (simp add: pre_command_def)
    next
      case True
      consider "needs_data c" | "\<not> needs_data c" "needs_arg c" "line_arg l = []"
        | "\<not> needs_data c" "needs_arg c \<longrightarrow> line_arg l \<noteq> []" by blast
      then show ?thesis
      proof cases
        case 1
        have "member_answer l = ''425 Cannot open data connection'' @ CRLF"
          using is_any_name [OF c(2)] bspec [OF member_table(4) c(1)] 1 by (simp add: member_answer_def)
        with True 1 w(3) a refuses [of "''425 Cannot open data connection''"] show ?thesis by (simp add: pre_command_def)
      next
        case 2
        have "member_answer l = ''501 Missing argument'' @ CRLF"
          using is_any_name [OF c(2)] is_any_other [OF c(2) bspec [OF disjoint_names(2)]] bspec [OF member_table(5) c(1)] 2
          unfolding member_answer_def by simp
        with True 2 l(2) a refuses [of "''501 Missing argument''"] show ?thesis by (simp add: pre_command_def)
      next
        case 3
        have "do_cmd (core_pool n) os w = cmd_fun c os w"
          using True 3 found l(2) by (auto simp: do_cmd_def pre_command_def)
        moreover have "(cmd_name c, cmd_fun c) \<in> set [(''ABOR'', doabor), (''ACCT'', doacct), (''ALLO'', doallo), (''CLNT'', doclnt), (''PWD'', dopwd), (''TYPE'', dotype)]"
          "cmd_name c = ''TYPE'' \<longrightarrow> line_arg l \<noteq> []"
          using bspec [OF member_table(1) c(1)] bspec [OF member_table(2) c(1)] login 3 is_any_name [OF c(2)] l(4) True
          unfolding covered_def by blast+
        note member_command_answers [OF os(1) w(1,2) l(2) c(2) this]
        ultimately show ?thesis using a True by simp
      qed
    qed
  qed
qed

subsection \<open>One round of the loop\<close>

text \<open>The top of the loop for a visitor who has achieved \<open>v\<close>.\<close>

definition waiting :: "int \<Rightarrow> ftp_login \<Rightarrow> 'o world \<Rightarrow> bool" where
  "waiting fd v w \<longleftrightarrow> sock (w_conn w) = fd \<and> pasv_sock (w_conn w) = -1 \<and> reply_pool_ok w
     \<and> w_login w = v \<and> command_ok (w_command w) \<and> w_cwd w = ''/'' \<and> (anonymous v \<longrightarrow> cfg_allow_anon (w_config w))"

lemma nul_free_line_arg: "nul_free l \<Longrightarrow> nul_free (line_arg l)"
  by (auto simp: nul_free_def line_arg_def line_text_def dest!: set_dropWhileD in_set_dropD in_set_butlastD)

lemma answer_anonymous: "anonymous v \<longrightarrow> cfg_allow_anon c \<Longrightarrow> anonymous (snd (answer c v l)) \<longrightarrow> cfg_allow_anon c"
  by (simp add: answer_def user_answer_def pass_answer_def)

lemma remove_cmd_ok:
  assumes "c_line_len (w_command w) = length (c_line (w_command w))" and "length (c_line (w_command w)) = COMMAND_BUFFER_SIZE"
    and "c_dirty_len (w_command w) = c_len (w_command w) + k" and "drop (c_len (w_command w)) (c_line (w_command w)) = m @ r"
    and "k = length m" and "nul_free (w_arg w)" and "c_len (w_command w) \<le> COMMAND_BUFFER_SIZE"
  shows "command_ok (w_command (snd (remove_cmd w)))" and "fst (remove_cmd w) = FTP_SUCCESS"
    and "line_only w (snd (remove_cmd w))" and "w_os (snd (remove_cmd w)) = w_os w"
proof -
  have "c_len (w_command w) + length (m @ r) = COMMAND_BUFFER_SIZE"
    using arg_cong [OF assms(4), of length] assms(2,7) by simp
  then show "command_ok (w_command (snd (remove_cmd w)))"
    using assms by (auto simp: remove_cmd_def Let_def command_ok_def upd_command_def upd_session_def)
qed (auto simp: remove_cmd_def Let_def line_only_def upd_command_def upd_session_def)

lemma serve_line:
  assumes os: "sends_ok os" "mem_ok os" "delivers os fd incoming"
    and w: "waiting fd v w" and p: "pending incoming w = l @ LF # rest" "length (pending incoming w) < COMMAND_BUFFER_SIZE"
    and root: "cfg_allow_anon (w_config w) \<longrightarrow> cfg_anon_root_dir (w_config w) \<noteq> None" and l: "covered v l"
  shows "\<exists>w'. serve (core_pool n) os w = (if is_word l ''QUIT'' then Some (FTP_QUIT, w') else serve (core_pool n) os w')
    \<and> w_out w' = (w_out w)(fd := w_out w fd @ fst (answer (w_config w) v l))
    \<and> w_config w' = w_config w \<and> w_conn w' = w_conn w \<and> w_login w' = snd (answer (w_config w) v l)
    \<and> (\<not> is_word l ''QUIT'' \<longrightarrow> waiting fd (snd (answer (w_config w) v l)) w' \<and> pending incoming w' = rest)"
proof -
  note w' = w [unfolded waiting_def] and l' = l [unfolded covered_def]
  obtain w1 w2 m r where r: "read_cmd os w = Some (FTP_SUCCESS, w1)" "parse_cmd w1 = (FTP_SUCCESS, w2)"
    "cstr (c_line (w_command w2)) = line_word l" "w_arg w2 = line_arg l"
    "drop (length l + 1) (c_line (w_command w2)) = m @ r" "c_len (w_command w2) = length l + 1"
    "c_dirty_len (w_command w2) = length l + 1 + length m" "c_line_len (w_command w2) = length (c_line (w_command w2))"
    "rest = m @ incoming (w_os w2)" "line_only w w2" "length (c_line (w_command w2)) = COMMAND_BUFFER_SIZE"
    using read_parse_line [OF _ _ p(1) _ _ p(2)] os(3) w' l' by metis
  note only = r(10) [unfolded line_only_def]
  have w2: "reply_pool_ok w2" "w_cwd w2 = ''/''" "pasv_sock (w_conn w2) = -1" "w_login w2 = v" "w_config w2 = w_config w"
    "anonymous (w_login w2) \<longrightarrow> cfg_anon_root_dir (w_config w2) \<noteq> None"
    using only w' root by (simp_all add: reply_pool_ok_def)
  have arg: "nul_free (line_arg l)" using l' nul_free_line_arg by blast
  obtain w3 where w3: "do_cmd (core_pool n) os w2 = Some (if is_word l ''QUIT'' then FTP_QUIT else FTP_SUCCESS, w3)"
    "answered (answer (w_config w) v l) w2 w3"
    using do_cmd_answers [OF os(1,2) w2(1-3,6) r(3,4) arg] l w2(4,5) by auto
  note a = w3(2) [unfolded answered_def]
  have c3: "w_conn w3 = w_conn w" "w_config w3 = w_config w" "w_os w3 = w_os w2" "w_login w3 = snd (answer (w_config w) v l)"
    "w_out w3 = (w_out w)(fd := w_out w fd @ fst (answer (w_config w) v l))" using a only w' by simp_all
  show ?thesis
  proof (cases "is_word l ''QUIT''")
    case True
    then have "serve (core_pool n) os w = Some (FTP_QUIT, w3)" using r(1,2) w3(1) by (simp add: serve.simps)
    with True c3 show ?thesis by auto
  next
    case False
    have wires: "c_line (w_command w3) = c_line (w_command w2)" "c_len (w_command w3) = length l + 1"
      "c_dirty_len (w_command w3) = length l + 1 + length m" "c_line_len (w_command w3) = COMMAND_BUFFER_SIZE"
      using a r(6-8,11) by (simp_all add: wires_def)
    define w4 where "w4 = snd (remove_cmd w3)"
    have len: "length l + 1 \<le> COMMAND_BUFFER_SIZE" using p by simp
    have na: "nul_free (w_arg w3)" using a r(4) arg by simp
    note rm = remove_cmd_ok [of w3 "length m" m r, folded w4_def]
    have w4: "command_ok (w_command w4)" "remove_cmd w3 = (FTP_SUCCESS, w4)" "line_only w3 w4"
      using rm wires r(5,11) na len by (simp_all add: w4_def prod_eq_iff)
    have "pending incoming w4 = rest"
      using remove_cmd_pending [of w3 "c_line (w_command w2)" "length l + 1" m r incoming] wires r(5,9,11) c3(3)
      by (simp add: w4_def)
    moreover have "waiting fd (snd (answer (w_config w) v l)) w4"
      using w4(1,3) a c3 w' w2(2) answer_anonymous [of v "w_config w" l]
      by (simp add: waiting_def line_only_def reply_pool_ok_def)
    moreover have "serve (core_pool n) os w = serve (core_pool n) os w4"
      using r(1,2) w3(1) w4(2) False by (subst serve.simps) simp
    ultimately show ?thesis using False c3 w4(3) by (intro exI [of _ w4]) (auto simp: line_only_def)
  qed
qed

subsection \<open>The whole conversation\<close>

fun transcript :: "ftp_config \<Rightarrow> ftp_login \<Rightarrow> string list \<Rightarrow> string" where
  "transcript c v [] = []"
| "transcript c v (l # ls) = (case answer c v l of (text, v) \<Rightarrow> text @ transcript c v ls)"

fun achieves :: "ftp_config \<Rightarrow> ftp_login \<Rightarrow> string list \<Rightarrow> ftp_login" where
  "achieves c v [] = v"
| "achieves c v (l # ls) = achieves c (snd (answer c v l)) ls"

fun all_covered :: "ftp_config \<Rightarrow> ftp_login \<Rightarrow> string list \<Rightarrow> bool" where
  "all_covered c v [] = True"
| "all_covered c v (l # ls) \<longleftrightarrow> covered v l \<and> all_covered c (snd (answer c v l)) ls"

definition visitor :: ftp_login where
  "visitor = \<lparr>logged_in = False, anonymous = False, user = Indeterminate\<rparr>"

lemma serve_script:
  assumes os: "sends_ok os" "mem_ok os" "delivers os fd incoming"
    and w: "waiting fd v w" and p: "pending incoming w = concat (map (\<lambda>l. l @ [LF]) (ls @ [q]))"
      "length (pending incoming w) < COMMAND_BUFFER_SIZE"
    and root: "cfg_allow_anon (w_config w) \<longrightarrow> cfg_anon_root_dir (w_config w) \<noteq> None"
    and ls: "all_covered (w_config w) v (ls @ [q])" "\<forall>l \<in> set ls. \<not> is_word l ''QUIT''" "is_word q ''QUIT''"
  shows "\<exists>w'. serve (core_pool n) os w = Some (FTP_QUIT, w')
    \<and> w_out w' = (w_out w)(fd := w_out w fd @ transcript (w_config w) v (ls @ [q]))
    \<and> w_conn w' = w_conn w \<and> w_login w' = achieves (w_config w) v (ls @ [q])"
  using w p root ls(1,2)
proof (induction ls arbitrary: v w)
  case Nil
  then have "pending incoming w = q @ LF # []" "covered v q" by simp_all
  from serve_line [OF os Nil.prems(1) this(1) Nil.prems(3,4) this(2), of n] ls(3) show ?case by (auto simp: case_prod_beta)
next
  case (Cons l ls)
  let ?v = "snd (answer (w_config w) v l)"
  have p: "pending incoming w = l @ LF # concat (map (\<lambda>l. l @ [LF]) (ls @ [q]))"
    and l: "covered v l" "\<not> is_word l ''QUIT''" using Cons.prems by simp_all
  obtain u where u: "serve (core_pool n) os w = serve (core_pool n) os u"
    "w_out u = (w_out w)(fd := w_out w fd @ fst (answer (w_config w) v l))" "w_config u = w_config w" "w_conn u = w_conn w"
    "waiting fd ?v u" "pending incoming u = concat (map (\<lambda>l. l @ [LF]) (ls @ [q]))"
    using serve_line [OF os Cons.prems(1) p Cons.prems(3,4) l(1), of n] l(2) by auto
  have "length (pending incoming u) < COMMAND_BUFFER_SIZE" using u(6) p Cons.prems(3) by simp
  note IH = Cons.IH [OF u(5,6) this, unfolded u(3)]
  have "all_covered (w_config w) ?v (ls @ [q])" "\<forall>l \<in> set ls. \<not> is_word l ''QUIT''" using Cons.prems(5,6) by simp_all
  from IH [OF Cons.prems(4) this] obtain x where x: "serve (core_pool n) os u = Some (FTP_QUIT, x)"
    "w_out x = (w_out u)(fd := w_out u fd @ transcript (w_config w) ?v (ls @ [q]))" "w_conn x = w_conn u"
    "w_login x = achieves (w_config w) ?v (ls @ [q])" by blast
  with u(1,2,4) show ?case by (intro exI [of _ x]) (simp add: case_prod_beta)
qed

text \<open>The process after its welcome, and that it gets there.\<close>

definition served_main :: "'o cmd_pool \<Rightarrow> 'o os \<Rightarrow> 'o world \<Rightarrow> (int \<times> 'o world) option" where
  "served_main p os w = do {
     (_, w) \<leftarrow> serve p os w;
     (_, w) \<leftarrow> say os ''421 Goodbye!'' w;
     w \<leftarrow> destroy_session os (destroy_reply_pool (destroy_vfs_pool (destroy_state_pool w)));
     Some (1, w) }"

lemma ftp_main_enters:
  assumes os: "sends_ok os" "mem_ok os"
    and peer: "\<And>s. \<exists>a s'. sys_getpeername os fd s = (Inr a, s') \<and> incoming s' = incoming s"
    and name: "\<And>s. \<exists>a s'. sys_getsockname os fd s = (Inr a, s') \<and> incoming s' = incoming s"
  shows "\<exists>v a h. w_session v = fresh_session fd pipe a h \<and> w_config v = w_config w
    \<and> incoming (w_os v) = incoming (w_os w) \<and> reply_pool_ok v
    \<and> w_out v = (w_out w)(fd := w_out w fd @ ''220 Welcome'' @ CRLF)
    \<and> ftp_main (core_pool n) os fd pipe w = served_main (core_pool n) os v"
proof -
  define w0 where "w0 = w\<lparr>w_reply_pool := Some (replicate RESPONSE_BUFFER_SIZE NUL)\<rparr>"
  have i: "init_reply_pool os w = (FTP_SUCCESS, w0)" using os(2) by (simp add: init_reply_pool_def w0_def)
  obtain a s1 where a: "sys_getpeername os fd (w_os w0) = (Inr a, s1)" "incoming s1 = incoming (w_os w0)" using peer by blast
  obtain h s2 where h: "sys_getsockname os fd s1 = (Inr h, s2)" "incoming s2 = incoming s1" using name by blast
  obtain h1 h2 where hh: "h = (h1, h2)" by force
  let ?s = "fresh_session fd pipe a h1"
  have n: "new_session os fd pipe w0 = (Some ?s, w0\<lparr>w_os := s2\<rparr>)"
    using os(2) a(1) h(1) by (simp add: new_session_def os_call_def hh)
  define v where "v = emit fd (''220 Welcome'' @ CRLF) (w0\<lparr>w_os := s2, w_session := ?s\<rparr>)"
  have "say os ''220 Welcome'' (w0\<lparr>w_os := s2, w_session := ?s\<rparr>) = Some (int (length (''220 Welcome'' @ CRLF)), v)"
    by (simp add: say_def reply_ok [OF os(1)] v_def fresh_session_def)
  then have "ftp_main (core_pool n) os fd pipe w = served_main (core_pool n) os v"
    unfolding ftp_main_def served_main_def i n prod.case option.case Let_def by simp
  then show ?thesis using a(2) h(2)
    by (intro exI [of _ v] exI [of _ a] exI [of _ h1]) (simp add: v_def w0_def emit_def reply_pool_ok_def)
qed

subsection \<open>Properties\<close>

text \<open>C9. A visit from the connection to the end, an anonymous login included: a client that sends any lines
  that \<open>covered\<close> admits, in packets of any size, and then QUIT, is answered line by line, in order, with
  the replies of the automaton \<open>answer\<close>, from the welcome to the farewell; the process then returns. (All
  lines together must fit the line buffer, the client must have sent a USER before the end, since the user
  name is not initialised, and a configuration that allows anonymous logins must name their root.)\<close>

theorem ftp_main_transcript:
  assumes os: "sends_ok os" "mem_ok os" "delivers os fd incoming"
    and peer: "\<And>s. \<exists>a s'. sys_getpeername os fd s = (Inr a, s') \<and> incoming s' = incoming s"
    and name: "\<And>s. \<exists>a s'. sys_getsockname os fd s = (Inr a, s') \<and> incoming s' = incoming s"
    and root: "cfg_allow_anon (w_config w) \<longrightarrow> cfg_anon_root_dir (w_config w) \<noteq> None"
    and script: "incoming (w_os w) = concat (map (\<lambda>l. l @ [LF]) (ls @ [q]))" "length (incoming (w_os w)) < COMMAND_BUFFER_SIZE"
    and ls: "all_covered (w_config w) visitor (ls @ [q])" "\<forall>l \<in> set ls. \<not> is_word l ''QUIT''" "is_word q ''QUIT''"
    and named: "user (achieves (w_config w) visitor (ls @ [q])) \<noteq> Indeterminate"
  shows "\<exists>w'. ftp_main (core_pool n) os fd pipe w = Some (1, w')
    \<and> w_out w' = (w_out w)(fd := w_out w fd @ ''220 Welcome'' @ CRLF @ transcript (w_config w) visitor (ls @ [q])
        @ ''421 Goodbye!'' @ CRLF)"
proof -
  obtain v a h where v: "w_session v = fresh_session fd pipe a h" "w_config v = w_config w" "incoming (w_os v) = incoming (w_os w)"
    "reply_pool_ok v" "w_out v = (w_out w)(fd := w_out w fd @ ''220 Welcome'' @ CRLF)"
    "ftp_main (core_pool n) os fd pipe w = served_main (core_pool n) os v"
    using ftp_main_enters [OF os(1,2) peer name, where w = w and n = n and pipe = pipe] by blast
  have "waiting fd visitor v" by (simp add: waiting_def v fresh_session_def command_ok_def visitor_def cstr_root)
  moreover have "pending incoming v = concat (map (\<lambda>l. l @ [LF]) (ls @ [q]))"
    using script(1) by (simp add: pending_def v fresh_session_def)
  ultimately obtain u where u: "serve (core_pool n) os v = Some (FTP_QUIT, u)"
    "w_out u = (w_out v)(fd := w_out v fd @ transcript (w_config w) visitor (ls @ [q]))" "w_conn u = w_conn v"
    "w_login u = achieves (w_config w) visitor (ls @ [q])"
    using serve_script [OF os, of visitor v ls q n] script root ls v(2) by auto
  define x where "x = destroy_reply_pool (destroy_vfs_pool (destroy_state_pool (emit fd (''421 Goodbye!'' @ CRLF) u)))"
  have x: "w_session x = w_session u" "w_out x = (w_out u)(fd := w_out u fd @ ''421 Goodbye!'' @ CRLF)"
    by (simp_all add: x_def destroy_reply_pool_def destroy_vfs_pool_def destroy_state_pool_def emit_def)
  have "destroy_session os x = Some x"
    using x(1) u(3,4) named v(1) by (simp add: destroy_session_def Let_def fresh_session_def split: cptr.splits)
  moreover have "say os ''421 Goodbye!'' u = Some (int (length (''421 Goodbye!'' @ CRLF)), emit fd (''421 Goodbye!'' @ CRLF) u)"
    using u(3) v(1) by (simp add: say_def reply_ok [OF os(1)] fresh_session_def)
  ultimately have "ftp_main (core_pool n) os fd pipe w = Some (1, x)"
    using u(1) unfolding v(6) served_main_def x_def by simp
  with x(2) u(2) v(2,5) show ?thesis by simp
qed

definition visit_os :: "char list os" where
  "visit_os = trickle_os\<lparr>os_net := (os_net trickle_os)
     \<lparr>net_getpeername := \<lambda>fd s. (Inr [], s), net_getsockname := \<lambda>fd s. (Inr ([], 0), s)\<rparr>\<rparr>"

lemma visit_os_ok: "sends_ok visit_os" "mem_ok visit_os" "delivers visit_os fd (\<lambda>s. s)"
  using trickle_ok trickle_delivers [of fd]
  by (simp_all add: sends_ok_def mem_ok_def delivers_def visit_os_def)

definition open_config :: ftp_config where
  "open_config = zero_config\<lparr>cfg_allow_anon := True, cfg_anon_root_dir := Some ''/srv''\<rparr>"

definition visit_lines :: "string list" where
  "visit_lines = [''user anonymous'' @ [CR], ''RETR x'' @ [CR], ''pass me'', ''PWD'' @ [CR], ''type i'' @ [CR], ''RETR x'' @ [CR]]"

abbreviation visit_end :: string where
  "visit_end \<equiv> ''Quit'' @ [CR]"

abbreviation visit_script :: string where
  "visit_script \<equiv> concat (map (\<lambda>l. l @ [LF]) (visit_lines @ [visit_end]))"

lemma visit_transcript:
  "transcript open_config visitor (visit_lines @ [visit_end]) =
     ''331 Any pass will do'' @ CRLF @ ''530 You're not logged in'' @ CRLF @ ''230 Hello!'' @ CRLF
     @ ''257 '' @ [QUOTE] @ ''/'' @ [QUOTE] @ '' is your current location'' @ CRLF
     @ ''200 TYPE is now BINARY'' @ CRLF @ ''425 Cannot open data connection'' @ CRLF @ ''221 Goodbye!'' @ CRLF" (is ?transcript)
  "user (achieves open_config visitor (visit_lines @ [visit_end])) \<noteq> Indeterminate" (is ?named)
  "all_covered open_config visitor (visit_lines @ [visit_end])" (is ?covered)
  "\<forall>l \<in> set visit_lines. \<not> is_word l ''QUIT''" (is ?quit)
  "is_word visit_end ''QUIT''" (is ?last)
proof -
  define l1 l2 l3 l4 l5 q where "l1 = ''user anonymous'' @ [CR]" and "l2 = ''RETR x'' @ [CR]" and "l3 = ''pass me''"
    and "l4 = ''PWD'' @ [CR]" and "l5 = ''type i'' @ [CR]" and "q = visit_end"
  note lines = this
  have ls: "visit_lines = [l1, l2, l3, l4, l5, l2]" by (simp add: visit_lines_def lines)
  have word: "line_word l1 = ''user''" "line_word l2 = ''RETR''" "line_word l3 = ''pass''" "line_word l4 = ''PWD''"
    "line_word l5 = ''type''" "line_word q = ''Quit''" "line_arg l1 = ''anonymous''" "line_arg l2 = ''x''" "line_arg l5 = ''i''"
    by (simp_all add: lines line_word_def line_arg_def line_text_def isspace_def)
  have keys: "casekey ''user'' = [117, 115, 101, 114]" "casekey ''Quit'' = [113, 117, 105, 116]"
    "casekey ''pass'' = [112, 97, 115, 115]" "casekey ''type'' = [116, 121, 112, 101]"
    by (simp_all add: casekey_def tolower_def byte_of_def)
  have anon: "strcasecmp ''anonymous'' ''anonymous'' = 0" unfolding strcasecmp_zero_iff ..
  have i: "toupper (CHR ''i'') = CHR ''I''" by code_simp
  note eval = is_word_key word command_keys keys anon words i
  define v1 where "v1 = visitor\<lparr>user := Null, anonymous := True\<rparr>"
  define v2 where "v2 = v1\<lparr>logged_in := True\<rparr>"
  have v: "\<not> logged_in visitor" "\<not> logged_in v1" "anonymous v1" "logged_in v2" "user v2 = Null"
    by (simp_all add: v1_def v2_def visitor_def)
  have a: "answer open_config visitor l1 = (''331 Any pass will do'' @ CRLF, v1)"
    "answer open_config v1 l2 = (''530 You're not logged in'' @ CRLF, v1)"
    "answer open_config v1 l3 = (''230 Hello!'' @ CRLF, v2)"
    "answer open_config v2 l4 = (''257 '' @ [QUOTE] @ ''/'' @ [QUOTE] @ '' is your current location'' @ CRLF, v2)"
    "answer open_config v2 l5 = (''200 TYPE is now BINARY'' @ CRLF, v2)"
    "answer open_config v2 l2 = (''425 Cannot open data connection'' @ CRLF, v2)"
    "answer open_config v2 q = (''221 Goodbye!'' @ CRLF, v2)"
    by (simp_all add: answer_def user_answer_def pass_answer_def member_answer_def type_answer_def eval v open_config_def
        del: strcasecmp.simps) (simp_all add: v1_def v2_def)
  have ?covered and ?quit and ?last
    unfolding ls q_def [symmetric] by (simp_all add: a covered_def eval v) (simp_all add: lines nul_free_def)
  moreover have ?transcript ?named unfolding ls q_def [symmetric] by (simp_all add: a v)
  ultimately show ?transcript ?named ?covered ?quit ?last by simp_all
qed

theorem ftp_main_transcript_witness:
  "\<exists>w'. ftp_main (core_pool 32) visit_os 4 5
      ((idle_world_at (''user anonymous'' @ CRLF @ ''RETR x'' @ CRLF @ ''pass me'' @ [LF] @ ''PWD'' @ CRLF @ ''type i'' @ CRLF
        @ ''RETR x'' @ CRLF @ ''Quit'' @ CRLF))\<lparr>w_config := open_config\<rparr>) = Some (1, w')
    \<and> w_out w' 4 = ''220 Welcome'' @ CRLF @ ''331 Any pass will do'' @ CRLF @ ''530 You're not logged in'' @ CRLF
        @ ''230 Hello!'' @ CRLF @ ''257 '' @ [QUOTE] @ ''/'' @ [QUOTE] @ '' is your current location'' @ CRLF
        @ ''200 TYPE is now BINARY'' @ CRLF @ ''425 Cannot open data connection'' @ CRLF
        @ ''221 Goodbye!'' @ CRLF @ ''421 Goodbye!'' @ CRLF"
proof -
  have s: "visit_script = ''user anonymous'' @ CRLF @ ''RETR x'' @ CRLF @ ''pass me'' @ [LF] @ ''PWD'' @ CRLF @ ''type i'' @ CRLF
        @ ''RETR x'' @ CRLF @ ''Quit'' @ CRLF" by (simp add: visit_lines_def)
  define w where "w = (idle_world_at visit_script)\<lparr>w_config := open_config\<rparr>"
  have w: "w_os w = visit_script" "w_config w = open_config" "w_out w 4 = []"
    by (simp_all add: w_def idle_world_at_def)
  have len: "length (w_os w) < COMMAND_BUFFER_SIZE" unfolding w s by (simp add: COMMAND_BUFFER_SIZE_def)
  have c: "cfg_allow_anon open_config" "cfg_anon_root_dir open_config = Some ''/srv''" by (simp_all add: open_config_def)
  obtain w' where w': "ftp_main (core_pool 32) visit_os 4 5 w = Some (1, w')"
    "w_out w' = (w_out w)(4 := w_out w 4 @ ''220 Welcome'' @ CRLF @ transcript open_config visitor (visit_lines @ [visit_end])
      @ ''421 Goodbye!'' @ CRLF)"
    using ftp_main_transcript [OF visit_os_ok _ _ _ w(1) len, unfolded w(2), OF _ _ _ visit_transcript(3,4,5,2), of 4 32 5] c
    by (auto simp: visit_os_def)
  show ?thesis
    using w' unfolding w_def [unfolded s, symmetric] visit_transcript(1) w(3) by simp
qed

end
