(* ===== verification/Spec2Isabelle.thy ===== *)
theory Spec2Isabelle
  imports Ftp_Startup Ftp_Confine Ftp_Stor Ftp_Total Ftp_Admit Ftp_Results Ftp_Reports Ftp_Transcript Ftp_Numbers
begin

text \<open>
  A verification development for the FTP server \<open>ftpd\<close>, a C program for Linux. This header says what
  the parts of the program are, where each of them is modelled, what is proved about it, and what is not
  modelled. Source names without a directory are files of the repository's root.

  \<^bold>\<open>The program.\<close> A master process (\<open>main.c\<close>, \<open>config.c\<close>, \<open>daemon.c\<close>, \<open>child.c\<close>) reads its arguments and its
  configuration, listens on a socket, and forks a server process for every client it admits. A server
  process (\<open>server.c\<close>, \<open>command.c\<close>, \<open>core.c\<close>, \<open>auth.c\<close>, \<open>ls.c\<close>) reads command lines from the control
  connection, looks each command up in a sorted table, and runs its handler; the handlers use the virtual
  file system (\<open>vfs.c\<close>), the data connection (\<open>stream.c\<close>, \<open>throttle.c\<close>) and the replies (\<open>reply.c\<close>). Every
  server process reports its logins, directories and transfers to the master through one pipe (\<open>state.c\<close>).
  Signals set flags that the loops look at (\<open>signals.c\<close>).

  \<^bold>\<open>How C is modelled.\<close>

  \<^item> Undefined behaviour is a value: an access outside an array, a null or indeterminate pointer that is
    followed or freed, a failed \<open>assert\<close>, a function that ends without its return value, and a loop that
    never ends are \<open>None\<close>. A theorem that an operation returns \<open>Some\<close> is therefore also a statement
    about memory safety and termination.
  \<^item> The state of a process is the record \<open>world\<close> (\<open>Ftp_World\<close>): the globals (\<open>errno\<close>, the signal flag, the
    configuration, the three buffer pools), the session, the bytes handed to each descriptor (\<open>w_out\<close>) and
    the open descriptors (\<open>w_fds\<close>). An operation takes the world and returns its result and the new world.
  \<^item> The operating system and the C library's databases are not part of the repository. They are the
    parameter \<open>os\<close>, a record with one function per call over a state of any type \<open>'o\<close>, kept in \<open>w_os\<close>.
    Nothing is assumed about it, except by the named conditions that properties list as hypotheses:
    \<open>sends_ok\<close>, \<open>mem_ok\<close>, \<open>writes_ok\<close> (the call succeeds, with all bytes), \<open>patient\<close> (\<open>send\<close> and \<open>writev\<close> may
    fail or take a part, but are not interrupted for ever), \<open>calm\<close> (no signals, sleeps end), \<open>sleeper\<close>
    (\<open>nanosleep\<close> may be interrupted and tells the time left), \<open>serves_file\<close>, \<open>stores_stream\<close>, \<open>delivers\<close>
    (\<open>sendfile\<close>, \<open>read\<close> and \<open>recv\<close> do not fail but may be short, as their manual pages say; a write to a
    regular file is whole), \<open>pipe_at\<close> (a read of a pipe gets all it asks for, since the messages are written
    whole), \<open>file_at\<close>, \<open>directory_at\<close>, \<open>creates\<close>, \<open>lists_dir\<close>, \<open>fixed_stats\<close>, \<open>accepts\<close>, \<open>port_host\<close>,
    \<open>only_reports\<close>, \<open>knows_user\<close> (what is there to be found), \<open>agrees\<close> (two systems are the same below a directory). Each
    of them is shown to hold of a concrete system where a property is applied to an example.
  \<^item> Machine integers have their width: \<open>32 word\<close> and \<open>64 word\<close> for unsigned ones with wrap-around, \<open>int\<close>
    with \<open>to_int32\<close> where a conversion can change the value. Strings are character lists without the
    terminating NUL, buffers are lists of fixed length with the NUL in them (\<open>cstr\<close> reads one as the other).
  \<^item> Loops are structural recursion or \<open>function\<close> with a measure. The loops that a signal, a client or a
    system call can keep going (\<open>sendall\<close>, \<open>splice_retry\<close>, \<open>store_loop\<close>, \<open>read_cmd\<close>, \<open>serve\<close>, \<open>daemon_loop\<close>,
    \<open>nanosleep_loop\<close>, \<open>writev_loop\<close>) are \<open>partial_function (option)\<close>; there is no fuel anywhere. That they
    return is proved where a property needs it, by induction on the bytes that are left.
\<close>

text \<open>
  \<^bold>\<open>The theories\<close>, from the bottom up. For each: the code, the main definitions, and what its lemmas show.

  \<^item> \<open>Ftp_Prelude\<close>: arrays with bounds (\<open>rd\<close>, \<open>wr\<close>, \<open>blit\<close>), C strings, characters, \<open>strcasecmp\<close>, decimal
    printing, signed division; the locales for comparison functions (\<open>comparator\<close>), searched tables
    (\<open>searched_table\<close>), invariants of step relations (\<open>step_invariant\<close>) and frame relations
    (\<open>frame_relation\<close>, whose rules prove what a whole handler leaves alone).
  \<^item> \<open>Ftp_Util\<close> and \<open>Ftp_Clock\<close>: \<open>util.c\<close>. Exact specifications of \<open>strlcpy\<close> and \<open>trim_whitespace\<close>;
    \<open>convert_time\<close> against the Gregorian calendar (\<open>gregorian_day\<close>): the days on which its date is right, and
    the day from which it is undefined. \<open>seconds_366\<close> only describes the calendar its loops follow.
  \<^item> \<open>Ftp_Numbers\<close>: \<open>strtol\<close> and \<open>strtoll\<close> of the C library, as the code uses them.
  \<^item> \<open>Ftp_Config\<close>: \<open>config.c\<close>. The parser is a fold over the lines of the file up to the first bad one; an
    accepted configuration is within its bounds; printed integers are read back.
  \<^item> \<open>Ftp_Realpath\<close> and \<open>Ftp_Vfs\<close>: \<open>vfs.c\<close>. \<open>vfs_realpath\<close>, on a byte array, refines \<open>resolve\<close> on lists of
    components (locale \<open>path_resolver\<close>); every file operation depends only on paths below the root
    directory.
  \<^item> \<open>Ftp_World\<close> and \<open>Ftp_Frame\<close>: the process state, \<open>signals.c\<close>, \<open>reply.c\<close>, \<open>sendall\<close>; what the primitives
    leave alone (\<open>quiet\<close>) and what a reply sends.
  \<^item> \<open>Ftp_Child\<close> and \<open>Ftp_State\<close>: \<open>child.c\<close> and \<open>state.c\<close>. The client list; the messages on the memory layout
    of the x86-64 ABI, with their encodings (locale \<open>wire_codec\<close>) and their round trip.
  \<^item> \<open>Ftp_Transfer\<close>: \<open>stream.c\<close>, \<open>throttle.c\<close>, the transfer loops of \<open>core.c\<close>. A download puts on
    the connection what \<open>sendfile\<close> takes of each block (\<open>file_blocks\<close>, \<open>part_of\<close>): the file when no call is
    short, and less otherwise; an upload stores the stream in whatever pieces it arrives; a pause sleeps
    what the configured rate still owes.
  \<^item> \<open>Ftp_Session\<close>: the invariant \<open>session_ok\<close>, the guarantee \<open>keeps\<close>, and the locale \<open>session_handler\<close>,
    the contract every handler fulfils; the main loop relies on nothing else.
  \<^item> \<open>Ftp_Auth\<close>, \<open>Ftp_Core\<close>, \<open>Ftp_Ls\<close>: the 25 handlers of \<open>auth.c\<close>, \<open>core.c\<close> and \<open>ls.c\<close>, each an interpretation
    of \<open>session_handler\<close>; who gets in, where CWD leads, on which port PASV
    listens.
  \<^item> \<open>Ftp_Command\<close>: \<open>command.c\<close> and the table of \<open>core.c\<close>. The growing pool, sorting, bisection, the checks
    before a handler; the dispatch equals a linear search of the table.
  \<^item> \<open>Ftp_Server\<close>: \<open>server.c\<close>. The line buffer, the main loop, and the step relation \<open>session_step\<close> with its
    invariants; commands are the lines of the byte stream.
  \<^item> \<open>Ftp_Daemon\<close>: \<open>daemon.c\<close>. Admission, fork, signals, the poll loop, and the step relation \<open>master_step\<close>.
  \<^item> \<open>Ftp_Log\<close> and \<open>Ftp_Startup\<close>: \<open>log.c\<close> and \<open>main.c\<close>.
\<close>

text \<open>
  \<^bold>\<open>Compositions.\<close> These theories contain no model of their own; they join the components.

  \<^item> \<open>Ftp_Confine\<close>: a whole logged-in session depends only on what is below its root directory.
  \<^item> \<open>Ftp_Retr\<close>, \<open>Ftp_Stor\<close>, \<open>Ftp_Listing\<close>: RETR, STOR and LIST from the argument to the closed descriptors,
    with the bytes on both connections or in the file.
  \<^item> \<open>Ftp_Files\<close>: MKD, RMD and DELE on every branch; SIZE and MDTM of a regular file.
  \<^item> \<open>Ftp_Admit\<close>: a login by password, from the databases to the record the master keeps of the client.
  \<^item> \<open>Ftp_Total\<close>: the commands on the control connection always end with a value, although every system call
    may fail: no undefined behaviour and no endless loop in them, with the exceptions named.
  \<^item> \<open>Ftp_Results\<close>: the result codes of all commands, and with them which commands can end a session.
  \<^item> \<open>Ftp_Transcript\<close>: the process of a visitor, from the welcome over an anonymous login to the farewell, as
    a function from the lines it sends to the bytes it gets (the automaton \<open>answer\<close>); the process returns.
  \<^item> \<open>Ftp_Reports\<close>: the master's loop drains the pipe of interleaved reports, and every client's record is
    the fold of that client's own messages.

  \<^bold>\<open>Bounds.\<close> The sizes of the code are definitions: paths and their buffers \<open>FTP_MAX_PATH\<close>, names
  \<open>FTP_MAX_NAME\<close>, the line and the reply buffer 1024 bytes, blocks of 4096 bytes. Two hypotheses come from
  them: a transfer is below \<open>2 ^ 31\<close> blocks, because the block count is an \<open>int\<close>, and the pending bytes of
  the control connection fit the line buffer, because the code ends a session whose buffer is full
  (\<open>read_cmd_full_buffer\<close>).

  \<^bold>\<open>Faults.\<close> Where the code does not do what it means to, the model does what the code does, and the property
  says so: \<open>is_leap\<close>, with it the calendar from March 1970 on and all dates from 24 January 2000 on, the empty configuration file, \<open>trim_whitespace\<close>
  on other white space, \<open>strlcpy\<close> of an empty string, the flag of an anonymous USER, the user name that is
  freed unwritten, the cleared signal flags, the client list without the child that ended, a block sent in
  part, a restarted upload, the reply cut at 1023 bytes.

  \<^bold>\<open>Not modelled.\<close> The text of log messages at the places that log them, and of the usage message: nothing
  reads them. The effect of \<open>sigaction\<close> and \<open>sigprocmask\<close>: signals arrive where the model asks the system for
  them (at system calls that can be interrupted and where the flag is read). \<open>getopt\<close>: its results are the
  input of \<open>parse_args\<close>. What the kernel and the file system do. The contents of fresh memory are zero in
  the model, and properties about buffers hold for any contents. The padding of the messages is zero.

  \<^bold>\<open>Further work.\<close> Transcripts of a session with logins by password and transfers in them, and sessions
  whose pending bytes exceed the line buffer in total but not at any one time.
\<close>

end
